(* ===== verification/Xenon_Prelude.thy ===== *)
theory Xenon_Prelude
  imports Main "HOL-Library.Word" "HOL-Library.Monad_Syntax"
begin

text \<open>
  Shared vocabulary of the libxenon development.

  \<^item> Machine integers are words of their C width (\<open>u8\<close> to \<open>u64\<close>).
  \<^item> A C pointer is an \<open>option\<close>: \<open>None\<close> is NULL.  Dereferencing a pointer is
    \<open>Option.bind\<close>, so a NULL dereference makes the whole operation \<open>None\<close>.  The same
    \<open>None\<close> stands for a loop that never ends and for spinning on a lock that is already held.
    A theorem that an operation is \<open>Some\<close> therefore says that it neither crashes nor hangs.
  \<^item> Circular doubly linked lists (the queues of \<open>lib_queue.c\<close> and the per-processor thread
    lists of \<open>c_threads.c\<close>) are related to a HOL list by the predicate \<open>ring\<close>.  The lemmas
    of this theory say what the pointer surgery of the sources does to that list.
\<close>

type_synonym u8 = "8 word"
type_synonym u16 = "16 word"
type_synonym u32 = "32 word"
type_synonym u64 = "64 word"

section \<open>Word bounds\<close>

lemma unat_u8_less [simp]: "unat (a :: u8) < 256"
  using unsigned_less [of a, where 'a = nat] by simp

lemma unat_u16_less [simp]: "unat (a :: u16) < 65536"
  using unsigned_less [of a, where 'a = nat] by simp

lemma unat_u32_less [simp]: "unat (a :: u32) < 4294967296"
  using unsigned_less [of a, where 'a = nat] by simp

lemma unat_u8_Suc: "unat (a :: u8) < unat (b :: u8) \<Longrightarrow> unat (a + 1) = Suc (unat a)"
  using unat_u8_less [of b] by (simp add: unat_word_ariths del: unat_u8_less)

lemma neg_le_uint [simp]: "- numeral k \<le> uint x"
  by (rule order_trans [of _ 0]) simp_all

lemma sint_ucast_u32: "sint (ucast (x :: u32) :: u64) = uint x"
proof -
  have "uint x < 4294967296" "0 \<le> uint x"
    using uint_lt2p [of x] by simp_all
  then have "signed_take_bit 63 (uint x) = uint x"
    by (intro signed_take_bit_int_eq_self) simp_all
  then show ?thesis
    using \<open>uint x < 4294967296\<close> by (simp add: sint_uint unsigned_ucast_eq take_bit_int_eq_self)
qed

section \<open>Total correctness of partial operations\<close>

text \<open>
  \<open>returns m P\<close>: the operation \<open>m\<close> comes back (no NULL dereference, no endless loop, no
  spinning on a held lock) and its result satisfies \<open>P\<close>.
\<close>

definition returns :: "'a option \<Rightarrow> ('a \<Rightarrow> bool) \<Rightarrow> bool" where
  "returns m P \<longleftrightarrow> (case m of None \<Rightarrow> False | Some x \<Rightarrow> P x)"

lemma returns_Some [simp]: "returns (Some x) P \<longleftrightarrow> P x"
  by (simp add: returns_def)

lemma returns_None [simp]: "\<not> returns None P"
  by (simp add: returns_def)

lemma returns_bind [simp]: "returns (Option.bind m f) P \<longleftrightarrow> returns m (\<lambda>x. returns (f x) P)"
  by (cases m) auto

lemma returns_iff: "returns m P \<longleftrightarrow> (\<exists>x. m = Some x \<and> P x)"
  by (cases m) auto

lemma returnsE:
  assumes "returns m P" obtains x where "m = Some x" "P x"
  using assms by (auto simp: returns_iff)

lemma returns_mono: "returns m P \<Longrightarrow> (\<And>x. m = Some x \<Longrightarrow> P x \<Longrightarrow> Q x) \<Longrightarrow> returns m Q"
  by (auto simp: returns_iff)

lemma returns_conj: "returns m (\<lambda>x. P x \<and> Q x) \<longleftrightarrow> returns m P \<and> returns m Q"
  by (cases m) auto

section \<open>Field maps\<close>

text \<open>
  A field of a heap of records is read as a map \<open>fld \<circ> h\<close>.  Writing one object updates that
  map in one place.
\<close>

lemma comp_fun_upd [simp]: "f \<circ> (h(x := v)) = (f \<circ> h)(x := f v)"
  by (rule fun_upd_comp)

lemma comp_upd_same [simp]: "(f \<circ> h)(x := f (h x)) = f \<circ> h"
  by (rule ext) simp

section \<open>Doubly linked segments\<close>

fun links :: "('a \<Rightarrow> 'a option) \<Rightarrow> ('a \<Rightarrow> 'a option) \<Rightarrow> 'a list \<Rightarrow> bool" where
  "links n p (a # b # xs) \<longleftrightarrow> n a = Some b \<and> p b = Some a \<and> links n p (b # xs)"
| "links n p _ \<longleftrightarrow> True"

lemma links_append:
  "links n p (xs @ y # ys) \<longleftrightarrow> links n p (xs @ [y]) \<and> links n p (y # ys)"
proof (induction xs)
  case Nil
  then show ?case by simp
next
  case (Cons x xs)
  then show ?case by (cases xs) auto
qed

lemma links_upd_next:
  "a \<notin> set (butlast xs) \<Longrightarrow> links (n(a := v)) p xs = links n p xs"
  by (induction n p xs rule: links.induct) auto

lemma links_upd_prev:
  "a \<notin> set (tl xs) \<Longrightarrow> links n (p(a := v)) xs = links n p xs"
  by (induction n p xs rule: links.induct) (auto split: if_splits)

section \<open>Rings\<close>

text \<open>
  \<open>ring n p xs\<close>: following \<open>n\<close> from the first element of \<open>xs\<close> visits exactly \<open>xs\<close> in
  order and comes back to the start; \<open>p\<close> is the inverse.
\<close>

definition ring :: "('a \<Rightarrow> 'a option) \<Rightarrow> ('a \<Rightarrow> 'a option) \<Rightarrow> 'a list \<Rightarrow> bool" where
  "ring n p xs \<longleftrightarrow> xs \<noteq> [] \<and> distinct xs \<and> links n p (xs @ [hd xs])"

lemma ring_not_Nil [simp]: "\<not> ring n p []"
  by (simp add: ring_def)

lemma ring_distinct: "ring n p xs \<Longrightarrow> distinct xs"
  by (simp add: ring_def)

lemma ring_single [simp]: "ring n p [x] \<longleftrightarrow> n x = Some x \<and> p x = Some x"
  by (simp add: ring_def)

lemma ring_rotate1: "ring n p (xs @ [x]) \<longleftrightarrow> ring n p (x # xs)"
proof (cases xs)
  case Nil
  then show ?thesis by simp
next
  case (Cons y ys)
  have "links n p (y # ys @ [x, y]) \<longleftrightarrow> links n p (y # ys @ [x]) \<and> links n p [x, y]"
    using links_append [of n p "y # ys" x "[y]"] by simp
  then show ?thesis
    using Cons by (auto simp: ring_def)
qed

lemma ring_rotate: "ring n p (xs @ ys) \<longleftrightarrow> ring n p (ys @ xs)"
proof (induction xs arbitrary: ys)
  case Nil
  then show ?case by simp
next
  case (Cons x xs)
  have "ring n p ((x # xs) @ ys) \<longleftrightarrow> ring n p ((xs @ ys) @ [x])"
    by (simp only: ring_rotate1 append_Cons)
  also have "\<dots> \<longleftrightarrow> ring n p ((ys @ [x]) @ xs)"
    using Cons.IH [of "ys @ [x]"] by simp
  finally show ?case by simp
qed

lemma ring_next_last: "ring n p (x # xs) \<Longrightarrow> n (last (x # xs)) = Some x"
proof (induction xs rule: rev_induct)
  case (snoc y ys)
  then show ?case
    using links_append [of n p "x # ys" y "[x]"] by (simp add: ring_def)
qed simp

lemma ring_prev_hd: "ring n p (x # xs) \<Longrightarrow> p x = Some (last (x # xs))"
proof (induction xs rule: rev_induct)
  case (snoc y ys)
  then show ?case
    using links_append [of n p "x # ys" y "[x]"] by (simp add: ring_def)
qed simp

lemma ring_next_hd: "ring n p (x # y # xs) \<Longrightarrow> n x = Some y"
  by (simp add: ring_def)

lemma ring_prev_snd: "ring n p (x # y # xs) \<Longrightarrow> p y = Some x"
  by (simp add: ring_def)

lemma ring_next_mid: "ring n p (xs @ x # y # ys) \<Longrightarrow> n x = Some y"
  using ring_rotate [of n p xs "x # y # ys"] by (simp add: ring_def)

lemma ring_prev_mid: "ring n p (xs @ x # y # ys) \<Longrightarrow> p y = Some x"
  using ring_rotate [of n p xs "x # y # ys"] by (simp add: ring_def)

lemma ring_next_end: "ring n p (xs @ [x]) \<Longrightarrow> n x = Some (hd (xs @ [x]))"
  using ring_next_last [of n p "hd (xs @ [x])" "tl (xs @ [x])"] by (cases xs) auto

text \<open>The successor and predecessor of a member are members.\<close>

lemma ring_neighbours:
  assumes "ring n p xs" "y \<in> set xs"
  obtains a b where "n y = Some b" "p y = Some a" "a \<in> set xs" "b \<in> set xs"
proof -
  obtain us vs where xs: "xs = us @ y # vs"
    using assms(2) by (auto dest: split_list)
  then have r: "ring n p (y # vs @ us)"
    using assms(1) ring_rotate [of n p us "y # vs"] by simp
  have "n y = Some (hd ((vs @ us) @ [y]))"
    using r by (cases "vs @ us") (auto simp: ring_def simp del: append_assoc)
  then have "n y = Some (hd (vs @ us @ [y]))"
    by simp
  moreover have "p y = Some (last (y # vs @ us))"
    using r by (rule ring_prev_hd)
  moreover have "hd (vs @ us @ [y]) \<in> set xs" "last (y # vs @ us) \<in> set xs"
    using xs by (cases vs; cases us; force)+
  ultimately show thesis
    by (blast intro: that)
qed

lemma ring_next_out [simp]:
  "ring n p xs \<Longrightarrow> a \<notin> set xs \<Longrightarrow> ring (n(a := v)) p xs"
  by (auto simp: ring_def links_upd_next)

lemma ring_prev_out [simp]:
  "ring n p xs \<Longrightarrow> a \<notin> set xs \<Longrightarrow> ring n (p(a := v)) xs"
proof -
  assume r: "ring n p xs" and a: "a \<notin> set xs"
  have "a \<notin> set (tl (xs @ [hd xs]))"
    using r a by (cases xs) auto
  then show ?thesis
    using r by (simp add: ring_def links_upd_prev)
qed

text \<open>Two field maps that agree on the members describe the same ring.\<close>

lemma links_cong:
  "(\<And>a. a \<in> set xs \<Longrightarrow> n' a = n a) \<Longrightarrow> (\<And>a. a \<in> set xs \<Longrightarrow> p' a = p a) \<Longrightarrow>
     links n' p' xs = links n p xs"
  by (induction n p xs rule: links.induct) auto

lemma ring_cong:
  assumes "\<And>a. a \<in> set xs \<Longrightarrow> n' a = n a" and "\<And>a. a \<in> set xs \<Longrightarrow> p' a = p a"
  shows "ring n' p' xs = ring n p xs"
proof (cases "xs = []")
  case False
  then have "links n' p' (xs @ [hd xs]) = links n p (xs @ [hd xs])"
    using assms by (intro links_cong) auto
  then show ?thesis by (simp add: ring_def)
qed simp

section \<open>Pointer surgery on rings\<close>

text \<open>Linking a fresh node between the last and the first member.\<close>

lemma ring_insert:
  assumes "ring n p (x # xs)" and "y \<notin> set (x # xs)"
  shows "ring (n(last (x # xs) := Some y, y := Some x)) (p(x := Some y, y := Some (last (x # xs))))
           (y # x # xs)"
proof (cases xs rule: rev_cases)
  case Nil
  then show ?thesis using assms by (auto simp: ring_def)
next
  case (snoc ys z)
  let ?n = "n(z := Some y, y := Some x)" and ?p = "p(x := Some y, y := Some z)"
  have d: "distinct (x # ys @ [z])" and l: "links n p (x # ys @ [z])"
    using assms(1) snoc links_append [of n p "x # ys" z "[x]"] by (auto simp: ring_def)
  have "links ?n ?p (x # ys @ [z]) = links n p (x # ys @ [z])"
    using d assms(2) snoc not_sym [of x z]
    by (simp add: links_upd_next links_upd_prev butlast_append)
  then have "links ?n ?p (y # x # ys @ [z, y])"
    using l d assms(2) snoc links_append [of ?n ?p "x # ys" z "[y]"] by auto
  then show ?thesis
    using d assms(2) snoc by (simp add: ring_def)
qed

text \<open>The same, for a node that becomes the last member.\<close>

lemma ring_insert_last:
  assumes "ring n p (x # xs)" and "y \<notin> set (x # xs)"
  shows "ring (n(last (x # xs) := Some y, y := Some x)) (p(x := Some y, y := Some (last (x # xs))))
           (x # xs @ [y])"
  using ring_insert [OF assms] ring_rotate1 [of _ _ "x # xs" y] by simp

text \<open>Unlinking the first member of a ring of two or more.\<close>

lemma ring_remove_hd:
  assumes "ring n p (y # x # xs)"
  shows "ring (n(last (x # xs) := Some x)) (p(x := Some (last (x # xs)))) (x # xs)"
proof (cases xs rule: rev_cases)
  case Nil
  then show ?thesis using assms by (simp add: ring_def)
next
  case (snoc ys z)
  let ?n = "n(z := Some x)" and ?p = "p(x := Some z)"
  have d: "distinct (y # x # ys @ [z])" and l: "links n p (x # ys @ [z])"
    using assms snoc links_append [of n p "y # x # ys" z "[y]"]
      links_append [of n p "[y]" x "ys @ [z]"] by (auto simp: ring_def)
  have "links ?n ?p (x # ys @ [z]) = links n p (x # ys @ [z])"
    using d not_sym [of x z] by (simp add: links_upd_next links_upd_prev butlast_append)
  then have "links ?n ?p (x # ys @ [z, x])"
    using l links_append [of ?n ?p "x # ys" z "[x]"] by simp
  then show ?thesis
    using d snoc by (simp add: ring_def)
qed

lemma ring_neighbours_neq:
  assumes r: "ring n p (us @ y # vs)" and ne: "us @ vs \<noteq> []"
    and nx: "n y = Some b" and pv: "p y = Some a"
  shows "a \<noteq> y" and "b \<noteq> y"
proof -
  have r': "ring n p (y # vs @ us)"
    using r ring_rotate [of n p us "y # vs"] by simp
  obtain x xs where x: "vs @ us = x # xs"
    using ne by (cases "vs @ us") auto
  have "b = x" "a = last (x # xs)"
    using r' x nx pv ring_next_hd [of n p y x xs] ring_prev_hd [of n p y "x # xs"] by auto
  moreover have "y \<notin> set (x # xs)"
    using ring_distinct [OF r'] x by simp
  ultimately show "a \<noteq> y" "b \<noteq> y"
    using last_in_set [of "x # xs"] by auto
qed

text \<open>
  Unlinking any member: the two assignments \<open>y->next->prev = y->prev\<close> and
  \<open>y->prev->next = y->next\<close> leave the ring without \<open>y\<close>.
\<close>

lemma ring_unlink:
  assumes r: "ring n p (us @ y # vs)" and ne: "us @ vs \<noteq> []"
    and nx: "n y = Some b" and pv: "p y = Some a"
  shows "ring (n(a := Some b)) (p(b := Some a)) (us @ vs)"
proof -
  have r': "ring n p (y # vs @ us)"
    using r ring_rotate [of n p us "y # vs"] by simp
  obtain x xs where x: "vs @ us = x # xs"
    using ne by (cases "vs @ us") auto
  have "b = x" "a = last (x # xs)"
    using r' x nx pv ring_next_hd [of n p y x xs] ring_prev_hd [of n p y "x # xs"] by auto
  then have "ring (n(a := Some b)) (p(b := Some a)) (vs @ us)"
    using ring_remove_hd r' x by metis
  then show ?thesis
    using ring_rotate by blast
qed

end
