(* ===== verification/Threads_Data.thy ===== *)
theory Threads_Data
  imports Xenon_Prelude
begin

text \<open>
  The data of the threading library: \<open>threads/threads.h\<close> and the globals of
  \<open>threads/c_threads.c\<close>, with the primitives that everything else is built from (spin locks,
  interrupt request levels, the thread pool, the clock).

  The pointers between \<open>THREAD\<close> objects are indices into the static \<open>ThreadPool\<close>, those to
  \<open>PROCESSOR_DATA_BLOCK\<close> objects are processor numbers; NULL is \<open>None\<close>.  A spin lock is named
  by the object it protects.  Each operation runs as one atomic step of the processor \<open>c\<close> that
  executes it: that is what the lock it holds throughout gives, so \<open>lock\<close> on a held lock is a
  self-deadlock and has no result.

  Link-time addresses (the processor blocks, the entry trampoline) are fields of the state that
  no operation writes.  The newlib re-entrancy block of a thread is kept only as a flag saying
  whether it was initialised.
\<close>

section \<open>Types\<close>

definition MAX_THREAD_COUNT :: nat where "MAX_THREAD_COUNT = 256"
definition THREAD_FLAG_CREATE_SUSPENDED :: u32 where "THREAD_FLAG_CREATE_SUSPENDED = 1"

type_synonym tptr = "nat option"

record PROCESSOR_FPU_VPU_SAVE =
  Fpr :: "u64 list"
  Fpscr :: u64

record CONTEXT =
  Msr :: u64
  Iar :: u64
  Lr :: u64
  Ctr :: u64
  Gpr :: "u64 list"
  Cr :: u64
  Xer :: u64
  FpuVpu :: PROCESSOR_FPU_VPU_SAVE

record DPC =
  Procedure :: nat
  Param1 :: u32
  Param2 :: u32
  Param3 :: u32
  dpc_Priority :: u32
  NextDPC :: "nat option"
  Queued :: u32

text \<open>The interrupt service routines that \<open>thread_startup\<close> installs.\<close>

datatype isr = Isr_unexpected | Isr_hal_smm | Isr_vdp | Isr_ipi_clock | Isr_clock | Isr_ipi
  | Isr_spurious

record PROCESSOR_DATA_BLOCK =
  RegisterSave :: "u64 list"
  LRSave :: u64
  CTRSave :: u64
  CRSave :: u64
  XERSave :: u64
  IARSave :: u64
  MSRSave :: u64
  LiveFpu :: PROCESSOR_FPU_VPU_SAVE \<comment> \<open>the floating point registers of the core\<close>
  CurrentProcessor :: u8
  Irq :: u8
  FirstThread :: tptr
  LastThread :: tptr
  FirstSwapProcess :: tptr
  LastSwapProcess :: tptr
  InterruptTable :: "isr list"
  IpiProc :: "nat option"
  IpiContext :: u32
  IpiIncrement :: bool \<comment> \<open>whether the counter pointer is set\<close>
  QuantumEnd :: u64
  Decrementer :: u32 \<comment> \<open>the DEC register of the core\<close>
  CurrentThread :: tptr
  DPCList :: "nat option"
  ProcessingDPC :: u32

record THREAD =
  Context :: CONTEXT
  ThisProcessor :: "nat option"
  NextThread :: tptr
  PreviousThread :: tptr
  NextThreadFull :: tptr
  PreviousThreadFull :: tptr
  NextThreadReady :: tptr
  PreviousThreadReady :: tptr
  NextThreadMutex :: tptr
  PreviousThreadMutex :: tptr
  Valid :: u8
  Priority :: u8
  PriorityBoost :: u8
  MaxPriorityBoost :: u8
  ThreadIsRunning :: u8
  SuspendCount :: u8
  HandleOpen :: u8
  ThreadId :: u8
  ThreadTerminated :: u8
  WaitingForMutex :: u8
  WaitingInHandler :: u8
  DebugData :: u32
  SleepTime :: u64
  Name :: "string option"
  StackBase :: u32
  StackSize :: u32
  reent_ready :: bool

record THREAD_LIST =
  list_FirstThread :: tptr
  list_LastThread :: tptr

datatype lock_id = ThreadListLock | ProcessorLock nat | SwapProcessLock nat | IpiLock nat
  | DPCLock nat | ipi_lock | MutexLock nat

record world =
  ThreadPool :: "nat \<Rightarrow> THREAD"
  Processors :: "nat \<Rightarrow> PROCESSOR_DATA_BLOCK"
  ThreadList :: THREAD_LIST
  DPCs :: "nat \<Rightarrow> DPC"
  locks :: "lock_id \<Rightarrow> bool"
  system_time :: u64
  clock_time :: u64
  millisecond_clock_time :: u64
  decrementer_ticks :: u32
  threads_online :: u32
  ipi_count :: u32
  threading_init_check :: bool
  Freed :: "u32 list" \<comment> \<open>stacks handed to \<open>free\<close>, latest first\<close>
  processor_blocks :: u32 \<comment> \<open>address of the processor blocks\<close>
  proc_startup_address :: u32 \<comment> \<open>address of \<open>thread_proc_startup\<close>\<close>

text \<open>The all-zero object that \<open>memset\<close> leaves.\<close>

definition zero_fpu :: PROCESSOR_FPU_VPU_SAVE where
  "zero_fpu = \<lparr>Fpr = replicate 32 0, Fpscr = 0\<rparr>"

definition zero_context :: CONTEXT where
  "zero_context = \<lparr>Msr = 0, Iar = 0, Lr = 0, Ctr = 0, Gpr = replicate 32 0, Cr = 0, Xer = 0,
     FpuVpu = zero_fpu\<rparr>"

definition zero_thread :: THREAD where
  "zero_thread = \<lparr>Context = zero_context, ThisProcessor = None, NextThread = None,
     PreviousThread = None, NextThreadFull = None, PreviousThreadFull = None,
     NextThreadReady = None, PreviousThreadReady = None, NextThreadMutex = None,
     PreviousThreadMutex = None, Valid = 0, Priority = 0, PriorityBoost = 0,
     MaxPriorityBoost = 0, ThreadIsRunning = 0, SuspendCount = 0, HandleOpen = 0, ThreadId = 0,
     ThreadTerminated = 0, WaitingForMutex = 0, WaitingInHandler = 0, DebugData = 0,
     SleepTime = 0, Name = None, StackBase = 0, StackSize = 0, reent_ready = False\<rparr>"

section \<open>Assignments through pointers\<close>

definition tupd :: "nat \<Rightarrow> (THREAD \<Rightarrow> THREAD) \<Rightarrow> world \<Rightarrow> world" where
  "tupd p f s = s\<lparr>ThreadPool := (ThreadPool s)(p := f (ThreadPool s p))\<rparr>"

definition pupd :: "nat \<Rightarrow> (PROCESSOR_DATA_BLOCK \<Rightarrow> PROCESSOR_DATA_BLOCK) \<Rightarrow> world \<Rightarrow> world" where
  "pupd c f s = s\<lparr>Processors := (Processors s)(c := f (Processors s c))\<rparr>"

definition dupd :: "nat \<Rightarrow> (DPC \<Rightarrow> DPC) \<Rightarrow> world \<Rightarrow> world" where
  "dupd d f s = s\<lparr>DPCs := (DPCs s)(d := f (DPCs s d))\<rparr>"

section \<open>Locks and interrupt request levels\<close>

definition lock :: "lock_id \<Rightarrow> world \<Rightarrow> world option" where
  "lock l s = (if locks s l then None else Some (s\<lparr>locks := (locks s)(l := True)\<rparr>))"

definition unlock :: "lock_id \<Rightarrow> world \<Rightarrow> world" where
  "unlock l s = s\<lparr>locks := (locks s)(l := False)\<rparr>"

text \<open>
  Both functions return the old level and store the new one; the range checks of the source only
  print a warning.
\<close>

definition thread_raise_irql :: "nat \<Rightarrow> u32 \<Rightarrow> world \<Rightarrow> u8 \<times> world" where
  "thread_raise_irql c irql s =
     (let irq = Irq (Processors s c)
      in (irq, pupd c (\<lambda>pr. pr\<lparr>Irq := ucast irql\<rparr>) s))"

definition thread_lower_irql :: "nat \<Rightarrow> u32 \<Rightarrow> world \<Rightarrow> u8 \<times> world" where
  "thread_lower_irql c irql s =
     (let irq = Irq (Processors s c)
      in (irq, pupd c (\<lambda>pr. pr\<lparr>Irq := ucast irql\<rparr>) s))"

definition thread_spinlock :: "nat \<Rightarrow> lock_id \<Rightarrow> world \<Rightarrow> (u8 \<times> world) option" where
  "thread_spinlock c l s = do {
     let (irql, s) = thread_raise_irql c 2 s;
     s \<leftarrow> lock l s;
     Some (irql, s) }"

definition thread_unlock :: "nat \<Rightarrow> lock_id \<Rightarrow> u8 \<Rightarrow> world \<Rightarrow> world" where
  "thread_unlock c l irql s = snd (thread_lower_irql c (ucast irql) (unlock l s))"

section \<open>Clock interrupt\<close>

definition thread_interrupt_clock :: "world \<Rightarrow> world" where
  "thread_interrupt_clock s =
     s\<lparr>clock_time := clock_time s + 10000, system_time := system_time s + 10000,
       millisecond_clock_time := millisecond_clock_time s + 1\<rparr>"

section \<open>Thread pool\<close>

text \<open>The first slot that is neither valid nor referenced by an open handle.\<close>

definition pool_slot_free :: "world \<Rightarrow> nat \<Rightarrow> bool" where
  "pool_slot_free s i \<longleftrightarrow> Valid (ThreadPool s i) = 0 \<and> HandleOpen (ThreadPool s i) = 0"

fun thread_pool_alloc_from :: "nat list \<Rightarrow> world \<Rightarrow> tptr \<times> world" where
  "thread_pool_alloc_from [] s = (None, s)"
| "thread_pool_alloc_from (i # is) s =
     (if pool_slot_free s i
      then (Some i, tupd i (\<lambda>_. zero_thread\<lparr>HandleOpen := 1, Valid := 1, ThreadId := of_nat i\<rparr>) s)
      else thread_pool_alloc_from is s)"

definition thread_pool_alloc :: "world \<Rightarrow> tptr \<times> world" where
  "thread_pool_alloc s = thread_pool_alloc_from [0..<MAX_THREAD_COUNT] s"

definition thread_get_pool :: "int \<Rightarrow> tptr" where
  "thread_get_pool i = (if i \<ge> 0 \<and> i < int MAX_THREAD_COUNT then Some (nat i) else None)"

section \<open>Rewriting\<close>

text \<open>
  Reading through \<open>tupd\<close> goes field by field: a field that the update leaves alone is read from
  the old state with no case distinction on the pointers.
\<close>

lemma tupd_pool: "ThreadPool (tupd p f s) = (ThreadPool s)(p := f (ThreadPool s p))"
  by (simp add: tupd_def)

lemma tupd_same [simp]: "ThreadPool (tupd p f s) p = f (ThreadPool s p)"
  by (simp add: tupd_def)

lemma tupd_other [simp]: "q \<noteq> p \<Longrightarrow> ThreadPool (tupd p f s) q = ThreadPool s q"
  by (simp add: tupd_def)

lemma tupd_keeps [simp]:
  "(\<And>t. NextThread (f t) = NextThread t) \<Longrightarrow>
     NextThread (ThreadPool (tupd p f s) q) = NextThread (ThreadPool s q)"
  "(\<And>t. PreviousThread (f t) = PreviousThread t) \<Longrightarrow>
     PreviousThread (ThreadPool (tupd p f s) q) = PreviousThread (ThreadPool s q)"
  "(\<And>t. NextThreadFull (f t) = NextThreadFull t) \<Longrightarrow>
     NextThreadFull (ThreadPool (tupd p f s) q) = NextThreadFull (ThreadPool s q)"
  "(\<And>t. PreviousThreadFull (f t) = PreviousThreadFull t) \<Longrightarrow>
     PreviousThreadFull (ThreadPool (tupd p f s) q) = PreviousThreadFull (ThreadPool s q)"
  "(\<And>t. NextThreadReady (f t) = NextThreadReady t) \<Longrightarrow>
     NextThreadReady (ThreadPool (tupd p f s) q) = NextThreadReady (ThreadPool s q)"
  "(\<And>t. PreviousThreadReady (f t) = PreviousThreadReady t) \<Longrightarrow>
     PreviousThreadReady (ThreadPool (tupd p f s) q) = PreviousThreadReady (ThreadPool s q)"
  "(\<And>t. NextThreadMutex (f t) = NextThreadMutex t) \<Longrightarrow>
     NextThreadMutex (ThreadPool (tupd p f s) q) = NextThreadMutex (ThreadPool s q)"
  "(\<And>t. PreviousThreadMutex (f t) = PreviousThreadMutex t) \<Longrightarrow>
     PreviousThreadMutex (ThreadPool (tupd p f s) q) = PreviousThreadMutex (ThreadPool s q)"
  "(\<And>t. ThisProcessor (f t) = ThisProcessor t) \<Longrightarrow>
     ThisProcessor (ThreadPool (tupd p f s) q) = ThisProcessor (ThreadPool s q)"
  "(\<And>t. Valid (f t) = Valid t) \<Longrightarrow> Valid (ThreadPool (tupd p f s) q) = Valid (ThreadPool s q)"
  "(\<And>t. SleepTime (f t) = SleepTime t) \<Longrightarrow>
     SleepTime (ThreadPool (tupd p f s) q) = SleepTime (ThreadPool s q)"
  "(\<And>t. Context (f t) = Context t) \<Longrightarrow>
     Context (ThreadPool (tupd p f s) q) = Context (ThreadPool s q)"
  "(\<And>t. Priority (f t) = Priority t) \<Longrightarrow>
     Priority (ThreadPool (tupd p f s) q) = Priority (ThreadPool s q)"
  "(\<And>t. PriorityBoost (f t) = PriorityBoost t) \<Longrightarrow>
     PriorityBoost (ThreadPool (tupd p f s) q) = PriorityBoost (ThreadPool s q)"
  "(\<And>t. MaxPriorityBoost (f t) = MaxPriorityBoost t) \<Longrightarrow>
     MaxPriorityBoost (ThreadPool (tupd p f s) q) = MaxPriorityBoost (ThreadPool s q)"
  by (simp_all add: tupd_def)

text \<open>The field maps of the link fields.\<close>

lemma tupd_maps_keep [simp]:
  "(\<And>t. NextThread (f t) = NextThread t) \<Longrightarrow>
     NextThread \<circ> ThreadPool (tupd p f s) = NextThread \<circ> ThreadPool s"
  "(\<And>t. PreviousThread (f t) = PreviousThread t) \<Longrightarrow>
     PreviousThread \<circ> ThreadPool (tupd p f s) = PreviousThread \<circ> ThreadPool s"
  "(\<And>t. NextThreadReady (f t) = NextThreadReady t) \<Longrightarrow>
     NextThreadReady \<circ> ThreadPool (tupd p f s) = NextThreadReady \<circ> ThreadPool s"
  "(\<And>t. PreviousThreadReady (f t) = PreviousThreadReady t) \<Longrightarrow>
     PreviousThreadReady \<circ> ThreadPool (tupd p f s) = PreviousThreadReady \<circ> ThreadPool s"
  by (simp_all add: tupd_def fun_eq_iff)

lemma tupd_maps_set [simp]:
  "NextThread \<circ> ThreadPool (tupd p (\<lambda>t. t\<lparr>NextThread := v\<rparr>) s) =
     (NextThread \<circ> ThreadPool s)(p := v)"
  "PreviousThread \<circ> ThreadPool (tupd p (\<lambda>t. t\<lparr>PreviousThread := v\<rparr>) s) =
     (PreviousThread \<circ> ThreadPool s)(p := v)"
  by (simp_all add: tupd_def fun_eq_iff)

lemma tupd_simps [simp]:
  "Processors (tupd p f s) = Processors s" "ThreadList (tupd p f s) = ThreadList s"
  "DPCs (tupd p f s) = DPCs s" "locks (tupd p f s) = locks s"
  "millisecond_clock_time (tupd p f s) = millisecond_clock_time s"
  "Freed (tupd p f s) = Freed s" "processor_blocks (tupd p f s) = processor_blocks s"
  "proc_startup_address (tupd p f s) = proc_startup_address s"
  "decrementer_ticks (tupd p f s) = decrementer_ticks s" "ipi_count (tupd p f s) = ipi_count s"
  "threads_online (tupd p f s) = threads_online s" "threading_init_check (tupd p f s) = threading_init_check s"
  by (simp_all add: tupd_def)

lemma pupd_same [simp]: "Processors (pupd c f s) c = f (Processors s c)"
  by (simp add: pupd_def)

lemma pupd_other [simp]: "d \<noteq> c \<Longrightarrow> Processors (pupd c f s) d = Processors s d"
  by (simp add: pupd_def)

lemma pupd_simps [simp]:
  "ThreadPool (pupd c f s) = ThreadPool s" "ThreadList (pupd c f s) = ThreadList s"
  "DPCs (pupd c f s) = DPCs s" "locks (pupd c f s) = locks s"
  "millisecond_clock_time (pupd c f s) = millisecond_clock_time s"
  "Freed (pupd c f s) = Freed s" "processor_blocks (pupd c f s) = processor_blocks s"
  "proc_startup_address (pupd c f s) = proc_startup_address s"
  "decrementer_ticks (pupd c f s) = decrementer_ticks s" "ipi_count (pupd c f s) = ipi_count s"
  "threads_online (pupd c f s) = threads_online s" "threading_init_check (pupd c f s) = threading_init_check s"
  by (simp_all add: pupd_def)

lemma dupd_simps [simp]:
  "DPCs (dupd d f s) = (DPCs s)(d := f (DPCs s d))"
  "ThreadPool (dupd d f s) = ThreadPool s" "Processors (dupd d f s) = Processors s"
  "ThreadList (dupd d f s) = ThreadList s" "locks (dupd d f s) = locks s"
  "millisecond_clock_time (dupd d f s) = millisecond_clock_time s"
  "Freed (dupd d f s) = Freed s" "decrementer_ticks (dupd d f s) = decrementer_ticks s"
  by (simp_all add: dupd_def)

lemma unlock_simps [simp]:
  "ThreadPool (unlock l s) = ThreadPool s" "Processors (unlock l s) = Processors s"
  "ThreadList (unlock l s) = ThreadList s" "DPCs (unlock l s) = DPCs s"
  "locks (unlock l s) = (locks s)(l := False)"
  "millisecond_clock_time (unlock l s) = millisecond_clock_time s"
  "Freed (unlock l s) = Freed s" "processor_blocks (unlock l s) = processor_blocks s"
  "proc_startup_address (unlock l s) = proc_startup_address s"
  "decrementer_ticks (unlock l s) = decrementer_ticks s" "ipi_count (unlock l s) = ipi_count s"
  "threads_online (unlock l s) = threads_online s"
  "threading_init_check (unlock l s) = threading_init_check s"
  by (simp_all add: unlock_def)

lemma lock_free [simp]: "\<not> locks s l \<Longrightarrow> lock l s = Some (s\<lparr>locks := (locks s)(l := True)\<rparr>)"
  by (simp add: lock_def)

lemma lock_held [simp]: "locks s l \<Longrightarrow> lock l s = None"
  by (simp add: lock_def)

lemma upd_commute [simp]:
  "(tupd p f s)\<lparr>locks := m\<rparr> = tupd p f (s\<lparr>locks := m\<rparr>)"
  "(pupd c g s)\<lparr>locks := m\<rparr> = pupd c g (s\<lparr>locks := m\<rparr>)"
  by (simp_all add: tupd_def pupd_def)

text \<open>Raising to dispatch level around a critical section and lowering again is neutral.\<close>

lemma ucast_u8_u32_u8 [simp]: "ucast (ucast (x :: u8) :: u32) = x"
  by (rule bit_word_eqI) (simp add: bit_simps)

section \<open>Pool facts\<close>

lemma pool_alloc_from_None:
  "fst (thread_pool_alloc_from is s) = None \<longleftrightarrow> (\<forall>i \<in> set is. \<not> pool_slot_free s i)"
  by (induction "is") auto

lemma pool_alloc_from_Some:
  "thread_pool_alloc_from is s = (Some i, s') \<Longrightarrow>
     i \<in> set is \<and> pool_slot_free s i \<and>
     s' = tupd i (\<lambda>_. zero_thread\<lparr>HandleOpen := 1, Valid := 1, ThreadId := of_nat i\<rparr>) s"
  by (induction "is") (auto split: if_splits)

lemma pool_alloc_from_first:
  "thread_pool_alloc_from [j..<m] s = (Some i, s') \<Longrightarrow> j \<le> k \<Longrightarrow> k < i \<Longrightarrow> \<not> pool_slot_free s k"
proof (induction "m - j" arbitrary: j)
  case (Suc d)
  then have "[j..<m] = j # [Suc j..<m]"
    using upt_conv_Cons [of j m] by simp
  then show ?case
    using Suc.hyps(1) [of "Suc j"] Suc.hyps(2) Suc.prems
    by (cases "k = j") (auto split: if_splits)
qed simp

end
