(* ===== verification/Threads_Sched_Lemmas.thy ===== *)
theory Threads_Sched_Lemmas
  imports Threads_Sched
begin

text \<open>
  Correctness of the scheduler, phase by phase.  \<open>proc_ring c xs s\<close> says that the thread list
  of processor \<open>c\<close> is the ring \<open>xs\<close>; every phase of \<open>thread_schedule_core\<close> is given by what
  it does to that list and to the threads without their links (\<open>bare\<close>).
\<close>

section \<open>Threads and processors without their links\<close>

definition bare :: "THREAD \<Rightarrow> THREAD" where
  "bare t = t\<lparr>NextThread := None, PreviousThread := None, NextThreadFull := None,
     PreviousThreadFull := None, NextThreadReady := None, PreviousThreadReady := None\<rparr>"

lemma bare_links [simp]:
  "bare (t\<lparr>NextThread := x\<rparr>) = bare t" "bare (t\<lparr>PreviousThread := x\<rparr>) = bare t"
  "bare (t\<lparr>NextThreadFull := x\<rparr>) = bare t" "bare (t\<lparr>PreviousThreadFull := x\<rparr>) = bare t"
  "bare (t\<lparr>NextThreadReady := x\<rparr>) = bare t" "bare (t\<lparr>PreviousThreadReady := x\<rparr>) = bare t"
  by (simp_all add: bare_def)

lemma bare_fields [simp]:
  "Priority (bare t) = Priority t" "PriorityBoost (bare t) = PriorityBoost t"
  "MaxPriorityBoost (bare t) = MaxPriorityBoost t" "SuspendCount (bare t) = SuspendCount t"
  "ThreadTerminated (bare t) = ThreadTerminated t" "HandleOpen (bare t) = HandleOpen t"
  "SleepTime (bare t) = SleepTime t" "Valid (bare t) = Valid t"
  "Context (bare t) = Context t" "ThisProcessor (bare t) = ThisProcessor t"
  "ThreadId (bare t) = ThreadId t" "StackBase (bare t) = StackBase t"
  by (simp_all add: bare_def)

lemma bare_upd [simp]:
  "bare (t\<lparr>SleepTime := x\<rparr>) = (bare t)\<lparr>SleepTime := x\<rparr>"
  "bare (t\<lparr>Valid := v\<rparr>) = (bare t)\<lparr>Valid := v\<rparr>"
  "bare (t\<lparr>PriorityBoost := v\<rparr>) = (bare t)\<lparr>PriorityBoost := v\<rparr>"
  "bare (t\<lparr>Context := cx\<rparr>) = (bare t)\<lparr>Context := cx\<rparr>"
  "bare (t\<lparr>ThisProcessor := d\<rparr>) = (bare t)\<lparr>ThisProcessor := d\<rparr>"
  by (simp_all add: bare_def)

lemma tupd_bare [simp]:
  "(\<And>t. bare (f t) = bare t) \<Longrightarrow> bare (ThreadPool (tupd p f s) q) = bare (ThreadPool s q)"
  by (simp add: tupd_def)

definition reapable :: "THREAD \<Rightarrow> bool" where
  "reapable t \<longleftrightarrow> ThreadTerminated t = 1 \<and> HandleOpen t = 0"

definition wake :: "u64 \<Rightarrow> THREAD \<Rightarrow> THREAD" where
  "wake now t =
     (if SleepTime t \<noteq> 0 \<and> sint (SleepTime t - now) < 0 then t\<lparr>SleepTime := 0\<rparr> else t)"

definition swept :: "u64 \<Rightarrow> THREAD \<Rightarrow> THREAD" where
  "swept now t = (if reapable t then (wake now t)\<lparr>Valid := 0\<rparr> else wake now t)"

lemma reapable_bare [simp]: "reapable (bare t) = reapable t"
  by (simp add: reapable_def)

lemma reapable_cong: "bare t = bare u \<Longrightarrow> reapable t = reapable u"
  by (metis reapable_bare)

lemma sched_ready_bare [simp]: "sched_ready (bare t) = sched_ready t"
  by (simp add: sched_ready_def)

lemma sched_ready_cong: "bare t = bare u \<Longrightarrow> sched_ready t = sched_ready u"
  by (metis sched_ready_bare)

lemma eff_priority_bare [simp]: "eff_priority (bare t) = eff_priority t"
  by (simp add: eff_priority_def)

lemma reapable_wake [simp]: "reapable (wake now t) = reapable t"
  by (simp add: reapable_def wake_def)

lemma bare_wake [simp]: "bare (wake now t) = wake now (bare t)"
  by (simp add: wake_def)

text \<open>What the scheduler leaves alone outside the thread pool.\<close>

definition pbare :: "PROCESSOR_DATA_BLOCK \<Rightarrow> PROCESSOR_DATA_BLOCK" where
  "pbare pr = pr\<lparr>FirstThread := None, LastThread := None, FirstSwapProcess := None\<rparr>"

lemma pbare_links [simp]:
  "pbare (pr\<lparr>FirstThread := x\<rparr>) = pbare pr" "pbare (pr\<lparr>LastThread := x\<rparr>) = pbare pr"
  "pbare (pr\<lparr>FirstSwapProcess := x\<rparr>) = pbare pr"
  by (simp_all add: pbare_def)

definition sched_frame :: "nat \<Rightarrow> world \<Rightarrow> world \<Rightarrow> bool" where
  "sched_frame c s s' \<longleftrightarrow>
     locks s' = locks s \<and> millisecond_clock_time s' = millisecond_clock_time s \<and>
     DPCs s' = DPCs s \<and> ThreadList s' = ThreadList s \<and>
     decrementer_ticks s' = decrementer_ticks s \<and> processor_blocks s' = processor_blocks s \<and>
     pbare (Processors s' c) = pbare (Processors s c) \<and>
     (\<forall>d. d \<noteq> c \<longrightarrow> Processors s' d = Processors s d)"

lemma sched_frame_refl [simp]: "sched_frame c s s"
  by (simp add: sched_frame_def)

lemma sched_frame_trans: "sched_frame c s s' \<Longrightarrow> sched_frame c s' s'' \<Longrightarrow> sched_frame c s s''"
  by (simp add: sched_frame_def)

lemma sched_frame_tupd [simp]: "sched_frame c s (tupd p f s') = sched_frame c s s'"
  by (simp add: sched_frame_def)

lemma sched_frame_pupd [simp]:
  "sched_frame c s s' \<Longrightarrow> (\<And>pr. pbare (f pr) = pbare pr) \<Longrightarrow> sched_frame c s (pupd c f s')"
  by (simp add: sched_frame_def)

section \<open>The thread list of a processor\<close>

definition proc_ring :: "nat \<Rightarrow> nat list \<Rightarrow> world \<Rightarrow> bool" where
  "proc_ring c xs s \<longleftrightarrow>
     FirstThread (Processors s c) = Some (hd xs) \<and> LastThread (Processors s c) = Some (last xs) \<and>
     ring (NextThread \<circ> ThreadPool s) (PreviousThread \<circ> ThreadPool s) xs"

lemma proc_ring_ne [simp]: "\<not> proc_ring c [] s"
  by (simp add: proc_ring_def)

lemma proc_ring_distinct: "proc_ring c xs s \<Longrightarrow> distinct xs"
  by (auto simp: proc_ring_def dest: ring_distinct)

lemma proc_ring_cong:
  assumes "FirstThread (Processors s' c) = FirstThread (Processors s c)"
    and "LastThread (Processors s' c) = LastThread (Processors s c)"
    and "\<And>q. q \<in> set xs \<Longrightarrow> NextThread (ThreadPool s' q) = NextThread (ThreadPool s q)"
    and "\<And>q. q \<in> set xs \<Longrightarrow> PreviousThread (ThreadPool s' q) = PreviousThread (ThreadPool s q)"
  shows "proc_ring c xs s' = proc_ring c xs s"
  using assms ring_cong [of xs "NextThread \<circ> ThreadPool s'" "NextThread \<circ> ThreadPool s"
      "PreviousThread \<circ> ThreadPool s'" "PreviousThread \<circ> ThreadPool s"]
  by (simp add: proc_ring_def)

lemma proc_ring_next:
  assumes "proc_ring c (us @ p # vs) s"
  shows "NextThread (ThreadPool s p) = Some (hd (vs @ us @ [p]))"
proof -
  let ?n = "NextThread \<circ> ThreadPool s" and ?p = "PreviousThread \<circ> ThreadPool s"
  have "ring ?n ?p (p # vs @ us)"
    using assms ring_rotate [of ?n ?p us "p # vs"] by (simp add: proc_ring_def)
  then show ?thesis
    by (cases "vs @ us") (auto simp: ring_def simp flip: append_assoc)
qed

lemma proc_ring_prev:
  assumes "proc_ring c (us @ p # vs) s"
  shows "PreviousThread (ThreadPool s p) = Some (last (p # vs @ us))"
proof -
  let ?n = "NextThread \<circ> ThreadPool s" and ?p = "PreviousThread \<circ> ThreadPool s"
  have "ring ?n ?p (p # vs @ us)"
    using assms ring_rotate [of ?n ?p us "p # vs"] by (simp add: proc_ring_def)
  then show ?thesis
    using ring_prev_hd [of ?n ?p p "vs @ us"] by (simp del: last.simps)
qed

lemma proc_ring_neighbours:
  assumes "proc_ring c (us @ p # vs) s" and "us @ vs \<noteq> []"
  obtains a b where "NextThread (ThreadPool s p) = Some b" "PreviousThread (ThreadPool s p) = Some a"
    "a \<noteq> p" "b \<noteq> p" "a \<in> set (us @ vs)" "b \<in> set (us @ vs)"
    "ring ((NextThread \<circ> ThreadPool s)(a := Some b)) ((PreviousThread \<circ> ThreadPool s)(b := Some a))
       (us @ vs)"
proof -
  let ?n = "NextThread \<circ> ThreadPool s" and ?p = "PreviousThread \<circ> ThreadPool s"
  have r: "ring ?n ?p (us @ p # vs)"
    using assms(1) by (simp add: proc_ring_def)
  obtain a b where nb: "?n p = Some b" "?p p = Some a" "a \<in> set (us @ p # vs)" "b \<in> set (us @ p # vs)"
    using r by (rule ring_neighbours [where y = p]) simp_all
  show thesis
    using that [of b a] nb ring_neighbours_neq [of ?n ?p us p vs b a] r assms(2)
      ring_unlink [of ?n ?p us p vs b a] by auto
qed

section \<open>First pass\<close>

text \<open>Threads on a processor list are on the list of all threads, so these links are set.\<close>

definition full_linked :: "THREAD \<Rightarrow> bool" where
  "full_linked t \<longleftrightarrow> NextThreadFull t \<noteq> None \<and> PreviousThreadFull t \<noteq> None"

lemma full_linked_tupd:
  "(\<And>t. full_linked t \<Longrightarrow> full_linked (f t)) \<Longrightarrow> full_linked (ThreadPool s q) \<Longrightarrow>
     full_linked (ThreadPool (tupd p f s) q)"
  by (auto simp: tupd_def)

lemma sched_timer_pool:
  "ThreadPool (sched_timer p s) = (ThreadPool s)(p := wake (millisecond_clock_time s) (ThreadPool s p))"
  by (simp add: sched_timer_def wake_def Let_def tupd_pool)

lemma sched_timer_other [simp]:
  "Processors (sched_timer p s) = Processors s"
  "millisecond_clock_time (sched_timer p s) = millisecond_clock_time s"
  by (simp_all add: sched_timer_def Let_def)

lemma sched_timer_frame [simp]: "sched_frame c s (sched_timer p s)"
  by (simp add: sched_timer_def Let_def)

lemma wake_links [simp]:
  "NextThread (wake now t) = NextThread t" "PreviousThread (wake now t) = PreviousThread t"
  "NextThreadFull (wake now t) = NextThreadFull t"
  "PreviousThreadFull (wake now t) = PreviousThreadFull t"
  by (simp_all add: wake_def)

lemma sched_timer_ring [simp]: "proc_ring c xs (sched_timer p s) = proc_ring c xs s"
  by (rule proc_ring_cong) (simp_all add: sched_timer_pool)

lemma sched_reap_no: "\<not> reapable (ThreadPool s p) \<Longrightarrow> sched_reap c p s = Some s"
  by (auto simp: sched_reap_def reapable_def)

text \<open>The pointer surgery of reaping, on the field maps.\<close>

lemma unlink_thread_maps:
  assumes "NextThread (ThreadPool s p) = Some b" "PreviousThread (ThreadPool s p) = Some a"
    and "b \<noteq> p"
  shows "returns (unlink_thread p s) (\<lambda>s'.
           NextThread \<circ> ThreadPool s' = (NextThread \<circ> ThreadPool s)(a := Some b) \<and>
           PreviousThread \<circ> ThreadPool s' = (PreviousThread \<circ> ThreadPool s)(b := Some a) \<and>
           Processors s' = Processors s \<and> sched_frame c s s' \<and>
           (\<forall>q. bare (ThreadPool s' q) = bare (ThreadPool s q)) \<and>
           (\<forall>q. full_linked (ThreadPool s q) \<longrightarrow> full_linked (ThreadPool s' q)))"
  using assms by (auto simp: unlink_thread_def full_linked_def)

lemma unlink_thread_full_maps:
  assumes "full_linked (ThreadPool s p)"
  shows "returns (unlink_thread_full p s) (\<lambda>s'.
           NextThread \<circ> ThreadPool s' = NextThread \<circ> ThreadPool s \<and>
           PreviousThread \<circ> ThreadPool s' = PreviousThread \<circ> ThreadPool s \<and>
           Processors s' = Processors s \<and> sched_frame c s s' \<and>
           (\<forall>q. bare (ThreadPool s' q) = bare (ThreadPool s q)) \<and>
           (\<forall>q. full_linked (ThreadPool s q) \<longrightarrow> full_linked (ThreadPool s' q)))"
  using assms
  by (auto simp: unlink_thread_full_def full_linked_def tupd_pool)

lemma drop_from_ends_simps [simp]:
  "ThreadPool (drop_from_ends c p s) = ThreadPool s"
  "sched_frame c s (drop_from_ends c p s)"
  "FirstSwapProcess (Processors (drop_from_ends c p s) c) = FirstSwapProcess (Processors s c)"
  "FirstThread (Processors (drop_from_ends c p s) c) =
     (if FirstThread (Processors s c) = Some p then NextThread (ThreadPool s p)
      else FirstThread (Processors s c))"
  "LastThread (Processors (drop_from_ends c p s) c) =
     (if LastThread (Processors s c) = Some p then PreviousThread (ThreadPool s p)
      else LastThread (Processors s c))"
  by (simp_all add: drop_from_ends_def Let_def)

text \<open>
  \<open>outside c A s s'\<close>: a step that leaves alone everything but the threads in \<open>A\<close>, as far as
  the other lists can see.
\<close>

definition outside :: "nat \<Rightarrow> nat set \<Rightarrow> world \<Rightarrow> world \<Rightarrow> bool" where
  "outside c A s s' \<longleftrightarrow> sched_frame c s s' \<and>
     (\<forall>q. q \<notin> A \<longrightarrow> NextThread (ThreadPool s' q) = NextThread (ThreadPool s q) \<and>
                  PreviousThread (ThreadPool s' q) = PreviousThread (ThreadPool s q)) \<and>
     (\<forall>q. full_linked (ThreadPool s q) \<longrightarrow> full_linked (ThreadPool s' q))"

lemma outside_refl [simp]: "outside c A s s"
  by (simp add: outside_def)

lemma outside_trans:
  "outside c A s s' \<Longrightarrow> outside c B s' s'' \<Longrightarrow> A \<subseteq> C \<Longrightarrow> B \<subseteq> C \<Longrightarrow> outside c C s s''"
  unfolding outside_def by (metis sched_frame_trans subsetD)

lemma outsideD:
  "outside c A s s' \<Longrightarrow> sched_frame c s s'"
  "outside c A s s' \<Longrightarrow> full_linked (ThreadPool s q) \<Longrightarrow> full_linked (ThreadPool s' q)"
  "outside c A s s' \<Longrightarrow> millisecond_clock_time s' = millisecond_clock_time s"
  "outside c A s s' \<Longrightarrow> locks s' = locks s"
  by (simp_all add: outside_def sched_frame_def)

lemma outside_timer: "outside c A s (sched_timer p s)"
  by (auto simp: outside_def sched_timer_pool full_linked_def)

lemma sched_frame_Freed [simp]:
  "sched_frame c (s\<lparr>Freed := x\<rparr>) s' = sched_frame c s s'"
  by (simp add: sched_frame_def)

lemma sched_reap_yes:
  assumes ring: "proc_ring c (us @ p # vs) s" and ne: "us @ vs \<noteq> []"
    and dead: "reapable (ThreadPool s p)" and full: "full_linked (ThreadPool s p)"
  shows "returns (sched_reap c p s) (\<lambda>s'. proc_ring c (us @ vs) s' \<and>
           outside c (set (us @ p # vs)) s s' \<and>
           FirstSwapProcess (Processors s' c) = FirstSwapProcess (Processors s c) \<and>
           NextThread (ThreadPool s' p) = NextThread (ThreadPool s p) \<and>
           (\<forall>q. bare (ThreadPool s' q) =
              (if q = p then (bare (ThreadPool s p))\<lparr>Valid := 0\<rparr> else bare (ThreadPool s q))))"
proof -
  let ?s0 = "s\<lparr>Freed := StackBase (ThreadPool s p) # Freed s\<rparr>"
  obtain a b where nb: "NextThread (ThreadPool s p) = Some b" "PreviousThread (ThreadPool s p) = Some a"
      "a \<noteq> p" "b \<noteq> p" "a \<in> set (us @ vs)" "b \<in> set (us @ vs)"
    and r: "ring ((NextThread \<circ> ThreadPool s)(a := Some b))
       ((PreviousThread \<circ> ThreadPool s)(b := Some a)) (us @ vs)"
    using proc_ring_neighbours [OF ring ne] by blast
  obtain s1 where s1: "unlink_thread p ?s0 = Some s1"
      "NextThread \<circ> ThreadPool s1 = (NextThread \<circ> ThreadPool s)(a := Some b)"
      "PreviousThread \<circ> ThreadPool s1 = (PreviousThread \<circ> ThreadPool s)(b := Some a)"
      "Processors s1 = Processors s" "sched_frame c s s1"
      "\<And>q. bare (ThreadPool s1 q) = bare (ThreadPool s q)"
      "\<And>q. full_linked (ThreadPool s q) \<Longrightarrow> full_linked (ThreadPool s1 q)"
    using unlink_thread_maps [of ?s0 p b a c] nb by (auto elim: returnsE)
  obtain s2 where s2: "unlink_thread_full p s1 = Some s2"
      "NextThread \<circ> ThreadPool s2 = (NextThread \<circ> ThreadPool s)(a := Some b)"
      "PreviousThread \<circ> ThreadPool s2 = (PreviousThread \<circ> ThreadPool s)(b := Some a)"
      "Processors s2 = Processors s" "sched_frame c s s2"
      "\<And>q. bare (ThreadPool s2 q) = bare (ThreadPool s q)"
      "\<And>q. full_linked (ThreadPool s q) \<Longrightarrow> full_linked (ThreadPool s2 q)"
    using unlink_thread_full_maps [of s1 p c] s1 full
    by (auto elim!: returnsE dest: sched_frame_trans)
  let ?s3 = "tupd p (\<lambda>t. t\<lparr>Valid := 0\<rparr>) (drop_from_ends c p s2)"
  have eq: "sched_reap c p s = Some ?s3"
    using dead s1(1) s2(1) by (simp add: sched_reap_def reapable_def)
  have link: "NextThread (ThreadPool s2 q) = (if q = a then Some b else NextThread (ThreadPool s q))"
      "PreviousThread (ThreadPool s2 q) = (if q = b then Some a else PreviousThread (ThreadPool s q))"
    for q
    using fun_cong [OF s2(2), of q] fun_cong [OF s2(3), of q] by simp_all
  have ends: "FirstThread (Processors s c) = Some (hd (us @ p # vs))"
      "LastThread (Processors s c) = Some (last (us @ p # vs))"
    using ring by (simp_all add: proc_ring_def)
  have "hd (us @ p # vs) = p \<longleftrightarrow> us = []" "last (us @ p # vs) = p \<longleftrightarrow> vs = []"
    using proc_ring_distinct [OF ring] by (cases us; auto)+
  moreover have "us = [] \<Longrightarrow> b = hd vs" "vs = [] \<Longrightarrow> a = last us"
    using proc_ring_next [OF ring] proc_ring_prev [OF ring] nb ne by (auto simp: hd_append)
  ultimately have "proc_ring c (us @ vs) ?s3"
    using r nb ends link s2 ne by (auto simp: proc_ring_def hd_append)
  moreover have "outside c (set (us @ p # vs)) s ?s3"
    using s2 link nb sched_frame_trans [of c s s2 "drop_from_ends c p s2"]
    by (auto simp: outside_def intro!: full_linked_tupd simp: full_linked_def)
  ultimately show ?thesis
    using eq s2 link nb by (simp add: tupd_pool)
qed

lemma swept_bare [simp]: "bare (swept now t) = swept now (bare t)"
  by (simp add: swept_def)

lemma sched_sweep_one:
  assumes ring: "proc_ring c (us @ p # vs) s" and ne: "us @ vs \<noteq> []"
    and full: "full_linked (ThreadPool s p)"
  shows "returns (sched_reap c p (sched_timer p s)) (\<lambda>s'.
           proc_ring c (us @ (if reapable (ThreadPool s p) then [] else [p]) @ vs) s' \<and>
           outside c (set (us @ p # vs)) s s' \<and>
           FirstSwapProcess (Processors s' c) = FirstSwapProcess (Processors s c) \<and>
           NextThread (ThreadPool s' p) = NextThread (ThreadPool s p) \<and>
           (\<forall>q. bare (ThreadPool s' q) =
              (if q = p then swept (millisecond_clock_time s) (bare (ThreadPool s p))
               else bare (ThreadPool s q))))"
proof -
  let ?s1 = "sched_timer p s"
  have o: "outside c (set (us @ p # vs)) s ?s1" and r1: "proc_ring c (us @ p # vs) ?s1"
    using ring by (simp_all add: outside_timer)
  have b1: "bare (ThreadPool ?s1 q) =
      (if q = p then wake (millisecond_clock_time s) (bare (ThreadPool s p)) else bare (ThreadPool s q))"
    for q
    by (simp add: sched_timer_pool)
  have n1: "NextThread (ThreadPool ?s1 p) = NextThread (ThreadPool s p)"
    by (simp add: sched_timer_pool)
  have d1: "reapable (ThreadPool ?s1 p) = reapable (ThreadPool s p)"
    by (simp add: sched_timer_pool)
  show ?thesis
  proof (cases "reapable (ThreadPool s p)")
    case True
    have fl: "full_linked (ThreadPool ?s1 p)"
      using o full by (rule outsideD)
    have dead: "reapable (ThreadPool ?s1 p)"
      using True d1 by simp
    show ?thesis
      by (rule returns_mono [OF sched_reap_yes [OF r1 ne dead fl]])
        (use True in \<open>auto simp: b1 n1 swept_def intro: outside_trans [OF o]\<close>)
  next
    case False
    then show ?thesis
      using sched_reap_no [of ?s1 p c] d1 r1 o b1 n1 by (simp add: swept_def)
  qed
qed

lemma sched_first_pass_tail:
  "proc_ring c (us @ p # vs) s \<Longrightarrow> us \<noteq> [] \<Longrightarrow> (\<And>q. q \<in> set (p # vs) \<Longrightarrow> full_linked (ThreadPool s q)) \<Longrightarrow>
     returns (sched_first_pass c p s) (\<lambda>s'.
       proc_ring c (us @ filter (\<lambda>q. \<not> reapable (ThreadPool s q)) (p # vs)) s' \<and>
       outside c (set (us @ p # vs)) s s' \<and>
       FirstSwapProcess (Processors s' c) = FirstSwapProcess (Processors s c) \<and>
       (\<forall>q. bare (ThreadPool s' q) =
          (if q \<in> set (p # vs) then swept (millisecond_clock_time s) (bare (ThreadPool s q))
           else bare (ThreadPool s q))))"
proof (induction vs arbitrary: us p s)
  case Nil
  let ?us = "us @ (if reapable (ThreadPool s p) then [] else [p])"
  obtain s1 where s1: "sched_reap c p (sched_timer p s) = Some s1" "proc_ring c ?us s1"
      "outside c (set (us @ [p])) s s1"
      "FirstSwapProcess (Processors s1 c) = FirstSwapProcess (Processors s c)"
      "NextThread (ThreadPool s1 p) = NextThread (ThreadPool s p)"
      "\<forall>q. bare (ThreadPool s1 q) =
        (if q = p then swept (millisecond_clock_time s) (bare (ThreadPool s p))
         else bare (ThreadPool s q))"
    using sched_sweep_one [OF Nil.prems(1)] Nil.prems by (auto elim!: returnsE)
  have "NextThread (ThreadPool s1 p) = FirstThread (Processors s1 c)"
    using proc_ring_next [OF Nil.prems(1)] s1(2,5) Nil.prems(2) by (simp add: proc_ring_def hd_append)
  then show ?case
    using s1 by (subst sched_first_pass.simps) auto
next
  case (Cons q vs)
  let ?us = "us @ (if reapable (ThreadPool s p) then [] else [p])"
  obtain s1 where s1: "sched_reap c p (sched_timer p s) = Some s1" "proc_ring c (?us @ q # vs) s1"
      "outside c (set (us @ p # q # vs)) s s1"
      "FirstSwapProcess (Processors s1 c) = FirstSwapProcess (Processors s c)"
      "NextThread (ThreadPool s1 p) = NextThread (ThreadPool s p)"
      "\<forall>q. bare (ThreadPool s1 q) =
        (if q = p then swept (millisecond_clock_time s) (bare (ThreadPool s p))
         else bare (ThreadPool s q))"
    using sched_sweep_one [OF Cons.prems(1)] Cons.prems by (auto elim!: returnsE)
  have d: "distinct (us @ p # q # vs)"
    using Cons.prems(1) by (rule proc_ring_distinct)
  have nx: "NextThread (ThreadPool s1 p) = Some q"
    using proc_ring_next [OF Cons.prems(1)] s1(5) by simp
  have "FirstThread (Processors s1 c) = Some (hd us)"
    using s1(2) Cons.prems(2) by (simp add: proc_ring_def hd_append)
  then have rec: "sched_first_pass c p s = sched_first_pass c q s1"
    using s1(1) nx d Cons.prems(2) by (subst sched_first_pass.simps) auto
  have same: "x \<in> set (q # vs) \<Longrightarrow> bare (ThreadPool s1 x) = bare (ThreadPool s x)" for x
    using d s1(6) by auto
  have clk: "millisecond_clock_time s1 = millisecond_clock_time s"
    using s1(3) by (rule outsideD)
  have f: "filter (\<lambda>x. \<not> reapable (ThreadPool s1 x)) (q # vs) =
      filter (\<lambda>x. \<not> reapable (ThreadPool s x)) (q # vs)"
    using same by (intro filter_cong) (auto dest: reapable_cong)
  have "returns (sched_first_pass c q s1) (\<lambda>s'.
       proc_ring c (?us @ filter (\<lambda>x. \<not> reapable (ThreadPool s1 x)) (q # vs)) s' \<and>
       outside c (set (?us @ q # vs)) s1 s' \<and>
       FirstSwapProcess (Processors s' c) = FirstSwapProcess (Processors s1 c) \<and>
       (\<forall>x. bare (ThreadPool s' x) =
          (if x \<in> set (q # vs) then swept (millisecond_clock_time s1) (bare (ThreadPool s1 x))
           else bare (ThreadPool s1 x))))"
    using s1(2) Cons.prems outsideD(2) [OF s1(3)] by (intro Cons.IH) auto
  then show ?case
    unfolding rec f clk
    by (rule returns_mono)
      (use s1 d same in \<open>auto intro: outside_trans [OF s1(3)]\<close>)
qed

text \<open>
  The whole first pass.  When the first thread of the list is reaped, the loop ends at once: the
  successor has just become the first thread.
\<close>

definition survivors :: "world \<Rightarrow> nat list \<Rightarrow> nat list" where
  "survivors s xs =
     (if reapable (ThreadPool s (hd xs)) then tl xs
      else filter (\<lambda>q. \<not> reapable (ThreadPool s q)) xs)"

definition visited :: "world \<Rightarrow> nat list \<Rightarrow> nat set" where
  "visited s xs = (if reapable (ThreadPool s (hd xs)) then {hd xs} else set xs)"

lemma sched_first_pass_ok:
  assumes ring: "proc_ring c (x # xs) s"
    and alive: "\<exists>q \<in> set (x # xs). \<not> reapable (ThreadPool s q)"
    and full: "\<And>q. q \<in> set (x # xs) \<Longrightarrow> full_linked (ThreadPool s q)"
  shows "returns (sched_first_pass c x s) (\<lambda>s'.
           proc_ring c (survivors s (x # xs)) s' \<and> outside c (set (x # xs)) s s' \<and>
           FirstSwapProcess (Processors s' c) = FirstSwapProcess (Processors s c) \<and>
           (\<forall>q. bare (ThreadPool s' q) =
              (if q \<in> visited s (x # xs) then swept (millisecond_clock_time s) (bare (ThreadPool s q))
               else bare (ThreadPool s q))))"
proof (cases xs)
  case Nil
  let ?s1 = "sched_timer x s"
  have nr: "\<not> reapable (ThreadPool s x)"
    using alive Nil by simp
  then have "sched_reap c x ?s1 = Some ?s1"
    by (intro sched_reap_no) (simp add: sched_timer_pool)
  moreover have "NextThread (ThreadPool ?s1 x) = FirstThread (Processors ?s1 c)"
    using ring Nil by (simp add: proc_ring_def sched_timer_pool)
  ultimately show ?thesis
    using nr ring Nil
    by (subst sched_first_pass.simps)
      (simp add: survivors_def visited_def outside_timer sched_timer_pool swept_def)
next
  case (Cons y ys)
  have r: "proc_ring c ([] @ x # y # ys) s"
    using ring Cons by simp
  obtain s1 where s1: "sched_reap c x (sched_timer x s) = Some s1"
      "proc_ring c ((if reapable (ThreadPool s x) then [] else [x]) @ y # ys) s1"
      "outside c (set (x # y # ys)) s s1"
      "FirstSwapProcess (Processors s1 c) = FirstSwapProcess (Processors s c)"
      "NextThread (ThreadPool s1 x) = NextThread (ThreadPool s x)"
      "\<forall>q. bare (ThreadPool s1 q) =
        (if q = x then swept (millisecond_clock_time s) (bare (ThreadPool s x))
         else bare (ThreadPool s q))"
    using sched_sweep_one [OF r] full by (auto elim!: returnsE)
  have nx: "NextThread (ThreadPool s1 x) = Some y"
    using proc_ring_next [OF r] s1(5) by simp
  have d: "distinct (x # y # ys)"
    using proc_ring_distinct [OF r] by simp
  show ?thesis
  proof (cases "reapable (ThreadPool s x)")
    case True
    then have "NextThread (ThreadPool s1 x) = FirstThread (Processors s1 c)"
      using nx s1(2) by (simp add: proc_ring_def)
    then show ?thesis
      using s1 True Cons
      by (subst sched_first_pass.simps) (simp add: survivors_def visited_def)
  next
    case False
    then have r1: "proc_ring c ([x] @ y # ys) s1"
      using s1(2) by simp
    have rec: "sched_first_pass c x s = sched_first_pass c y s1"
      using s1(1) nx r1 d by (subst sched_first_pass.simps) (simp add: proc_ring_def)
    have tail: "returns (sched_first_pass c y s1) (\<lambda>s'.
        proc_ring c ([x] @ filter (\<lambda>q. \<not> reapable (ThreadPool s1 q)) (y # ys)) s' \<and>
        outside c (set ([x] @ y # ys)) s1 s' \<and>
        FirstSwapProcess (Processors s' c) = FirstSwapProcess (Processors s1 c) \<and>
        (\<forall>q. bare (ThreadPool s' q) =
          (if q \<in> set (y # ys) then swept (millisecond_clock_time s1) (bare (ThreadPool s1 q))
           else bare (ThreadPool s1 q))))"
      using full Cons outsideD(2) [OF s1(3)] by (intro sched_first_pass_tail [OF r1]) auto
    have f: "filter (\<lambda>q. \<not> reapable (ThreadPool s1 q)) (y # ys) =
        filter (\<lambda>q. \<not> reapable (ThreadPool s q)) (y # ys)"
      using d s1(6) by (intro filter_cong refl) (metis distinct.simps(2) reapable_cong)
    have clk: "millisecond_clock_time s1 = millisecond_clock_time s"
      using s1(3) by (rule outsideD)
    show ?thesis
      unfolding rec
      by (rule returns_mono [OF tail [unfolded f clk]])
        (use Cons False d s1 in
          \<open>auto simp: survivors_def visited_def intro: outside_trans [OF s1(3)]\<close>)
  qed
qed

end
