(* ===== verification/Threads_Sched_Ready.thy ===== *)
theory Threads_Sched_Ready
  imports Threads_Sched_Lemmas
begin

text \<open>
  The later phases of \<open>thread_schedule_core\<close>: migrated threads join the list, the ready list is
  built, the winner chosen and the losers boosted.
\<close>

section \<open>Arrival of migrated threads\<close>

text \<open>The swap list ends in NULL; its first thread has no predecessor.\<close>

fun nchain :: "('a \<Rightarrow> 'a option) \<Rightarrow> ('a \<Rightarrow> 'a option) \<Rightarrow> 'a option \<Rightarrow> 'a option \<Rightarrow> 'a list \<Rightarrow> bool" where
  "nchain n p pv f [] \<longleftrightarrow> f = None"
| "nchain n p pv f (x # xs) \<longleftrightarrow> f = Some x \<and> p x = pv \<and> nchain n p (Some x) (n x) xs"

lemma nchain_cong:
  "(\<And>a. a \<in> set xs \<Longrightarrow> n' a = n a) \<Longrightarrow> (\<And>a. a \<in> set xs \<Longrightarrow> p' a = p a) \<Longrightarrow>
     nchain n' p' pv f xs = nchain n p pv f xs"
  by (induction n p pv f xs rule: nchain.induct) auto

lemma nchain_tail:
  assumes "nchain n p pv f (x # xs)" and "distinct xs"
  shows "nchain n (case n x of None \<Rightarrow> p | Some y \<Rightarrow> p(y := v)) v (n x) xs"
proof (cases xs)
  case Nil
  then show ?thesis using assms by simp
next
  case (Cons y zs)
  then have "nchain n (p(y := v)) (Some y) (n y) zs = nchain n p (Some y) (n y) zs"
    using assms(2) by (intro nchain_cong) auto
  then show ?thesis
    using Cons assms by simp
qed

definition swap_list :: "nat \<Rightarrow> nat list \<Rightarrow> world \<Rightarrow> bool" where
  "swap_list c ys s \<longleftrightarrow> distinct ys \<and>
     nchain (NextThread \<circ> ThreadPool s) (PreviousThread \<circ> ThreadPool s) None
       (FirstSwapProcess (Processors s c)) ys"

lemma swap_list_cong:
  assumes "FirstSwapProcess (Processors s' c) = FirstSwapProcess (Processors s c)"
    and "\<And>q. q \<in> set ys \<Longrightarrow> NextThread (ThreadPool s' q) = NextThread (ThreadPool s q)"
    and "\<And>q. q \<in> set ys \<Longrightarrow> PreviousThread (ThreadPool s' q) = PreviousThread (ThreadPool s q)"
  shows "swap_list c ys s' = swap_list c ys s"
  using assms nchain_cong [of ys "NextThread \<circ> ThreadPool s'" "NextThread \<circ> ThreadPool s"
      "PreviousThread \<circ> ThreadPool s'" "PreviousThread \<circ> ThreadPool s"]
  by (simp add: swap_list_def)

lemma link_front_ok:
  assumes ring: "proc_ring c xs s" and new: "y \<notin> set xs"
  shows "returns (link_front c y s) (\<lambda>s'. proc_ring c (y # xs) s' \<and>
           outside c (insert y (set xs)) s s' \<and>
           FirstSwapProcess (Processors s' c) = FirstSwapProcess (Processors s c) \<and>
           (\<forall>q. bare (ThreadPool s' q) = bare (ThreadPool s q)))"
proof -
  let ?n = "NextThread \<circ> ThreadPool s" and ?p = "PreviousThread \<circ> ThreadPool s"
  obtain x zs where xs: "xs = x # zs"
    using ring by (cases xs) auto
  define l where "l = last xs"
  have l: "l \<in> set xs" "last (x # zs) = l"
    using xs by (auto simp: l_def)
  have ends: "FirstThread (Processors s c) = Some x" "LastThread (Processors s c) = Some l"
    using ring xs by (simp_all add: proc_ring_def l_def)
  have ne: "y \<noteq> x" "y \<noteq> l" "x \<noteq> y" "l \<noteq> y"
    using new l xs by auto
  have r: "ring (?n(l := Some y, y := Some x)) (?p(x := Some y, y := Some l)) (y # x # zs)"
    using ring_insert [of ?n ?p x zs y] ring new xs l(2) by (simp add: proc_ring_def del: last.simps)
  have "returns (link_front c y s) (\<lambda>s'.
      NextThread \<circ> ThreadPool s' = ?n(y := Some x, l := Some y) \<and>
      PreviousThread \<circ> ThreadPool s' = ?p(y := Some l, x := Some y) \<and>
      FirstThread (Processors s' c) = Some y \<and> LastThread (Processors s' c) = Some l \<and>
      FirstSwapProcess (Processors s' c) = FirstSwapProcess (Processors s c) \<and>
      sched_frame c s s' \<and> (\<forall>q. bare (ThreadPool s' q) = bare (ThreadPool s q)) \<and>
      (\<forall>q. full_linked (ThreadPool s q) \<longrightarrow> full_linked (ThreadPool s' q)))"
    using ends by (simp add: link_front_def full_linked_def)
  then show ?thesis
  proof (rule returns_mono, elim conjE, intro conjI)
    fix s'
    assume n: "NextThread \<circ> ThreadPool s' = ?n(y := Some x, l := Some y)"
      and p: "PreviousThread \<circ> ThreadPool s' = ?p(y := Some l, x := Some y)"
      and e: "FirstThread (Processors s' c) = Some y" "LastThread (Processors s' c) = Some l"
      and fr: "sched_frame c s s'"
      and fl: "\<forall>q. full_linked (ThreadPool s q) \<longrightarrow> full_linked (ThreadPool s' q)"
    show "proc_ring c (y # xs) s'"
      using r ne e l xs unfolding proc_ring_def n p
      by (simp add: fun_upd_twist del: last.simps) (simp add: l_def)
    have "NextThread (ThreadPool s' q) = NextThread (ThreadPool s q)"
      "PreviousThread (ThreadPool s' q) = PreviousThread (ThreadPool s q)"
      if "q \<notin> insert y (set xs)" for q
      using that fun_cong [OF n, of q] fun_cong [OF p, of q] l xs by auto
    then show "outside c (insert y (set xs)) s s'"
      using fr fl by (simp add: outside_def)
  qed simp_all
qed

text \<open>What arrival does to a thread: its processor and the block address in register 13.\<close>

definition arrived :: "u32 \<Rightarrow> nat \<Rightarrow> THREAD \<Rightarrow> THREAD" where
  "arrived blocks c t = t\<lparr>ThisProcessor := Some c, Context := (Context t)\<lparr>Gpr :=
     (Gpr (Context t))[13 := ucast (blocks + of_nat c * 0x1000)]\<rparr>\<rparr>"

lemma arrived_simps [simp]:
  "bare (arrived b c t) = arrived b c (bare t)"
  "sched_ready (arrived b c t) = sched_ready t"
  "eff_priority (arrived b c t) = eff_priority t"
  "NextThread (arrived b c t) = NextThread t" "PreviousThread (arrived b c t) = PreviousThread t"
  "full_linked (arrived b c t) = full_linked t"
  by (simp_all add: arrived_def sched_ready_def eff_priority_def full_linked_def)

lemma adopt_thread_pool: "adopt_thread c y s = tupd y (arrived (processor_blocks s) c) s"
  by (simp add: adopt_thread_def tupd_def arrived_def)

lemma leave_swap_list_ok:
  assumes sw: "swap_list c (y # ys) s"
  shows "swap_list c ys (leave_swap_list c y s)"
    and "outside c (set ys) s (leave_swap_list c y s)"
    and "\<forall>q. bare (ThreadPool (leave_swap_list c y s) q) = bare (ThreadPool s q)"
    and "FirstThread (Processors (leave_swap_list c y s) c) = FirstThread (Processors s c)"
    and "LastThread (Processors (leave_swap_list c y s) c) = LastThread (Processors s c)"
proof -
  let ?n = "NextThread \<circ> ThreadPool s" and ?p = "PreviousThread \<circ> ThreadPool s"
  let ?s = "leave_swap_list c y s"
  have ch: "nchain ?n ?p None (Some y) (y # ys)" and d: "distinct (y # ys)"
    using sw by (auto simp: swap_list_def)
  have py: "PreviousThread (ThreadPool s y) = None" and ny: "NextThread (ThreadPool s y) \<noteq> Some y"
    using ch d by (cases ys; simp)+
  have nxt: "NextThread (ThreadPool s y) = Some z \<Longrightarrow> z \<in> set ys" for z
    using ch by (cases ys) auto
  have eq: "?s = pupd c (\<lambda>pr. pr\<lparr>FirstSwapProcess := NextThread (ThreadPool s y)\<rparr>)
      (case NextThread (ThreadPool s y) of None \<Rightarrow> s
       | Some z \<Rightarrow> tupd z (\<lambda>t. t\<lparr>PreviousThread := None\<rparr>) s)"
  proof (cases "NextThread (ThreadPool s y)")
    case None
    then show ?thesis using py by (simp add: leave_swap_list_def Let_def)
  next
    case (Some z)
    then have "y \<noteq> z" using ny by auto
    then show ?thesis using Some py by (simp add: leave_swap_list_def Let_def)
  qed
  have n: "NextThread \<circ> ThreadPool ?s = ?n"
    and p: "PreviousThread \<circ> ThreadPool ?s =
      (case ?n y of None \<Rightarrow> ?p | Some z \<Rightarrow> ?p(z := None))"
    unfolding eq by (simp_all split: option.split)
  have "nchain ?n (case ?n y of None \<Rightarrow> ?p | Some z \<Rightarrow> ?p(z := None)) None (?n y) ys"
    using nchain_tail [OF ch] d by simp
  then show "swap_list c ys ?s"
    using d unfolding swap_list_def n p by (simp add: eq)
  show "outside c (set ys) s ?s"
    using nxt unfolding outside_def eq
    by (auto simp: full_linked_def tupd_pool split: option.split)
  show "\<forall>q. bare (ThreadPool ?s q) = bare (ThreadPool s q)"
    "FirstThread (Processors ?s c) = FirstThread (Processors s c)"
    "LastThread (Processors ?s c) = LastThread (Processors s c)"
    unfolding eq by (simp_all split: option.split)
qed

lemma sched_swap_one_ok:
  assumes ring: "proc_ring c xs s" and sw: "swap_list c (y # ys) s"
    and dj: "set xs \<inter> set (y # ys) = {}"
  shows "returns (sched_swap_one c y s) (\<lambda>s'. proc_ring c (y # xs) s' \<and> swap_list c ys s' \<and>
           outside c (set xs \<union> set (y # ys)) s s' \<and>
           (\<forall>q. bare (ThreadPool s' q) =
              (if q = y then arrived (processor_blocks s) c (bare (ThreadPool s q))
               else bare (ThreadPool s q))))"
proof -
  let ?a = "adopt_thread c y s" and ?b = "leave_swap_list c y (adopt_thread c y s)"
  have al: "NextThread (ThreadPool ?a q) = NextThread (ThreadPool s q)"
      "PreviousThread (ThreadPool ?a q) = PreviousThread (ThreadPool s q)"
      "full_linked (ThreadPool ?a q) = full_linked (ThreadPool s q)" for q
    by (simp_all add: adopt_thread_pool tupd_pool)
  have ap: "Processors ?a = Processors s" "sched_frame c s ?a"
    by (simp_all add: adopt_thread_pool)
  have a: "outside c (set xs) s ?a" "proc_ring c xs ?a" "swap_list c (y # ys) ?a"
    using ring sw al ap proc_ring_cong [of ?a c s xs] swap_list_cong [of ?a c s "y # ys"]
    by (simp_all add: outside_def)
  have ab: "bare (ThreadPool ?a q) = (if q = y then arrived (processor_blocks s) c (bare (ThreadPool s q))
      else bare (ThreadPool s q))" for q
    by (simp add: adopt_thread_pool tupd_pool)
  note b = leave_swap_list_ok [OF a(3)]
  have "proc_ring c xs ?b = proc_ring c xs ?a"
    using b(4,5)
  proof (rule proc_ring_cong)
    fix q
    assume "q \<in> set xs"
    then have "q \<notin> set ys"
      using dj by auto
    then show "NextThread (ThreadPool ?b q) = NextThread (ThreadPool ?a q)"
      "PreviousThread (ThreadPool ?b q) = PreviousThread (ThreadPool ?a q)"
      using b(2) by (simp_all add: outside_def)
  qed
  then have "proc_ring c xs ?b"
    using a(2) by simp
  moreover have "y \<notin> set xs"
    using dj by auto
  ultimately have r: "returns (link_front c y ?b) (\<lambda>s'. proc_ring c (y # xs) s' \<and>
      outside c (insert y (set xs)) ?b s' \<and>
      FirstSwapProcess (Processors s' c) = FirstSwapProcess (Processors ?b c) \<and>
      (\<forall>q. bare (ThreadPool s' q) = bare (ThreadPool ?b q)))"
    by (rule link_front_ok)
  have o: "outside c (set xs \<union> set (y # ys)) s ?b"
    by (rule outside_trans [OF a(1) b(2)]) auto
  have d: "y \<notin> set ys"
    using sw by (simp add: swap_list_def)
  show ?thesis
    unfolding sched_swap_one_def
  proof (rule returns_mono [OF r], elim conjE, intro conjI)
    fix s'
    assume o': "outside c (insert y (set xs)) ?b s'"
      and f: "FirstSwapProcess (Processors s' c) = FirstSwapProcess (Processors ?b c)"
      and eq: "\<forall>q. bare (ThreadPool s' q) = bare (ThreadPool ?b q)"
    have "swap_list c ys s' = swap_list c ys ?b"
      using o' f dj d by (intro swap_list_cong) (auto simp: outside_def)
    then show "swap_list c ys s'"
      using b(1) by simp
    show "outside c (set xs \<union> set (y # ys)) s s'"
      by (rule outside_trans [OF o o']) auto
    show "\<forall>q. bare (ThreadPool s' q) =
        (if q = y then arrived (processor_blocks s) c (bare (ThreadPool s q))
         else bare (ThreadPool s q))"
      using eq b(3) ab by simp
  qed simp
qed

lemma sched_swap_ok:
  "proc_ring c xs s \<Longrightarrow> swap_list c ys s \<Longrightarrow> set xs \<inter> set ys = {} \<Longrightarrow>
     returns (sched_swap c s) (\<lambda>s'. proc_ring c (rev ys @ xs) s' \<and> swap_list c [] s' \<and>
       outside c (set xs \<union> set ys) s s' \<and>
       (\<forall>q. bare (ThreadPool s' q) =
          (if q \<in> set ys then arrived (processor_blocks s) c (bare (ThreadPool s q))
           else bare (ThreadPool s q))))"
proof (induction ys arbitrary: xs s)
  case Nil
  then show ?case
    by (subst sched_swap.simps) (simp add: swap_list_def)
next
  case (Cons y ys)
  have f: "FirstSwapProcess (Processors s c) = Some y" and d: "y \<notin> set ys"
    using Cons.prems(2) by (simp_all add: swap_list_def)
  obtain s1 where s1: "sched_swap_one c y s = Some s1" "proc_ring c (y # xs) s1" "swap_list c ys s1"
      "outside c (set xs \<union> set (y # ys)) s s1"
      "\<forall>q. bare (ThreadPool s1 q) = (if q = y
         then arrived (processor_blocks s) c (bare (ThreadPool s q)) else bare (ThreadPool s q))"
    using sched_swap_one_ok [OF Cons.prems] by (auto elim!: returnsE)
  have rec: "sched_swap c s = sched_swap c s1"
    using f s1(1) by (subst sched_swap.simps) simp
  have blocks: "processor_blocks s1 = processor_blocks s"
    using s1(4) by (simp add: outside_def sched_frame_def)
  have "set (y # xs) \<inter> set ys = {}"
    using Cons.prems(3) d by auto
  from Cons.IH [OF s1(2,3) this] show ?case
    unfolding rec blocks
  proof (rule returns_mono, elim conjE, intro conjI)
    fix s'
    assume o: "outside c (set (y # xs) \<union> set ys) s1 s'"
      and b: "\<forall>q. bare (ThreadPool s' q) = (if q \<in> set ys
         then arrived (processor_blocks s) c (bare (ThreadPool s1 q)) else bare (ThreadPool s1 q))"
    show "outside c (set xs \<union> set (y # ys)) s s'"
      by (rule outside_trans [OF s1(4) o]) auto
    show "\<forall>q. bare (ThreadPool s' q) = (if q \<in> set (y # ys)
         then arrived (processor_blocks s) c (bare (ThreadPool s q)) else bare (ThreadPool s q))"
      using b s1(5) d by auto
  qed simp_all
qed

section \<open>The ready list\<close>

definition unready :: "THREAD \<Rightarrow> THREAD" where
  "unready t = t\<lparr>NextThreadReady := None, PreviousThreadReady := None\<rparr>"

text \<open>Building the ready list writes the ready links and nothing else.\<close>

definition ready_only :: "world \<Rightarrow> world \<Rightarrow> bool" where
  "ready_only s s' \<longleftrightarrow> (\<forall>q. unready (ThreadPool s' q) = unready (ThreadPool s q)) \<and>
     s'\<lparr>ThreadPool := ThreadPool s\<rparr> = s"

lemma ready_only_refl [simp]: "ready_only s s"
  by (simp add: ready_only_def)

lemma world_pool_eq:
  "s'\<lparr>ThreadPool := ThreadPool s\<rparr> = s \<Longrightarrow> s''\<lparr>ThreadPool := ThreadPool s'\<rparr> = s' \<Longrightarrow>
     s''\<lparr>ThreadPool := ThreadPool s\<rparr> = s"
  by (metis world.surjective world.update_convs(1))

lemma ready_only_trans: "ready_only s s' \<Longrightarrow> ready_only s' s'' \<Longrightarrow> ready_only s s''"
  unfolding ready_only_def using world_pool_eq by auto

lemma unready_eqD:
  assumes "unready t = unready u"
  shows "NextThread t = NextThread u" "PreviousThread t = PreviousThread u"
    "NextThreadFull t = NextThreadFull u" "PreviousThreadFull t = PreviousThreadFull u"
    "bare t = bare u"
proof -
  have "NextThread (unready t) = NextThread (unready u)"
    "PreviousThread (unready t) = PreviousThread (unready u)"
    "NextThreadFull (unready t) = NextThreadFull (unready u)"
    "PreviousThreadFull (unready t) = PreviousThreadFull (unready u)"
    "bare (unready t) = bare (unready u)"
    using assms by simp_all
  then show "NextThread t = NextThread u" "PreviousThread t = PreviousThread u"
    "NextThreadFull t = NextThreadFull u" "PreviousThreadFull t = PreviousThreadFull u"
    "bare t = bare u"
    by (simp_all add: unready_def)
qed

lemma ready_only_fields:
  assumes "ready_only s s'"
  shows "NextThread (ThreadPool s' q) = NextThread (ThreadPool s q)"
    "PreviousThread (ThreadPool s' q) = PreviousThread (ThreadPool s q)"
    "full_linked (ThreadPool s' q) = full_linked (ThreadPool s q)"
    "bare (ThreadPool s' q) = bare (ThreadPool s q)"
  using assms unready_eqD [of "ThreadPool s' q" "ThreadPool s q"]
  by (auto simp: ready_only_def full_linked_def)

lemma pool_only_world:
  assumes "s'\<lparr>ThreadPool := ThreadPool s\<rparr> = s"
  shows "Processors s' = Processors s" "locks s' = locks s" "DPCs s' = DPCs s"
    "millisecond_clock_time s' = millisecond_clock_time s" "ThreadList s' = ThreadList s"
    "decrementer_ticks s' = decrementer_ticks s" "processor_blocks s' = processor_blocks s"
proof -
  note eq = assms [symmetric]
  from arg_cong [OF eq, of Processors] arg_cong [OF eq, of locks] arg_cong [OF eq, of DPCs]
    arg_cong [OF eq, of millisecond_clock_time] arg_cong [OF eq, of ThreadList]
    arg_cong [OF eq, of decrementer_ticks] arg_cong [OF eq, of processor_blocks]
  show "Processors s' = Processors s" "locks s' = locks s" "DPCs s' = DPCs s"
    "millisecond_clock_time s' = millisecond_clock_time s" "ThreadList s' = ThreadList s"
    "decrementer_ticks s' = decrementer_ticks s" "processor_blocks s' = processor_blocks s"
    by simp_all
qed

lemma ready_only_world:
  assumes "ready_only s s'"
  shows "Processors s' = Processors s" "locks s' = locks s" "DPCs s' = DPCs s"
    "millisecond_clock_time s' = millisecond_clock_time s" "ThreadList s' = ThreadList s"
    "decrementer_ticks s' = decrementer_ticks s" "processor_blocks s' = processor_blocks s"
  using pool_only_world [of s s'] assms unfolding ready_only_def by blast+

lemma ready_only_outside: "ready_only s s' \<Longrightarrow> outside c A s s'"
  by (simp add: outside_def sched_frame_def ready_only_fields ready_only_world)

lemma ready_only_ring: "ready_only s s' \<Longrightarrow> proc_ring c xs s' = proc_ring c xs s"
  by (rule proc_ring_cong) (simp_all add: ready_only_fields ready_only_world)

lemma ready_only_tupd:
  "(\<And>t. unready (f t) = unready t) \<Longrightarrow> ready_only s s' \<Longrightarrow> ready_only s (tupd p f s')"
  by (simp add: ready_only_def tupd_def)

lemma unready_upd [simp]:
  "unready (t\<lparr>NextThreadReady := x\<rparr>) = unready t" "unready (t\<lparr>PreviousThreadReady := x\<rparr>) = unready t"
  "unready (t\<lparr>NextThreadReady := x, PreviousThreadReady := y\<rparr>) = unready t"
  by (simp_all add: unready_def)

lemma ready_maps [simp]:
  "NextThreadReady \<circ> ThreadPool (tupd p (\<lambda>t. t\<lparr>NextThreadReady := v\<rparr>) s) =
     (NextThreadReady \<circ> ThreadPool s)(p := v)"
  "PreviousThreadReady \<circ> ThreadPool (tupd p (\<lambda>t. t\<lparr>PreviousThreadReady := v\<rparr>) s) =
     (PreviousThreadReady \<circ> ThreadPool s)(p := v)"
  "NextThreadReady \<circ> ThreadPool (tupd p (\<lambda>t. t\<lparr>NextThreadReady := v, PreviousThreadReady := w\<rparr>) s) =
     (NextThreadReady \<circ> ThreadPool s)(p := v)"
  "PreviousThreadReady \<circ> ThreadPool (tupd p (\<lambda>t. t\<lparr>NextThreadReady := v, PreviousThreadReady := w\<rparr>) s) =
     (PreviousThreadReady \<circ> ThreadPool s)(p := w)"
  by (simp_all add: tupd_def fun_eq_iff)

definition ready_list :: "THREAD_LIST \<Rightarrow> nat list \<Rightarrow> world \<Rightarrow> bool" where
  "ready_list rl rs s \<longleftrightarrow>
     (if rs = [] then list_FirstThread rl = None
      else list_FirstThread rl = Some (hd rs) \<and> list_LastThread rl = Some (last rs) \<and>
        ring (NextThreadReady \<circ> ThreadPool s) (PreviousThreadReady \<circ> ThreadPool s) rs)"

lemma sched_push_ready_ok:
  assumes rl: "ready_list rl rs s" and new: "y \<notin> set rs"
  shows "returns (sched_push_ready y rl s) (\<lambda>(rl', s'). ready_list rl' (y # rs) s' \<and> ready_only s s')"
proof (cases rs)
  case Nil
  then show ?thesis
    using rl by (simp add: sched_push_ready_def ready_list_def ready_only_tupd)
next
  case (Cons r zs)
  let ?n = "NextThreadReady \<circ> ThreadPool s" and ?p = "PreviousThreadReady \<circ> ThreadPool s"
  define l where "l = last rs"
  have ends: "list_FirstThread rl = Some r" "list_LastThread rl = Some l"
    and rg: "ring ?n ?p (r # zs)"
    using rl Cons by (simp_all add: ready_list_def l_def)
  have l: "l \<in> set rs" "last (r # zs) = l"
    using Cons by (auto simp: l_def)
  have ne: "y \<noteq> r" "y \<noteq> l" "r \<noteq> y" "l \<noteq> y"
    using new l Cons by auto
  have r: "ring (?n(l := Some y, y := Some r)) (?p(r := Some y, y := Some l)) (y # r # zs)"
    using ring_insert [OF rg, of y] new Cons l(2) by (simp del: last.simps)
  have "returns (sched_push_ready y rl s) (\<lambda>(rl', s').
      NextThreadReady \<circ> ThreadPool s' = ?n(y := Some r, l := Some y) \<and>
      PreviousThreadReady \<circ> ThreadPool s' = ?p(y := Some l, r := Some y) \<and>
      list_FirstThread rl' = Some y \<and> list_LastThread rl' = Some l \<and> ready_only s s')"
    using ends by (simp add: sched_push_ready_def ready_only_tupd)
  then show ?thesis
    using r ne l Cons
    by (elim returns_mono) (simp add: ready_list_def fun_upd_twist split: prod.splits)
qed

lemma ready_step:
  assumes "ready_list rl rs s" and "p \<notin> set rs"
  shows "returns (if sched_ready (ThreadPool s p) then sched_push_ready p rl s else Some (rl, s))
    (\<lambda>(rl', s'). ready_list rl' ((if sched_ready (ThreadPool s p) then [p] else []) @ rs) s' \<and>
       ready_only s s')"
  using sched_push_ready_ok [OF assms] assms(1) by simp

lemma sched_populate_ok:
  "proc_ring c (us @ p # vs) s \<Longrightarrow> ready_list rl rs s \<Longrightarrow> set rs \<subseteq> set us \<Longrightarrow>
     returns (sched_populate c p rl s) (\<lambda>(rl', s').
       ready_list rl' (rev (filter (\<lambda>q. sched_ready (ThreadPool s q)) (p # vs)) @ rs) s' \<and>
       ready_only s s')"
proof (induction vs arbitrary: us p rl rs s)
  case Nil
  have pn: "p \<notin> set rs"
    using proc_ring_distinct [OF Nil.prems(1)] Nil.prems(3) by auto
  obtain rl1 s1 where s1:
      "(if sched_ready (ThreadPool s p) then sched_push_ready p rl s else Some (rl, s)) = Some (rl1, s1)"
      "ready_list rl1 ((if sched_ready (ThreadPool s p) then [p] else []) @ rs) s1" "ready_only s s1"
    using ready_step [OF Nil.prems(2) pn] by (auto elim!: returnsE)
  have "NextThread (ThreadPool s1 p) = FirstThread (Processors s1 c)"
    using s1(3) proc_ring_next [OF Nil.prems(1)] Nil.prems(1)
    by (simp add: ready_only_fields ready_only_world proc_ring_def hd_append)
  then show ?case
    using s1 by (subst sched_populate.simps) auto
next
  case (Cons q vs)
  have d: "distinct (us @ p # q # vs)"
    using Cons.prems(1) by (rule proc_ring_distinct)
  then have pn: "p \<notin> set rs"
    using Cons.prems(3) by auto
  obtain rl1 s1 where s1:
      "(if sched_ready (ThreadPool s p) then sched_push_ready p rl s else Some (rl, s)) = Some (rl1, s1)"
      "ready_list rl1 ((if sched_ready (ThreadPool s p) then [p] else []) @ rs) s1" "ready_only s s1"
    using ready_step [OF Cons.prems(2) pn] by (auto elim!: returnsE)
  have nx: "NextThread (ThreadPool s1 p) = Some q"
    using s1(3) proc_ring_next [OF Cons.prems(1)] by (simp add: ready_only_fields)
  have r1: "proc_ring c ((us @ [p]) @ q # vs) s1"
    using Cons.prems(1) s1(3) by (simp add: ready_only_ring)
  have "FirstThread (Processors s1 c) \<noteq> Some q"
    using r1 d by (cases us) (auto simp: proc_ring_def)
  then have rec: "sched_populate c p rl s = sched_populate c q rl1 s1"
    using s1(1) nx by (subst sched_populate.simps) simp
  have f: "filter (\<lambda>q. sched_ready (ThreadPool s1 q)) (q # vs) =
      filter (\<lambda>q. sched_ready (ThreadPool s q)) (q # vs)"
    using s1(3) by (intro filter_cong refl sched_ready_cong) (rule ready_only_fields)
  have "set ((if sched_ready (ThreadPool s p) then [p] else []) @ rs) \<subseteq> set (us @ [p])"
    using Cons.prems(3) by auto
  from Cons.IH [OF r1 s1(2) this] show ?case
    unfolding rec f
    by (rule returns_mono) (auto intro: ready_only_trans [OF s1(3)])
qed

section \<open>The choice\<close>

text \<open>The first thread of the ready list whose priority no other exceeds.\<close>

definition best :: "('a \<Rightarrow> nat) \<Rightarrow> 'a \<Rightarrow> 'a list \<Rightarrow> 'a" where
  "best f r rs = foldl (\<lambda>w q. if f q > f w then q else w) r rs"

lemma best_simps [simp]:
  "best f r [] = r" "best f r (q # rs) = best f (if f q > f r then q else r) rs"
  by (simp_all add: best_def)

lemma best_in: "best f r rs \<in> set (r # rs)"
  by (induction rs arbitrary: r) (auto split: if_splits)

lemma best_ge_first: "f r \<le> f (best f r rs)"
proof (induction rs arbitrary: r)
  case (Cons q rs)
  then show ?case
    using Cons [of q] Cons [of r] by (auto intro: le_trans [of _ "f q"])
qed simp

lemma best_max: "q \<in> set (r # rs) \<Longrightarrow> f q \<le> f (best f r rs)"
proof (induction rs arbitrary: r)
  case Nil
  then show ?case by simp
next
  case (Cons x rs)
  then show ?case
    using best_ge_first [of f x rs] best_ge_first [of f r rs] by (cases "f x > f r") auto
qed

text \<open>Ties go to the earliest thread of the ready list.\<close>

lemma best_first:
  "best f r rs = b \<Longrightarrow> distinct (r # rs) \<Longrightarrow> r # rs = us @ b # vs \<Longrightarrow> q \<in> set us \<Longrightarrow> f q < f b"
proof (induction rs arbitrary: r us q)
  case Nil
  then show ?case by (cases us) auto
next
  case (Cons x rs)
  have d: "distinct (x # rs)" "distinct (r # rs)"
    using Cons.prems(2) by auto
  show ?case
  proof (cases "f x > f r")
    case True
    then have b: "best f x rs = b"
      using Cons.prems(1) by simp
    then have "b \<noteq> r" and rb: "f r < f b"
      using best_in [of f x rs] Cons.prems(2) True best_ge_first [of f x rs] by auto
    then obtain us' where us: "us = r # us'" "x # rs = us' @ b # vs"
      using Cons.prems(3) by (cases us) auto
    then show ?thesis
      using Cons.prems(4) rb Cons.IH [OF b d(1) us(2)] by auto
  next
    case False
    then have b: "best f r rs = b"
      using Cons.prems(1) by simp
    have bx: "b \<noteq> x"
      using best_in [of f r rs] Cons.prems(2) b by auto
    obtain us1 where us1: "us = r # us1" "x # rs = us1 @ b # vs"
      using Cons.prems(3,4) by (cases us) auto
    then obtain us2 where us2: "us1 = x # us2" "r # rs = (r # us2) @ b # vs"
      using bx by (cases us1) auto
    have IH: "y \<in> set (r # us2) \<Longrightarrow> f y < f b" for y
      using b d(2) us2(2) by (rule Cons.IH)
    then have "f r < f b"
      by simp
    then have "f x < f b"
      using False by linarith
    then show ?thesis
      using us1(1) us2(1) Cons.prems(4) IH [of q] by auto
  qed
qed

lemma sched_winner_ok:
  "ring (NextThreadReady \<circ> ThreadPool s) (PreviousThreadReady \<circ> ThreadPool s) (r # us @ p # vs) \<Longrightarrow>
     sched_winner (Some r) p win s = Some (best (\<lambda>q. eff_priority (ThreadPool s q)) win (p # vs))"
proof (induction vs arbitrary: us p win)
  case Nil
  have "NextThreadReady (ThreadPool s p) = Some r"
    using ring_next_last [OF Nil] by simp
  then show ?case
    by (subst sched_winner.simps) simp
next
  case (Cons q vs)
  let ?n = "NextThreadReady \<circ> ThreadPool s" and ?p = "PreviousThreadReady \<circ> ThreadPool s"
  have nx: "NextThreadReady (ThreadPool s p) = Some q"
    using ring_next_mid [of ?n ?p "r # us" p q vs] Cons.prems by simp
  have "q \<noteq> r"
    using ring_distinct [OF Cons.prems] by auto
  then show ?case
    using nx Cons.IH [of "us @ [p]" q] Cons.prems by (subst sched_winner.simps) simp
qed

lemma sched_winner_ring:
  assumes "ring (NextThreadReady \<circ> ThreadPool s) (PreviousThreadReady \<circ> ThreadPool s) (r # rs)"
  shows "Option.bind (NextThreadReady (ThreadPool s r)) (\<lambda>p. sched_winner (Some r) p r s) =
           Some (best (\<lambda>q. eff_priority (ThreadPool s q)) r rs)"
proof (cases rs)
  case Nil
  then have "NextThreadReady (ThreadPool s r) = Some r"
    using assms by simp
  then show ?thesis
    using Nil by (simp add: sched_winner.simps)
next
  case (Cons q zs)
  then have "NextThreadReady (ThreadPool s r) = Some q"
    using assms ring_next_hd [of "NextThreadReady \<circ> ThreadPool s" _ r q zs] by auto
  then show ?thesis
    using sched_winner_ok [of s r "[]" q zs r] assms Cons by simp
qed

text \<open>The losers of the round are boosted.\<close>

definition boosted :: "THREAD \<Rightarrow> THREAD" where
  "boosted t = (if MaxPriorityBoost t > PriorityBoost t
     then t\<lparr>PriorityBoost := PriorityBoost t + 1\<rparr> else t)"

lemma boost_one_pool:
  "ThreadPool (sched_boost_one win p s) =
     (ThreadPool s)(p := (if p = win then ThreadPool s p else boosted (ThreadPool s p)))"
  by (auto simp: sched_boost_one_def boosted_def tupd_pool)

lemma boost_one_world: "(sched_boost_one win p s)\<lparr>ThreadPool := ThreadPool s\<rparr> = s"
  by (simp add: sched_boost_one_def tupd_def)

lemma boost_fold_pool:
  "distinct xs \<Longrightarrow> ThreadPool (fold (sched_boost_one win) xs s) q =
     (if q \<in> set xs \<and> q \<noteq> win then boosted (ThreadPool s q) else ThreadPool s q)"
  by (induction xs arbitrary: s) (auto simp: boost_one_pool)

lemma boost_fold_world: "(fold (sched_boost_one win) xs s)\<lparr>ThreadPool := ThreadPool s\<rparr> = s"
proof (induction xs arbitrary: s)
  case (Cons x xs)
  show ?case
    unfolding fold_simps by (rule world_pool_eq [OF boost_one_world Cons.IH])
qed simp

lemma boosted_links [simp]:
  "NextThreadReady (boosted t) = NextThreadReady t"
  "PreviousThreadReady (boosted t) = PreviousThreadReady t"
  "NextThread (boosted t) = NextThread t" "PreviousThread (boosted t) = PreviousThread t"
  "full_linked (boosted t) = full_linked t" "sched_ready (boosted t) = sched_ready t"
  "bare (boosted t) = boosted (bare t)"
  by (simp_all add: boosted_def full_linked_def sched_ready_def)

lemma boost_one_next [simp]:
  "NextThreadReady (ThreadPool (sched_boost_one win p s) q) = NextThreadReady (ThreadPool s q)"
  by (simp add: boost_one_pool)

lemma boost_one_links [simp]:
  "NextThreadReady \<circ> ThreadPool (sched_boost_one win p s) = NextThreadReady \<circ> ThreadPool s"
  "PreviousThreadReady \<circ> ThreadPool (sched_boost_one win p s) = PreviousThreadReady \<circ> ThreadPool s"
  by (auto simp: fun_eq_iff boost_one_pool)

lemma sched_boost_ok:
  "ring (NextThreadReady \<circ> ThreadPool s) (PreviousThreadReady \<circ> ThreadPool s) (us @ p # vs) \<Longrightarrow>
     sched_boost (Some (hd (us @ [p]))) win p s = Some (fold (sched_boost_one win) (p # vs) s)"
proof (induction vs arbitrary: us p s)
  case Nil
  have "NextThreadReady (ThreadPool s p) = Some (hd (us @ [p]))"
    using ring_next_end [OF Nil] by simp
  then show ?case
    by (subst sched_boost.simps) (simp add: Let_def)
next
  case (Cons q vs)
  let ?n = "NextThreadReady \<circ> ThreadPool s" and ?p = "PreviousThreadReady \<circ> ThreadPool s"
  have nx: "NextThreadReady (ThreadPool s p) = Some q"
    using ring_next_mid [of ?n ?p us p q vs] Cons.prems by simp
  have "q \<noteq> hd (us @ [p])"
    using ring_distinct [OF Cons.prems] by (cases us) auto
  moreover have "hd ((us @ [p]) @ [q]) = hd (us @ [p])"
    by (cases us) auto
  ultimately show ?case
    using nx Cons.IH [of "sched_boost_one win p s" "us @ [p]" q] Cons.prems
    by (subst sched_boost.simps) (simp add: Let_def)
qed

end
