(* ===== verification/Threads_Sched_Core.thy ===== *)
theory Threads_Sched_Core
  imports Threads_Sched_Ready
begin

text \<open>
  \<open>thread_schedule_core\<close> against its specification: which threads are on the list afterwards
  (\<open>offered\<close>), what became of each (\<open>stepped\<close>), which may run (\<open>runnable\<close>), and that the
  winner is the best of those.
\<close>

section \<open>The whole scheduler\<close>

text \<open>
  A processor the scheduler can run on: its threads form the ring \<open>xs\<close>, the threads migrating to
  it are \<open>ys\<close>, one of its own threads is not to be reaped (the idle thread), and nobody holds the
  swap list.
\<close>

definition sched_ok :: "nat \<Rightarrow> nat list \<Rightarrow> nat list \<Rightarrow> world \<Rightarrow> bool" where
  "sched_ok c xs ys s \<longleftrightarrow> proc_ring c xs s \<and> swap_list c ys s \<and> set xs \<inter> set ys = {} \<and>
     (\<forall>q \<in> set xs. full_linked (ThreadPool s q)) \<and> (\<exists>q \<in> set xs. \<not> reapable (ThreadPool s q)) \<and>
     \<not> locks s (SwapProcessLock c)"

text \<open>
  The specification: the threads on the list after the sweep and the arrivals, what became of
  each, and those that may run, in ready-list order.
\<close>

definition offered :: "world \<Rightarrow> nat list \<Rightarrow> nat list \<Rightarrow> nat list" where
  "offered s xs ys = rev ys @ survivors s xs"

definition stepped :: "nat \<Rightarrow> world \<Rightarrow> nat list \<Rightarrow> nat list \<Rightarrow> nat \<Rightarrow> THREAD" where
  "stepped c s xs ys q =
     (if q \<in> set ys then arrived (processor_blocks s) c (ThreadPool s q)
      else if q \<in> visited s xs then swept (millisecond_clock_time s) (ThreadPool s q)
      else ThreadPool s q)"

definition runnable :: "nat \<Rightarrow> world \<Rightarrow> nat list \<Rightarrow> nat list \<Rightarrow> nat list" where
  "runnable c s xs ys = rev (filter (\<lambda>q. sched_ready (stepped c s xs ys q)) (offered s xs ys))"

lemma swept_eff [simp]: "eff_priority (swept now t) = eff_priority t"
  by (simp add: swept_def wake_def eff_priority_def)

lemma stepped_eff [simp]: "eff_priority (stepped c s xs ys q) = eff_priority (ThreadPool s q)"
  by (simp add: stepped_def)

lemma survivors_subset: "xs \<noteq> [] \<Longrightarrow> set (survivors s xs) \<subseteq> set xs"
  by (auto simp: survivors_def dest: list.set_sel(2))

lemma visited_subset: "xs \<noteq> [] \<Longrightarrow> visited s xs \<subseteq> set xs"
  by (auto simp: visited_def)

lemma proc_ring_locks [simp]: "proc_ring c xs (s\<lparr>locks := m\<rparr>) = proc_ring c xs s"
  by (simp add: proc_ring_def)

lemma proc_ring_unlock [simp]: "proc_ring c xs (unlock l s) = proc_ring c xs s"
  by (simp add: proc_ring_def)

lemma swap_list_locks [simp]: "swap_list c xs (s\<lparr>locks := m\<rparr>) = swap_list c xs s"
  by (simp add: swap_list_def)

lemma swap_list_unlock [simp]: "swap_list c xs (unlock l s) = swap_list c xs s"
  by (simp add: swap_list_def)

lemma outside_relock:
  assumes "outside c A s s1" "outside c B (s1\<lparr>locks := (locks s1)(l := True)\<rparr>) s2"
    and "\<not> locks s l" and "A \<subseteq> C" "B \<subseteq> C"
  shows "outside c C s (unlock l s2)"
proof -
  have "(locks s)(l := True, l := False) = locks s"
    using assms(3) by (simp add: fun_eq_iff)
  then show ?thesis
    using assms unfolding outside_def sched_frame_def by (auto dest!: subsetD)
qed

lemma runnable_sub_offered: "set (runnable c s xs ys) \<subseteq> set (offered s xs ys)"
  by (auto simp: runnable_def)

text \<open>The state in which the ready list is built.\<close>

lemma sched_until_ready:
  assumes ok: "sched_ok c xs ys s"
  shows "returns (do { pthr \<leftarrow> FirstThread (Processors s c); s \<leftarrow> sched_first_pass c pthr s;
             s \<leftarrow> lock (SwapProcessLock c) s; s \<leftarrow> sched_swap c s;
             Some (unlock (SwapProcessLock c) s) }) (\<lambda>s'.
           proc_ring c (offered s xs ys) s' \<and> swap_list c [] s' \<and>
           outside c (set xs \<union> set ys) s s' \<and>
           (\<forall>q. bare (ThreadPool s' q) = bare (stepped c s xs ys q)))"
proof -
  let ?L = "SwapProcessLock c"
  obtain x zs where xs: "xs = x # zs"
    using ok by (cases xs) (auto simp: sched_ok_def)
  have ring: "proc_ring c xs s" and sw: "swap_list c ys s" and dj: "set xs \<inter> set ys = {}"
    and free: "\<not> locks s ?L"
    using ok by (simp_all add: sched_ok_def)
  have f: "FirstThread (Processors s c) = Some x"
    using ring xs by (simp add: proc_ring_def)
  obtain s1 where s1: "sched_first_pass c x s = Some s1" "proc_ring c (survivors s xs) s1"
      "outside c (set xs) s s1"
      "FirstSwapProcess (Processors s1 c) = FirstSwapProcess (Processors s c)"
      "\<forall>q. bare (ThreadPool s1 q) =
        (if q \<in> visited s xs then swept (millisecond_clock_time s) (bare (ThreadPool s q))
         else bare (ThreadPool s q))"
    using sched_first_pass_ok [of c x zs s] ok unfolding xs sched_ok_def by (auto elim!: returnsE)
  let ?s1 = "s1\<lparr>locks := (locks s1)(?L := True)\<rparr>"
  have "\<not> locks s1 ?L"
    using s1(3) free by (simp add: outsideD)
  then have lk: "lock ?L s1 = Some ?s1"
    by simp
  have "swap_list c ys s1"
    using sw s1(3,4) dj swap_list_cong [of s1 c s ys] by (auto simp: outside_def)
  moreover have "set (survivors s xs) \<inter> set ys = {}"
    using dj survivors_subset [of xs s] xs by auto
  ultimately obtain s2 where s2: "sched_swap c ?s1 = Some s2"
      "proc_ring c (rev ys @ survivors s xs) s2" "swap_list c [] s2"
      "outside c (set (survivors s xs) \<union> set ys) ?s1 s2"
      "\<forall>q. bare (ThreadPool s2 q) =
        (if q \<in> set ys then arrived (processor_blocks s1) c (bare (ThreadPool s1 q))
         else bare (ThreadPool s1 q))"
    using sched_swap_ok [of c "survivors s xs" ?s1 ys] s1(2) by (auto elim!: returnsE)
  have o: "outside c (set xs \<union> set ys) s (unlock ?L s2)"
    by (rule outside_relock [OF s1(3) s2(4) free]) (use survivors_subset [of xs s] xs in auto)
  have "processor_blocks s1 = processor_blocks s"
    using s1(3) by (simp add: outside_def sched_frame_def)
  then have "bare (ThreadPool s2 q) = bare (stepped c s xs ys q)" for q
    using s2(5) s1(5) dj visited_subset [of xs s] xs by (auto simp: stepped_def)
  then show ?thesis
    using f s1(1) lk s2 o by (simp add: offered_def)
qed

lemma schedule_core_ok:
  assumes ok: "sched_ok c xs ys s" and run: "runnable c s xs ys = r # rs"
  shows "returns (thread_schedule_core c s) (\<lambda>(win, s').
           win = best (\<lambda>q. eff_priority (ThreadPool s q)) r rs \<and>
           proc_ring c (offered s xs ys) s' \<and> swap_list c [] s' \<and>
           outside c (set xs \<union> set ys) s s' \<and>
           (\<forall>q. bare (ThreadPool s' q) =
              (if q \<in> set (r # rs) \<and> q \<noteq> win then boosted (bare (stepped c s xs ys q))
               else bare (stepped c s xs ys q))))"
proof -
  obtain s1 where s1: "do { pthr \<leftarrow> FirstThread (Processors s c); s \<leftarrow> sched_first_pass c pthr s;
             s \<leftarrow> lock (SwapProcessLock c) s; s \<leftarrow> sched_swap c s;
             Some (unlock (SwapProcessLock c) s) } = Some s1"
      "proc_ring c (offered s xs ys) s1" "swap_list c [] s1" "outside c (set xs \<union> set ys) s s1"
      "\<forall>q. bare (ThreadPool s1 q) = bare (stepped c s xs ys q)"
    by (rule returnsE [OF sched_until_ready [OF ok]]) blast
  obtain z zs where z: "offered s xs ys = z # zs"
    using s1(2) by (cases "offered s xs ys") auto
  have first: "FirstThread (Processors s1 c) = Some z"
    using s1(2) z by (simp add: proc_ring_def)
  have sr: "sched_ready (ThreadPool s1 q) = sched_ready (stepped c s xs ys q)" for q
    using s1(5) by (intro sched_ready_cong) simp
  have rl: "rev (filter (\<lambda>q. sched_ready (ThreadPool s1 q)) (z # zs)) @ [] = r # rs"
    using run z by (simp add: runnable_def sr del: filter.simps)
  obtain rl2 s2 where s2:
      "sched_populate c z \<lparr>list_FirstThread = None, list_LastThread = None\<rparr> s1 = Some (rl2, s2)"
      "ready_list rl2 (r # rs) s2" "ready_only s1 s2"
    using sched_populate_ok [of c "[]" z zs s1 "\<lparr>list_FirstThread = None, list_LastThread = None\<rparr>" "[]"]
      s1(2) z rl by (auto simp: ready_list_def elim!: returnsE)
  let ?n = "NextThreadReady \<circ> ThreadPool s2" and ?p = "PreviousThreadReady \<circ> ThreadPool s2"
  have rg: "list_FirstThread rl2 = Some r" "ring ?n ?p (r # rs)"
    using s2(2) by (simp_all add: ready_list_def)
  have eff: "eff_priority (ThreadPool s2 q) = eff_priority (ThreadPool s q)" for q
    using s1(5) ready_only_fields(4) [OF s2(3)] by (metis eff_priority_bare stepped_eff)
  define win where "win = best (\<lambda>q. eff_priority (ThreadPool s q)) r rs"
  have w: "Option.bind (NextThreadReady (ThreadPool s2 r)) (\<lambda>p. sched_winner (Some r) p r s2) = Some win"
    using sched_winner_ring [OF rg(2)] by (simp add: eff win_def)
  define s3 where "s3 = fold (sched_boost_one win) (r # rs) s2"
  have b: "sched_boost (Some r) win r s2 = Some s3"
    using sched_boost_ok [of s2 "[]" r rs win] rg(2) by (simp add: s3_def)
  have res: "thread_schedule_core c s = Some (win, s3)"
    using s1(1) s2(1) rg(1) first w b
    by (auto simp: thread_schedule_core_def Option.bind_eq_Some_conv)
  have pool: "ThreadPool s3 q = (if q \<in> set (r # rs) \<and> q \<noteq> win then boosted (ThreadPool s2 q)
      else ThreadPool s2 q)" for q
    unfolding s3_def by (rule boost_fold_pool) (rule ring_distinct [OF rg(2)])
  have world: "s3\<lparr>ThreadPool := ThreadPool s2\<rparr> = s2"
    unfolding s3_def by (rule boost_fold_world)
  note same = pool_only_world [OF world] ready_only_world [OF s2(3)]
  have ring3: "proc_ring c (offered s xs ys) s3"
    using s1(2) proc_ring_cong [of s3 c s1 "offered s xs ys"]
    by (simp add: pool same ready_only_fields [OF s2(3)])
  have swap3: "swap_list c [] s3"
    using s1(3) swap_list_cong [of s3 c s1 "[]"] by (simp add: same)
  have "outside c {} s1 s3"
    by (simp add: outside_def sched_frame_def same pool ready_only_fields [OF s2(3)])
  then have out3: "outside c (set xs \<union> set ys) s s3"
    by (rule outside_trans [OF s1(4)]) simp_all
  show ?thesis
    unfolding res using ring3 swap3 out3 s1(5)
    by (simp add: win_def [symmetric] pool ready_only_fields [OF s2(3)])
qed

end
