(* ===== verification/Threads_Switch.thy ===== *)
theory Threads_Switch
  imports Threads_Sched_Core
begin

text \<open>
  Switching threads: \<open>thread_schedule\<close> and the two handlers that end a quantum,
  \<open>decrementer_interrupt_handler\<close> and \<open>system_call_handler\<close>, from the saved register frame to
  the frame the processor goes on with.
\<close>

section \<open>Steps that do not concern the scheduler\<close>

text \<open>
  The scheduler reads neither the registers of a thread nor its running mark, so an assignment to
  these does not change its course.
\<close>

definition inert :: "(THREAD \<Rightarrow> THREAD) \<Rightarrow> bool" where
  "inert f \<longleftrightarrow> (\<forall>t. \<exists>cx r. f t = t\<lparr>Context := cx, ThreadIsRunning := r\<rparr>)"

lemma inertI: "(\<And>t. f t = t\<lparr>Context := cx t, ThreadIsRunning := r t\<rparr>) \<Longrightarrow> inert f"
  by (auto simp: inert_def)

lemma inert_reads:
  assumes "inert f"
  shows "reapable (f t) = reapable t" "sched_ready (f t) = sched_ready t"
    "sched_ready (swept now (f t)) = sched_ready (swept now t)"
    "eff_priority (f t) = eff_priority t" "full_linked (f t) = full_linked t"
    "NextThread (f t) = NextThread t" "PreviousThread (f t) = PreviousThread t"
proof -
  obtain cx r where "f t = t\<lparr>Context := cx, ThreadIsRunning := r\<rparr>"
    using assms unfolding inert_def by blast
  then show "reapable (f t) = reapable t" "sched_ready (f t) = sched_ready t"
    "sched_ready (swept now (f t)) = sched_ready (swept now t)"
    "eff_priority (f t) = eff_priority t" "full_linked (f t) = full_linked t"
    "NextThread (f t) = NextThread t" "PreviousThread (f t) = PreviousThread t"
    by (simp_all add: reapable_def sched_ready_def swept_def wake_def eff_priority_def full_linked_def)
qed

lemma inert_tupd:
  assumes "inert f"
  shows "reapable (ThreadPool (tupd p f s) q) = reapable (ThreadPool s q)"
    "eff_priority (ThreadPool (tupd p f s) q) = eff_priority (ThreadPool s q)"
    "full_linked (ThreadPool (tupd p f s) q) = full_linked (ThreadPool s q)"
    "NextThread (ThreadPool (tupd p f s) q) = NextThread (ThreadPool s q)"
    "PreviousThread (ThreadPool (tupd p f s) q) = PreviousThread (ThreadPool s q)"
  by (simp_all add: tupd_pool inert_reads [OF assms])

lemma inert_spec:
  assumes "inert f"
  shows "survivors (tupd p f s) xs = survivors s xs" "visited (tupd p f s) xs = visited s xs"
    "offered (tupd p f s) xs ys = offered s xs ys"
    "sched_ready (stepped c (tupd p f s) xs ys q) = sched_ready (stepped c s xs ys q)"
  by (simp_all add: survivors_def visited_def offered_def inert_tupd [OF assms])
    (simp add: stepped_def visited_def tupd_pool inert_reads [OF assms])

lemma inert_sched:
  assumes "inert f"
  shows "runnable c (tupd p f s) xs ys = runnable c s xs ys"
    "sched_ok c xs ys (tupd p f s) = sched_ok c xs ys s"
  using proc_ring_cong [of "tupd p f s" c s xs] swap_list_cong [of "tupd p f s" c s ys]
  by (simp_all add: runnable_def sched_ok_def inert_spec [OF assms] inert_tupd [OF assms])

lemma pupd_sched_ok:
  assumes "\<And>pr. FirstThread (g pr) = FirstThread pr" "\<And>pr. LastThread (g pr) = LastThread pr"
    "\<And>pr. FirstSwapProcess (g pr) = FirstSwapProcess pr"
  shows "sched_ok c xs ys (pupd c g s) = sched_ok c xs ys s"
  using assms proc_ring_cong [of "pupd c g s" c s xs] swap_list_cong [of "pupd c g s" c s ys]
  by (simp add: sched_ok_def)

lemma locks_sched [simp]:
  "survivors (s\<lparr>locks := m\<rparr>) xs = survivors s xs" "visited (s\<lparr>locks := m\<rparr>) xs = visited s xs"
  "offered (s\<lparr>locks := m\<rparr>) xs ys = offered s xs ys"
  "stepped c (s\<lparr>locks := m\<rparr>) xs ys q = stepped c s xs ys q"
  "runnable c (s\<lparr>locks := m\<rparr>) xs ys = runnable c s xs ys"
  by (simp_all add: survivors_def visited_def offered_def stepped_def runnable_def)

text \<open>Nor does it read the rest of the processor block, or other locks.\<close>

lemma pupd_sched [simp]:
  "survivors (pupd c g s) xs = survivors s xs" "visited (pupd c g s) xs = visited s xs"
    "offered (pupd c g s) xs ys = offered s xs ys"
    "stepped c (pupd c g s) xs ys q = stepped c s xs ys q"
    "runnable c (pupd c g s) xs ys = runnable c s xs ys"
  by (simp_all add: survivors_def visited_def offered_def stepped_def runnable_def)

definition idle_mark :: "THREAD \<Rightarrow> THREAD" where
  "idle_mark t = t\<lparr>ThreadIsRunning := 0\<rparr>"

lemma idle_mark_simps [simp]:
  "reapable (idle_mark t) = reapable t" "sched_ready (idle_mark t) = sched_ready t"
  "eff_priority (idle_mark t) = eff_priority t" "full_linked (idle_mark t) = full_linked t"
  "bare (idle_mark t) = idle_mark (bare t)" "NextThread (idle_mark t) = NextThread t"
  "PreviousThread (idle_mark t) = PreviousThread t" "Context (idle_mark t) = Context t"
  "PriorityBoost (idle_mark t) = PriorityBoost t" "Priority (idle_mark t) = Priority t"
  "MaxPriorityBoost (idle_mark t) = MaxPriorityBoost t"
  by (simp_all add: idle_mark_def reapable_def sched_ready_def eff_priority_def full_linked_def bare_def)

lemma idle_mark_steps [simp]:
  "arrived b c (idle_mark t) = idle_mark (arrived b c t)"
  "swept now (idle_mark t) = idle_mark (swept now t)"
  "boosted (idle_mark t) = idle_mark (boosted t)"
  by (simp_all add: idle_mark_def arrived_def swept_def wake_def reapable_def boosted_def)

lemma idle_mark_run [simp]:
  "(idle_mark t)\<lparr>PriorityBoost := b, ThreadIsRunning := v\<rparr> = t\<lparr>PriorityBoost := b, ThreadIsRunning := v\<rparr>"
  by (simp add: idle_mark_def)

lemma bare_running [simp]: "bare (t\<lparr>ThreadIsRunning := v\<rparr>) = (bare t)\<lparr>ThreadIsRunning := v\<rparr>"
  by (simp add: bare_def)

definition stop_current :: "nat \<Rightarrow> nat \<Rightarrow> world \<Rightarrow> world" where
  "stop_current c cur s = tupd cur idle_mark (s\<lparr>locks := (locks s)(ProcessorLock c := True)\<rparr>)"

lemma stop_current_pool:
  "ThreadPool (stop_current c cur s) q =
     (if q = cur then idle_mark (ThreadPool s q) else ThreadPool s q)"
  by (simp add: stop_current_def)

lemma stop_current_other [simp]:
  "Processors (stop_current c cur s) = Processors s"
  "millisecond_clock_time (stop_current c cur s) = millisecond_clock_time s"
  "processor_blocks (stop_current c cur s) = processor_blocks s"
  "DPCs (stop_current c cur s) = DPCs s" "ThreadList (stop_current c cur s) = ThreadList s"
  "decrementer_ticks (stop_current c cur s) = decrementer_ticks s"
  "locks (stop_current c cur s) = (locks s)(ProcessorLock c := True)"
  by (simp_all add: stop_current_def)

lemma idle_mark_inert: "inert idle_mark"
  by (rule inertI [where cx = Context and r = "\<lambda>_. 0"]) (simp add: idle_mark_def)

lemma stop_current_spec:
  "runnable c (stop_current c cur s) xs ys = runnable c s xs ys"
  "offered (stop_current c cur s) xs ys = offered s xs ys"
  "eff_priority (ThreadPool (stop_current c cur s) q) = eff_priority (ThreadPool s q)"
  "full_linked (ThreadPool (stop_current c cur s) q) = full_linked (ThreadPool s q)"
  "sched_ok c xs ys (stop_current c cur s) = sched_ok c xs ys s"
  unfolding stop_current_def
  by (simp_all add: inert_sched [OF idle_mark_inert] inert_spec [OF idle_mark_inert]
      inert_tupd [OF idle_mark_inert]) (simp add: sched_ok_def)

lemma stop_current_stepped:
  "stepped c (stop_current c cur s) xs ys q =
     (if q = cur then idle_mark (stepped c s xs ys q) else stepped c s xs ys q)"
  unfolding stop_current_def by (simp add: stepped_def inert_spec [OF idle_mark_inert] tupd_pool)

lemma pbare_reads:
  assumes "pbare pr = pbare pr'"
  shows "DPCList pr = DPCList pr'" "ProcessingDPC pr = ProcessingDPC pr'" "Irq pr = Irq pr'"
    "CurrentThread pr = CurrentThread pr'" "Decrementer pr = Decrementer pr'"
  using arg_cong [OF assms, of DPCList] arg_cong [OF assms, of ProcessingDPC]
    arg_cong [OF assms, of Irq] arg_cong [OF assms, of CurrentThread]
    arg_cong [OF assms, of Decrementer] by (simp_all add: pbare_def)

section \<open>The switch\<close>

text \<open>What a round of scheduling makes of a thread.\<close>

definition after_round :: "nat \<Rightarrow> nat \<Rightarrow> nat list \<Rightarrow> nat \<Rightarrow> THREAD \<Rightarrow> THREAD" where
  "after_round cur win ready q t =
     (if q = win then t\<lparr>PriorityBoost := 0, ThreadIsRunning := 1\<rparr>
      else (let t = (if q \<in> set ready then boosted t else t)
            in if q = cur then idle_mark t else t))"

lemma after_round_simps [simp]:
  "Context (after_round cur win R q t) = Context t"
  "Priority (after_round cur win R q t) = Priority t"
  "MaxPriorityBoost (after_round cur win R q t) = MaxPriorityBoost t"
  "sched_ready (after_round cur win R q t) = sched_ready t"
  "reapable (after_round cur win R q t) = reapable t"
  "SleepTime (after_round cur win R q t) = SleepTime t"
  by (simp_all add: after_round_def boosted_def idle_mark_def sched_ready_def reapable_def Let_def)

text \<open>With nothing queued, processing deferred procedures changes nothing.\<close>

lemma process_dpc_quiet:
  assumes "DPCList (Processors s c) = None" "\<not> locks s (DPCLock c)"
    "ProcessingDPC (Processors s c) = 0"
  shows "thread_process_dpc call c s = Some s"
proof -
  have "(locks s)(DPCLock c := True, DPCLock c := False) = locks s"
    using assms(2) by (simp add: fun_eq_iff)
  moreover have "(Processors s)(c := (Processors s c)\<lparr>ProcessingDPC := 0\<rparr>) = Processors s"
    using assms(3) by (intro fun_upd_idem) simp
  ultimately show ?thesis
    using assms by (simp add: thread_process_dpc_def pupd_def unlock_def Let_def)
qed

lemma thread_schedule_ok:
  assumes ok: "sched_ok c xs ys s" and run: "runnable c s xs ys = r # rs"
    and cur: "CurrentThread (Processors s c) = Some cur"
    and free: "\<not> locks s (ProcessorLock c)"
    and quiet: "DPCList (Processors s c) = None" "\<not> locks s (DPCLock c)"
      "ProcessingDPC (Processors s c) = 0"
  defines "win \<equiv> best (\<lambda>q. eff_priority (ThreadPool s q)) r rs"
  shows "returns (thread_schedule call c s) (\<lambda>(cx, s').
           cx = Context (stepped c s xs ys win) \<and> CurrentThread (Processors s' c) = Some win \<and>
           proc_ring c (offered s xs ys) s' \<and> swap_list c [] s' \<and> locks s' = locks s \<and>
           Irq (Processors s' c) = Irq (Processors s c) \<and>
           DPCList (Processors s' c) = None \<and> ProcessingDPC (Processors s' c) = 0 \<and>
           (\<forall>d. d \<noteq> c \<longrightarrow> Processors s' d = Processors s d) \<and>
           millisecond_clock_time s' = millisecond_clock_time s \<and>
           (\<forall>q. full_linked (ThreadPool s q) \<longrightarrow> full_linked (ThreadPool s' q)) \<and>
           (\<forall>q. bare (ThreadPool s' q) = after_round cur win (r # rs) q (bare (stepped c s xs ys q))))"
proof -
  let ?s0 = "stop_current c cur s"
  obtain s1 where s1: "thread_schedule_core c ?s0 = Some (win, s1)"
      "proc_ring c (offered s xs ys) s1" "swap_list c [] s1" "outside c (set xs \<union> set ys) ?s0 s1"
      "\<And>q. bare (ThreadPool s1 q) =
         (if q \<in> set (r # rs) \<and> q \<noteq> win then boosted (bare (stepped c ?s0 xs ys q))
          else bare (stepped c ?s0 xs ys q))"
    using schedule_core_ok [of c xs ys ?s0 r rs] ok run unfolding win_def
    by (auto elim!: returnsE simp: stop_current_spec simp del: set_simps)
  let ?f = "\<lambda>t. t\<lparr>PriorityBoost := 0\<rparr>" and ?g = "\<lambda>t. t\<lparr>ThreadIsRunning := 1\<rparr>"
  define s2 where "s2 = unlock (ProcessorLock c)
    (tupd win ?g (pupd c (\<lambda>pr. pr\<lparr>CurrentThread := Some win\<rparr>) (tupd win ?f s1)))"
  have fr: "locks s1 = (locks s)(ProcessorLock c := True)"
      "pbare (Processors s1 c) = pbare (Processors s c)"
      "\<And>d. d \<noteq> c \<Longrightarrow> Processors s1 d = Processors s d"
      "millisecond_clock_time s1 = millisecond_clock_time s"
      "\<And>q. full_linked (ThreadPool s q) \<Longrightarrow> full_linked (ThreadPool s1 q)"
    using s1(4) by (simp_all add: outside_def sched_frame_def stop_current_spec)
  have pr: "DPCList (Processors s1 c) = None" "ProcessingDPC (Processors s1 c) = 0"
      "Irq (Processors s1 c) = Irq (Processors s c)"
    using quiet fr(2) pbare_reads [OF fr(2)] by simp_all
  have lk: "locks s2 = locks s"
    using free by (simp add: s2_def fr(1) fun_eq_iff)
  have pool: "ThreadPool s2 = (ThreadPool s1)(win := ?g (?f (ThreadPool s1 win)))"
    by (simp add: s2_def tupd_pool)
  have "Context (ThreadPool s2 win) = Context (bare (ThreadPool s1 win))"
    by (simp add: pool)
  then have cx: "Context (ThreadPool s2 win) = Context (stepped c s xs ys win)"
    unfolding s1(5) by (simp add: stop_current_stepped)
  have im: "(\<lambda>t. t\<lparr>ThreadIsRunning := 0\<rparr>) = idle_mark"
    by (simp add: fun_eq_iff idle_mark_def)
  have eq: "thread_schedule call c s = Some (Context (ThreadPool s2 win), s2)"
    using cur free s1(1) quiet(2) pr lk process_dpc_quiet [of s2 c call]
    by (simp add: thread_schedule_def stop_current_def im s2_def Let_def)
  have "proc_ring c (offered s xs ys) s2" "swap_list c [] s2"
    using s1(2,3) proc_ring_cong [of s2 c s1 "offered s xs ys"] swap_list_cong [of s2 c s1 "[]"]
    by (simp_all add: pool) (simp_all add: s2_def)
  moreover have "bare (ThreadPool s2 q) = after_round cur win (r # rs) q (bare (stepped c s xs ys q))" for q
    using s1(5) [of q] by (auto simp: pool after_round_def stop_current_stepped Let_def split: if_splits)
  moreover have "full_linked (ThreadPool s q) \<Longrightarrow> full_linked (ThreadPool s2 q)" for q
    using fr(5) [of q] by (auto simp: pool full_linked_def)
  ultimately show ?thesis
    unfolding eq using cx lk pr fr by (simp add: s2_def)
qed

section \<open>The interrupt handlers\<close>

lemma frame_load [simp]: "frame_of (load_frame cx pr) = cx"
  by (simp add: frame_of_def load_frame_def)

lemma load_frame_keeps [simp]:
  "CurrentThread (load_frame cx pr) = CurrentThread pr" "Irq (load_frame cx pr) = Irq pr"
  "DPCList (load_frame cx pr) = DPCList pr" "ProcessingDPC (load_frame cx pr) = ProcessingDPC pr"
  "FirstThread (load_frame cx pr) = FirstThread pr" "LastThread (load_frame cx pr) = LastThread pr"
  "FirstSwapProcess (load_frame cx pr) = FirstSwapProcess pr"
  by (simp_all add: load_frame_def)

definition save_frame :: "nat \<Rightarrow> nat \<Rightarrow> world \<Rightarrow> world" where
  "save_frame c cur s =
     tupd cur (\<lambda>t. t\<lparr>Context := frame_of (Processors s c)\<rparr>)
       (pupd c (\<lambda>pr. pr\<lparr>LiveFpu := snd (save_floating_point (LiveFpu pr))\<rparr>) s)"

lemma dump_current:
  "CurrentThread (Processors s c) = Some cur \<Longrightarrow>
     dump_thread_context c True s = (Some (frame_of (Processors s c)), save_frame c cur s)"
  by (simp add: dump_thread_context_def save_frame_def Let_def)

lemma set_context_inert: "inert (\<lambda>t. t\<lparr>Context := cx\<rparr>)"
  by (rule inertI [where cx = "\<lambda>_. cx" and r = ThreadIsRunning]) simp

lemma save_frame_spec:
  "runnable c (save_frame c cur s) xs ys = runnable c s xs ys"
  "offered (save_frame c cur s) xs ys = offered s xs ys"
  "eff_priority (ThreadPool (save_frame c cur s) q) = eff_priority (ThreadPool s q)"
  "full_linked (ThreadPool (save_frame c cur s) q) = full_linked (ThreadPool s q)"
  "sched_ok c xs ys (save_frame c cur s) = sched_ok c xs ys s"
  unfolding save_frame_def
  by (simp_all add: inert_sched [OF set_context_inert] inert_spec [OF set_context_inert]
      inert_tupd [OF set_context_inert] pupd_sched_ok)

lemma save_frame_stepped:
  "cur \<notin> set ys \<Longrightarrow> stepped c (save_frame c cur s) xs ys q =
     (if q = cur then (stepped c s xs ys q)\<lparr>Context := frame_of (Processors s c)\<rparr>
      else stepped c s xs ys q)"
  unfolding save_frame_def
  by (simp add: stepped_def inert_spec [OF set_context_inert] tupd_pool swept_def wake_def reapable_def)

lemma save_frame_other [simp]:
  "locks (save_frame c cur s) = locks s"
  "d \<noteq> c \<Longrightarrow> Processors (save_frame c cur s) d = Processors s d"
  "CurrentThread (Processors (save_frame c cur s) c) = CurrentThread (Processors s c)"
  "DPCList (Processors (save_frame c cur s) c) = DPCList (Processors s c)"
  "ProcessingDPC (Processors (save_frame c cur s) c) = ProcessingDPC (Processors s c)"
  "Irq (Processors (save_frame c cur s) c) = Irq (Processors s c)"
  "millisecond_clock_time (save_frame c cur s) = millisecond_clock_time s"
  "decrementer_ticks (save_frame c cur s) = decrementer_ticks s"
  by (simp_all add: save_frame_def)

text \<open>The registers that thread \<open>q\<close> runs with when it is chosen.\<close>

definition resume_frame :: "nat \<Rightarrow> world \<Rightarrow> nat list \<Rightarrow> nat list \<Rightarrow> nat \<Rightarrow> nat \<Rightarrow> CONTEXT" where
  "resume_frame c s xs ys cur q =
     (if q = cur then frame_of (Processors s c) else Context (stepped c s xs ys q))"

lemma after_round_context:
  "after_round cur win R q (t\<lparr>Context := cx\<rparr>) = (after_round cur win R q t)\<lparr>Context := cx\<rparr>"
  "(after_round cur win R q t)\<lparr>Context := Context t\<rparr> = after_round cur win R q t"
  by (simp_all add: after_round_def boosted_def idle_mark_def Let_def)

lemma switch_ok:
  assumes ok: "sched_ok c xs ys s" and run: "runnable c s xs ys = r # rs"
    and cur: "CurrentThread (Processors s c) = Some cur" "cur \<notin> set ys"
    and free: "\<not> locks s (ProcessorLock c)"
    and quiet: "DPCList (Processors s c) = None" "\<not> locks s (DPCLock c)"
      "ProcessingDPC (Processors s c) = 0"
  defines "win \<equiv> best (\<lambda>q. eff_priority (ThreadPool s q)) r rs"
  shows "returns (Option.bind (thread_schedule call c (pupd c (\<lambda>pr. pr\<lparr>Irq := i\<rparr>) (save_frame c cur s)))
             (\<lambda>(cx, s). Some (restore_thread_context c (Some cx) s))) (\<lambda>s'.
           CurrentThread (Processors s' c) = Some win \<and> Irq (Processors s' c) = i \<and>
           frame_of (Processors s' c) = resume_frame c s xs ys cur win \<and>
           (\<forall>q. Context (ThreadPool s' q) = resume_frame c s xs ys cur q) \<and>
           proc_ring c (offered s xs ys) s' \<and> swap_list c [] s' \<and> locks s' = locks s \<and>
           (\<forall>d. d \<noteq> c \<longrightarrow> Processors s' d = Processors s d) \<and>
           DPCList (Processors s' c) = None \<and> ProcessingDPC (Processors s' c) = 0 \<and>
           millisecond_clock_time s' = millisecond_clock_time s \<and>
           (\<forall>q. full_linked (ThreadPool s q) \<longrightarrow> full_linked (ThreadPool s' q)) \<and>
           (\<forall>q. bare (ThreadPool s' q) = (after_round cur win (r # rs) q
              (bare (stepped c s xs ys q)))\<lparr>Context := resume_frame c s xs ys cur q\<rparr>))"
proof -
  let ?s0 = "pupd c (\<lambda>pr. pr\<lparr>Irq := i\<rparr>) (save_frame c cur s)"
  have ok0: "sched_ok c xs ys ?s0"
    using ok by (simp add: pupd_sched_ok save_frame_spec)
  obtain s1 where s1: "thread_schedule call c ?s0 = Some (Context (stepped c ?s0 xs ys win), s1)"
      "CurrentThread (Processors s1 c) = Some win" "proc_ring c (offered s xs ys) s1"
      "swap_list c [] s1" "locks s1 = locks s" "Irq (Processors s1 c) = i"
      "\<And>d. d \<noteq> c \<Longrightarrow> Processors s1 d = Processors s d"
      "DPCList (Processors s1 c) = None" "ProcessingDPC (Processors s1 c) = 0"
      "millisecond_clock_time s1 = millisecond_clock_time s"
      "\<And>q. full_linked (ThreadPool s q) \<Longrightarrow> full_linked (ThreadPool s1 q)"
      "\<And>q. bare (ThreadPool s1 q) = after_round cur win (r # rs) q (bare (stepped c ?s0 xs ys q))"
    using thread_schedule_ok [OF ok0, of r rs cur call] run cur free quiet unfolding win_def
    by (auto elim!: returnsE simp: save_frame_spec simp del: set_simps)
  have cx: "Context (stepped c (save_frame c cur s) xs ys q) = resume_frame c s xs ys cur q" for q
    using cur(2) by (simp add: save_frame_stepped resume_frame_def)
  have cx1: "Context (ThreadPool s1 q) = resume_frame c s xs ys cur q" for q
    using arg_cong [OF s1(12) [of q], of Context] cx [of q] by simp
  define s2 where "s2 = pupd c (load_frame (resume_frame c s xs ys cur win))
    (tupd win (\<lambda>t. t\<lparr>Context := resume_frame c s xs ys cur win\<rparr>) s1)"
  have res: "Option.bind (thread_schedule call c ?s0)
      (\<lambda>(cx, s). Some (restore_thread_context c (Some cx) s)) = Some s2"
    using s1(1,2) by (simp add: restore_thread_context_def s2_def cx)
  have "proc_ring c (offered s xs ys) s2" "swap_list c [] s2"
    using s1(3,4) proc_ring_cong [of s2 c s1 "offered s xs ys"] swap_list_cong [of s2 c s1 "[]"]
    by (simp_all add: s2_def load_frame_def)
  moreover have pool: "ThreadPool s2 = (ThreadPool s1)(win := ThreadPool s1 win)"
    by (simp add: s2_def tupd_pool flip: cx1)
  moreover have "bare (ThreadPool s1 q) = (after_round cur win (r # rs) q
      (bare (stepped c s xs ys q)))\<lparr>Context := resume_frame c s xs ys cur q\<rparr>" for q
    using s1(12) [of q] cur(2)
    by (simp add: save_frame_stepped after_round_context resume_frame_def del: set_simps)
  ultimately show ?thesis
    unfolding res using s1(2-11) cx1 by (simp add: pool) (simp add: s2_def)
qed

lemma system_call_switch:
  "CurrentThread (Processors s c) = Some cur \<Longrightarrow> system_call_handler call c s =
     Option.bind (thread_schedule call c (pupd c (\<lambda>pr. pr\<lparr>Irq := 0\<rparr>) (save_frame c cur s)))
       (\<lambda>(cx, s). Some (restore_thread_context c (Some cx) s))"
  by (simp add: system_call_handler_def dump_current)

lemma pupd_idem: "f (Processors s c) = Processors s c \<Longrightarrow> pupd c f s = s"
  by (simp add: pupd_def fun_upd_idem)

lemma decrementer_switch:
  assumes "CurrentThread (Processors s c) = Some cur" "Irq (Processors s c) < 2"
    and quiet: "DPCList (Processors s c) = None" "\<not> locks s (DPCLock c)"
      "ProcessingDPC (Processors s c) = 0"
  shows "decrementer_interrupt_handler call c s =
     Option.bind (Option.bind (thread_schedule call c
         (pupd c (\<lambda>pr. pr\<lparr>Irq := Irq (Processors s c)\<rparr>) (save_frame c cur s)))
       (\<lambda>(cx, s). Some (restore_thread_context c (Some cx) s)))
       (\<lambda>s. Some (pupd c (\<lambda>pr. pr\<lparr>Decrementer := decrementer_ticks s\<rparr>) s))"
proof -
  have "pupd c (\<lambda>pr. pr\<lparr>Irq := Irq (Processors s c)\<rparr>) (save_frame c cur s) = save_frame c cur s"
    by (rule pupd_idem) (simp add: save_frame_def)
  moreover have "Irq (Processors s c) \<le> 2"
    using assms(2) by simp
  ultimately show ?thesis
    using assms process_dpc_quiet [of "save_frame c cur s" c call]
    by (simp add: decrementer_interrupt_handler_def dump_current split_def Let_def)
qed

lemma restore_ticks [simp]: "decrementer_ticks (restore_thread_context c cx s) = decrementer_ticks s"
  by (simp add: restore_thread_context_def Let_def split: option.splits)

lemma restore_save:
  "load_frame (frame_of pr) (pr\<lparr>LiveFpu := x\<rparr>) = pr"
  by (simp add: load_frame_def frame_of_def)

lemma decrementer_masked:
  assumes "CurrentThread (Processors s c) = Some cur" "2 \<le> Irq (Processors s c)"
    and "2 < Irq (Processors s c) \<or> ProcessingDPC (Processors s c) \<noteq> 0"
  shows "decrementer_interrupt_handler call c s =
     Some (tupd cur (\<lambda>t. t\<lparr>Context := frame_of (Processors s c)\<rparr>)
       (pupd c (\<lambda>pr. pr\<lparr>Decrementer := decrementer_ticks s\<rparr>) s))"
proof -
  have "\<not> (Irq (Processors s c) \<le> 2 \<and> ProcessingDPC (Processors s c) = 0)" "\<not> Irq (Processors s c) < 2"
    using assms by (auto simp: not_less)
  then have "decrementer_interrupt_handler call c s =
      Some (pupd c (\<lambda>pr. pr\<lparr>Decrementer := decrementer_ticks s\<rparr>)
        (restore_thread_context c (Some (frame_of (Processors s c))) (save_frame c cur s)))"
    using assms(1) by (auto simp: decrementer_interrupt_handler_def dump_current Let_def)
  also have "restore_thread_context c (Some (frame_of (Processors s c))) (save_frame c cur s) =
      tupd cur (\<lambda>t. t\<lparr>Context := frame_of (Processors s c)\<rparr>) s"
    using assms(1) by (simp add: restore_thread_context_def save_frame_def tupd_def pupd_def restore_save)
  finally show ?thesis
    by (simp add: tupd_def pupd_def)
qed

end
