(* ===== verification/Threads_Fairness.thy ===== *)
theory Threads_Fairness
  imports Threads_Switch
begin

text \<open>
  The scheduling policy over time.  \<open>arb_round\<close> is the policy on its own (priorities, boosts and
  nothing else); \<open>quanta\<close> runs the decrementer interrupt of one processor again and again.
  Quanta refine rounds (\<open>quanta_refine\<close>), and a thread that can out-age the others is run
  within a bounded number of rounds (\<open>arb_not_starved\<close>).
\<close>

section \<open>Priority arbitration with ageing\<close>

text \<open>
  The scheduling policy on its own: \<open>rs\<close> are the ready threads in ready-list order, \<open>b\<close> their
  boosts.  The winner loses its boost and every loser gains one, up to its limit.
\<close>

definition arb_winner :: "('a \<Rightarrow> nat) \<Rightarrow> 'a list \<Rightarrow> ('a \<Rightarrow> nat) \<Rightarrow> 'a" where
  "arb_winner prio rs b = best (\<lambda>q. prio q + b q) (hd rs) (tl rs)"

definition arb_round :: "('a \<Rightarrow> nat) \<Rightarrow> ('a \<Rightarrow> nat) \<Rightarrow> 'a list \<Rightarrow> ('a \<Rightarrow> nat) \<Rightarrow> 'a \<Rightarrow> nat" where
  "arb_round prio mx rs b q =
     (if q = arb_winner prio rs b then 0 else if b q < mx q then Suc (b q) else b q)"

primrec arb_rounds :: "('a \<Rightarrow> nat) \<Rightarrow> ('a \<Rightarrow> nat) \<Rightarrow> 'a list \<Rightarrow> nat \<Rightarrow> ('a \<Rightarrow> nat) \<Rightarrow> 'a \<Rightarrow> nat" where
  "arb_rounds prio mx rs 0 b = b"
| "arb_rounds prio mx rs (Suc k) b = arb_round prio mx rs (arb_rounds prio mx rs k b)"

text \<open>The winner of round \<open>k\<close>.\<close>

abbreviation arb_nth :: "('a \<Rightarrow> nat) \<Rightarrow> ('a \<Rightarrow> nat) \<Rightarrow> 'a list \<Rightarrow> nat \<Rightarrow> ('a \<Rightarrow> nat) \<Rightarrow> 'a" where
  "arb_nth prio mx rs k b \<equiv> arb_winner prio rs (arb_rounds prio mx rs k b)"

lemma arb_winner_in: "rs \<noteq> [] \<Longrightarrow> arb_winner prio rs b \<in> set rs"
  using best_in [of _ "hd rs" "tl rs"] by (simp add: arb_winner_def)

lemma arb_winner_max:
  "q \<in> set rs \<Longrightarrow> prio q + b q \<le> prio (arb_winner prio rs b) + b (arb_winner prio rs b)"
  using best_max [of q "hd rs" "tl rs" "\<lambda>q. prio q + b q"] by (cases rs) (auto simp: arb_winner_def)

lemma best_cong: "\<forall>q \<in> set (r # qs). f q = g q \<Longrightarrow> best f r qs = best g r qs"
proof (induction qs arbitrary: r)
  case (Cons x qs)
  then show ?case
    using Cons.IH [of x] Cons.IH [of r] by simp
qed simp

lemma arb_round_cong:
  assumes "\<forall>q \<in> set rs. b q = b' q" and "rs \<noteq> []"
  shows "arb_winner prio rs b = arb_winner prio rs b'"
    and "q \<in> set rs \<Longrightarrow> arb_round prio mx rs b q = arb_round prio mx rs b' q"
proof -
  show w: "arb_winner prio rs b = arb_winner prio rs b'"
    unfolding arb_winner_def using assms by (intro best_cong) simp
  show "q \<in> set rs \<Longrightarrow> arb_round prio mx rs b q = arb_round prio mx rs b' q"
    using assms(1) by (simp add: arb_round_def w)
qed

text \<open>A loser ages: after \<open>k\<close> lost rounds its boost is at least its limit or \<open>k\<close>.\<close>

lemma arb_ages:
  "\<forall>i<k. arb_nth prio mx rs i b \<noteq> p \<Longrightarrow> min (mx p) k \<le> arb_rounds prio mx rs k b p"
  by (induction k) (auto simp: arb_round_def less_Suc_eq)

text \<open>A winner starts again from nothing.\<close>

lemma arb_after_win: "arb_rounds prio mx rs (Suc i + d) b (arb_nth prio mx rs i b) \<le> d"
  by (induction d) (auto simp: arb_round_def)

text \<open>
  A thread whose priority with full boost beats the others' with what they can regain in a turn
  around is not starved.
\<close>

lemma arb_not_starved:
  assumes p: "p \<in> set rs"
    and beats: "\<And>q. q \<in> set rs \<Longrightarrow> q \<noteq> p \<Longrightarrow> prio q + (card (set rs) - 2) < prio p + mx p"
  shows "\<exists>k < mx p + card (set rs). arb_nth prio mx rs k b = p"
proof (rule ccontr)
  let ?n = "card (set rs)" and ?m = "mx p" and ?w = "\<lambda>k. arb_nth prio mx rs k b"
  let ?A = "{?m..<?m + ?n}"
  assume "\<not> ?thesis"
  then have lost: "?w k \<noteq> p" if "k < ?m + ?n" for k
    using that by blast
  have w_in: "?w k \<in> set rs" for k
    using p by (intro arb_winner_in) auto
  have "?w ` ?A \<subseteq> set rs - {p}"
    using lost w_in by (intro image_subsetI) simp
  then have "card (?w ` ?A) \<le> card (set rs - {p})"
    by (intro card_mono) auto
  moreover have "card (set rs - {p}) < card ?A"
    using p card_Diff1_less [of "set rs" p] by simp
  ultimately have "\<not> inj_on ?w ?A"
    using card_image [of ?w ?A] by linarith
  then obtain i j where ij: "i \<in> ?A" "j \<in> ?A" "i < j" "?w i = ?w j"
    using linorder_inj_onI' [of ?A ?w] by blast
  let ?q = "?w j" and ?b = "arb_rounds prio mx rs j b"
  have "?b ?q \<le> j - Suc i"
    using arb_after_win [of prio mx rs i "j - Suc i" b] ij(3,4) by simp
  also have "\<dots> \<le> ?n - 2"
    using ij by auto
  finally have "prio ?q + ?b ?q \<le> prio ?q + (?n - 2)"
    by (rule add_left_mono)
  also have "\<dots> < prio p + ?m"
    using beats [OF w_in] lost [of j] ij(2) by simp
  also have "\<dots> \<le> prio p + ?b p"
    using arb_ages [where k = j and p = p and prio = prio and mx = mx and rs = rs and b = b]
      lost ij(2) by simp
  also have "\<dots> \<le> prio ?q + ?b ?q"
    by (rule arb_winner_max) (rule p)
  finally show False
    by simp
qed

section \<open>A processor whose threads neither come nor go\<close>

definition steady :: "nat \<Rightarrow> nat list \<Rightarrow> world \<Rightarrow> bool" where
  "steady c xs s \<longleftrightarrow> sched_ok c xs [] s \<and>
     (\<forall>q \<in> set xs. \<not> reapable (ThreadPool s q) \<and> SleepTime (ThreadPool s q) = 0) \<and>
     CurrentThread (Processors s c) \<noteq> None \<and> Irq (Processors s c) < 2 \<and>
     DPCList (Processors s c) = None \<and> ProcessingDPC (Processors s c) = 0 \<and>
     \<not> locks s (ProcessorLock c) \<and> \<not> locks s (DPCLock c)"

definition prio_of :: "world \<Rightarrow> nat \<Rightarrow> nat" where
  "prio_of s q = unat (Priority (ThreadPool s q))"

definition mx_of :: "world \<Rightarrow> nat \<Rightarrow> nat" where
  "mx_of s q = unat (MaxPriorityBoost (ThreadPool s q))"

definition boost_of :: "world \<Rightarrow> nat \<Rightarrow> nat" where
  "boost_of s q = unat (PriorityBoost (ThreadPool s q))"

definition ready_of :: "world \<Rightarrow> nat list \<Rightarrow> nat list" where
  "ready_of s xs = rev (filter (\<lambda>q. sched_ready (ThreadPool s q)) xs)"

lemma steady_spec:
  assumes "steady c xs s"
  shows "offered s xs [] = xs" "stepped c s xs [] q = ThreadPool s q"
    "runnable c s xs [] = ready_of s xs"
proof -
  have ne: "xs \<noteq> []"
    using assms by (auto simp: steady_def sched_ok_def)
  then have nr: "\<not> reapable (ThreadPool s (hd xs))"
    using assms by (simp add: steady_def)
  then have sv: "survivors s xs = xs" "visited s xs = set xs"
    using assms by (simp_all add: survivors_def visited_def steady_def)
  show off: "offered s xs [] = xs"
    by (simp add: offered_def sv)
  show st: "stepped c s xs [] q = ThreadPool s q" for q
    using assms by (simp add: stepped_def sv steady_def swept_def wake_def)
  show "runnable c s xs [] = ready_of s xs"
    by (simp add: runnable_def ready_of_def off st)
qed

lemma unat_boosted:
  "unat (PriorityBoost (boosted t)) =
     (if unat (PriorityBoost t) < unat (MaxPriorityBoost t) then Suc (unat (PriorityBoost t))
      else unat (PriorityBoost t))"
  by (simp add: boosted_def word_less_nat_alt unat_u8_Suc)

lemma after_round_boost:
  "unat (PriorityBoost (after_round cur win rs q t)) =
     (if q = win then 0 else if q \<in> set rs then unat (PriorityBoost (boosted t))
      else unat (PriorityBoost t))"
  by (simp add: after_round_def Let_def)

lemma set_context_reads [simp]:
  "reapable (t\<lparr>Context := cx\<rparr>) = reapable t" "sched_ready (t\<lparr>Context := cx\<rparr>) = sched_ready t"
  by (simp_all add: reapable_def sched_ready_def)

text \<open>The quantum ends: the arbitration is the one above, and the processor stays as it was.\<close>

lemma decrementer_steady:
  assumes st: "steady c xs s" and ne: "ready_of s xs \<noteq> []"
  shows "returns (decrementer_interrupt_handler call c s) (\<lambda>s'. steady c xs s' \<and>
           CurrentThread (Processors s' c) =
             Some (arb_winner (prio_of s) (ready_of s xs) (boost_of s)) \<and>
           prio_of s' = prio_of s \<and> mx_of s' = mx_of s \<and> ready_of s' xs = ready_of s xs \<and>
           (\<forall>q \<in> set (ready_of s xs).
              boost_of s' q = arb_round (prio_of s) (mx_of s) (ready_of s xs) (boost_of s) q))"
proof -
  obtain cur where cur: "CurrentThread (Processors s c) = Some cur"
    using st by (auto simp: steady_def)
  obtain r rs where r: "ready_of s xs = r # rs"
    using ne by (cases "ready_of s xs") auto
  have run: "runnable c s xs [] = r # rs"
    using st r by (simp add: steady_spec)
  let ?win = "best (\<lambda>q. eff_priority (ThreadPool s q)) r rs"
  have w: "arb_winner (prio_of s) (ready_of s xs) (boost_of s) = ?win"
    by (simp add: r arb_winner_def eff_priority_def prio_of_def boost_of_def)
  have ok: "sched_ok c xs [] s" and quiet: "\<not> locks s (ProcessorLock c)" "DPCList (Processors s c) = None"
      "\<not> locks s (DPCLock c)" "ProcessingDPC (Processors s c) = 0" "Irq (Processors s c) < 2"
    using st by (simp_all add: steady_def)
  let ?i = "Irq (Processors s c)"
  have "cur \<notin> set []"
    by simp
  note sw = switch_ok [OF ok run cur this quiet(1-4), of call ?i, unfolded steady_spec [OF st]]
  obtain s1 where s1: "Option.bind (thread_schedule call c
        (pupd c (\<lambda>pr. pr\<lparr>Irq := ?i\<rparr>) (save_frame c cur s)))
        (\<lambda>(cx, s). Some (restore_thread_context c (Some cx) s)) = Some s1"
      "CurrentThread (Processors s1 c) = Some ?win" "Irq (Processors s1 c) = ?i"
      "proc_ring c xs s1" "swap_list c [] s1" "locks s1 = locks s"
      "DPCList (Processors s1 c) = None" "ProcessingDPC (Processors s1 c) = 0"
      "\<And>q. full_linked (ThreadPool s q) \<Longrightarrow> full_linked (ThreadPool s1 q)"
      "\<And>q. bare (ThreadPool s1 q) = (after_round cur ?win (r # rs) q
          (bare (ThreadPool s q)))\<lparr>Context := resume_frame c s xs [] cur q\<rparr>"
    by (rule returnsE [OF sw]) blast
  define s2 where "s2 = pupd c (\<lambda>pr. pr\<lparr>Decrementer := decrementer_ticks s1\<rparr>) s1"
  have res: "decrementer_interrupt_handler call c s = Some s2"
    using decrementer_switch [OF cur quiet(5,2-4), of call] s1(1) by (simp add: s2_def)
  have pool: "ThreadPool s2 = ThreadPool s1"
    by (simp add: s2_def)
  have rd: "f (bare (ThreadPool s1 q)) = f ((after_round cur ?win (r # rs) q
      (bare (ThreadPool s q)))\<lparr>Context := resume_frame c s xs [] cur q\<rparr>)" for f :: "THREAD \<Rightarrow> 'z" and q
    by (simp only: s1(10))
  have fields: "reapable (ThreadPool s1 q) = reapable (ThreadPool s q)"
      "sched_ready (ThreadPool s1 q) = sched_ready (ThreadPool s q)"
      "Priority (ThreadPool s1 q) = Priority (ThreadPool s q)"
      "MaxPriorityBoost (ThreadPool s1 q) = MaxPriorityBoost (ThreadPool s q)"
      "SleepTime (ThreadPool s1 q) = SleepTime (ThreadPool s q)" for q
    using rd [of reapable q] rd [of sched_ready q] rd [of Priority q] rd [of MaxPriorityBoost q]
      rd [of SleepTime q] by (simp_all add: set_context_reads)
  have boost: "unat (PriorityBoost (ThreadPool s1 q)) =
      unat (PriorityBoost (after_round cur ?win (r # rs) q (ThreadPool s q)))" for q
    using rd [of PriorityBoost q] by (simp add: after_round_boost unat_boosted)
  have "sched_ok c xs [] s2"
    using ok s1(4-6,9) fields(1) pupd_sched_ok [of "\<lambda>pr. pr\<lparr>Decrementer := decrementer_ticks s1\<rparr>" c xs "[]" s1]
    by (simp add: s2_def sched_ok_def)
  then have "steady c xs s2"
    using st s1(2,3,6-8) by (simp add: steady_def pool fields) (simp add: s2_def)
  moreover have "prio_of s2 = prio_of s" "mx_of s2 = mx_of s" "ready_of s2 xs = ready_of s xs"
    by (simp_all add: prio_of_def [abs_def] mx_of_def [abs_def] ready_of_def pool fields)
  moreover have "boost_of s2 q = arb_round (prio_of s) (mx_of s) (ready_of s xs) (boost_of s) q"
    if "q \<in> set (ready_of s xs)" for q
    using boost [of q] that unfolding arb_round_def w
    by (cases "q = ?win") (simp_all add: boost_of_def mx_of_def pool after_round_boost
        unat_boosted r)
  ultimately show ?thesis
    unfolding res w using s1(2) by (simp add: s2_def)
qed

section \<open>Nobody starves\<close>

text \<open>\<open>n\<close> quanta of processor \<open>c\<close>.\<close>

primrec quanta :: "dpc_call \<Rightarrow> nat \<Rightarrow> nat \<Rightarrow> world \<Rightarrow> world option" where
  "quanta call c 0 s = Some s"
| "quanta call c (Suc n) s = Option.bind (quanta call c n s) (decrementer_interrupt_handler call c)"

text \<open>Quanta refine rounds of arbitration.\<close>

lemma quanta_refine:
  assumes st: "steady c xs s" and ne: "ready_of s xs \<noteq> []"
  shows "returns (quanta call c n s) (\<lambda>s'. steady c xs s' \<and>
           prio_of s' = prio_of s \<and> mx_of s' = mx_of s \<and> ready_of s' xs = ready_of s xs \<and>
           (\<forall>q \<in> set (ready_of s xs).
              boost_of s' q = arb_rounds (prio_of s) (mx_of s) (ready_of s xs) n (boost_of s) q))"
proof (induction n)
  case 0
  show ?case
    using st by simp
next
  case (Suc n)
  let ?R = "ready_of s xs" and ?P = "prio_of s" and ?M = "mx_of s"
  obtain s1 where s1: "quanta call c n s = Some s1" "steady c xs s1" "prio_of s1 = ?P" "mx_of s1 = ?M"
      "ready_of s1 xs = ?R" "\<forall>q \<in> set ?R. boost_of s1 q = arb_rounds ?P ?M ?R n (boost_of s) q"
    using Suc by (auto elim!: returnsE)
  then have ne1: "ready_of s1 xs \<noteq> []"
    using ne by simp
  have "arb_round ?P ?M ?R (boost_of s1) q = arb_round ?P ?M ?R (arb_rounds ?P ?M ?R n (boost_of s)) q"
    if "q \<in> set ?R" for q
    using arb_round_cong(2) [OF s1(6) ne that] .
  then show ?case
    using decrementer_steady [OF s1(2) ne1, of call] s1(1) unfolding s1(3-5)
    by (auto elim!: returnsE)
qed

lemma quanta_winner:
  assumes st: "steady c xs s" and ne: "ready_of s xs \<noteq> []"
  shows "returns (quanta call c (Suc n) s) (\<lambda>s'. CurrentThread (Processors s' c) =
           Some (arb_nth (prio_of s) (mx_of s) (ready_of s xs) n (boost_of s)))"
proof -
  let ?R = "ready_of s xs" and ?P = "prio_of s" and ?M = "mx_of s"
  obtain s1 where s1: "quanta call c n s = Some s1" "steady c xs s1" "prio_of s1 = ?P" "mx_of s1 = ?M"
      "ready_of s1 xs = ?R" "\<forall>q \<in> set ?R. boost_of s1 q = arb_rounds ?P ?M ?R n (boost_of s) q"
    using quanta_refine [OF st ne, of call n] by (auto elim!: returnsE)
  then have ne1: "ready_of s1 xs \<noteq> []"
    using ne by simp
  show ?thesis
    using decrementer_steady [OF s1(2) ne1, of call] s1(1) unfolding s1(3-5)
    by (auto elim!: returnsE simp: arb_round_cong(1) [OF s1(6) ne])
qed

end
