(* ===== verification/Threads_Dpc.thy ===== *)
theory Threads_Dpc
  imports Threads_Switch
begin

text \<open>
  Deferred procedure calls: the list of a processor is worked off in order
  (\<open>thread_process_dpc\<close>), and \<open>dpc_queue\<close> inserts by priority as long as the place of the
  new entry is among the first two.
\<close>

section \<open>The list of a processor\<close>

fun slist :: "('a \<Rightarrow> 'a option) \<Rightarrow> 'a option \<Rightarrow> 'a list \<Rightarrow> bool" where
  "slist n f [] \<longleftrightarrow> f = None"
| "slist n f (x # xs) \<longleftrightarrow> f = Some x \<and> slist n (n x) xs"

lemma slist_cong: "\<forall>a \<in> set xs. n' a = n a \<Longrightarrow> slist n' f xs = slist n f xs"
  by (induction n f xs rule: slist.induct) auto

lemma slist_first: "slist n f xs \<Longrightarrow> f = (case xs of [] \<Rightarrow> None | x # _ \<Rightarrow> Some x)"
  by (cases xs) auto

definition dpc_list :: "nat \<Rightarrow> nat list \<Rightarrow> world \<Rightarrow> bool" where
  "dpc_list c ds s \<longleftrightarrow> distinct ds \<and> slist (NextDPC \<circ> DPCs s) (DPCList (Processors s c)) ds"

section \<open>Working the list off\<close>

definition dpc_reset :: "DPC \<Rightarrow> DPC" where
  "dpc_reset x = x\<lparr>NextDPC := None, Param1 := 0, Param2 := 0, Param3 := 0, Queued := 0\<rparr>"

text \<open>
  What working off the list \<open>ds\<close> means: each entry once, in order, taken off the list before
  its procedure runs and with the arguments \<open>args\<close> it was queued with.
\<close>

fun dpc_spec :: "dpc_call \<Rightarrow> nat \<Rightarrow> (nat \<Rightarrow> DPC) \<Rightarrow> nat list \<Rightarrow> world \<Rightarrow> world option" where
  "dpc_spec call c args [] s = Some s"
| "dpc_spec call c args (d # ds) s = do {
     s \<leftarrow> call (Procedure (args d)) (Param1 (args d)) (Param2 (args d)) (Param3 (args d))
           (pupd c (\<lambda>pr. pr\<lparr>DPCList := (case ds of [] \<Rightarrow> None | e # _ \<Rightarrow> Some e)\<rparr>) s);
     dpc_spec call c args ds (dupd d dpc_reset s) }"

text \<open>
  A procedure that leaves the deferred procedures themselves alone (in particular, queues none)
  and comes back.
\<close>

definition dpc_neutral :: "dpc_call \<Rightarrow> nat \<Rightarrow> bool" where
  "dpc_neutral call c \<longleftrightarrow> (\<forall>i a b e s. returns (call i a b e s) (\<lambda>s'. DPCs s' = DPCs s \<and>
     Processors s' = Processors s \<and> locks s' = locks s))"

lemma dpc_neutralE:
  assumes "dpc_neutral call c"
  obtains s' where "call i a b e s = Some s'" "DPCs s' = DPCs s" "Processors s' = Processors s"
    "locks s' = locks s"
proof -
  have "returns (call i a b e s) (\<lambda>s'. DPCs s' = DPCs s \<and> Processors s' = Processors s \<and>
      locks s' = locks s)"
    using assms by (simp add: dpc_neutral_def)
  then show thesis
    by (rule returnsE) (use that in blast)
qed

lemma dpc_spec_returns:
  assumes "dpc_neutral call c"
  shows "returns (dpc_spec call c args ds s) (\<lambda>s'.
     (\<forall>d. DPCs s' d = (if d \<in> set ds then dpc_reset (DPCs s d) else DPCs s d)) \<and>
     locks s' = locks s \<and> Processors s' =
       (if ds = [] then Processors s
        else (Processors s)(c := (Processors s c)\<lparr>DPCList := None\<rparr>)))"
proof (induction ds arbitrary: s)
  case Nil
  show ?case by simp
next
  case (Cons d ds)
  let ?s = "pupd c (\<lambda>pr. pr\<lparr>DPCList := (case ds of [] \<Rightarrow> None | e # _ \<Rightarrow> Some e)\<rparr>) s"
  obtain s1 where s1: "call (Procedure (args d)) (Param1 (args d)) (Param2 (args d)) (Param3 (args d)) ?s
      = Some s1" "DPCs s1 = DPCs s" "Processors s1 = Processors ?s" "locks s1 = locks s"
    by (rule dpc_neutralE [OF assms, of "Procedure (args d)" "Param1 (args d)" "Param2 (args d)"
          "Param3 (args d)" ?s]) simp
  have idem: "dpc_reset (dpc_reset x) = dpc_reset x" for x
    by (simp add: dpc_reset_def)
  obtain s2 where s2: "dpc_spec call c args ds (dupd d dpc_reset s1) = Some s2"
      "\<forall>e. DPCs s2 e = (if e \<in> set ds then dpc_reset (DPCs (dupd d dpc_reset s1) e)
        else DPCs (dupd d dpc_reset s1) e)" "locks s2 = locks s1"
      "Processors s2 = (if ds = [] then Processors s1
        else (Processors s1)(c := (Processors s1 c)\<lparr>DPCList := None\<rparr>))"
    using Cons.IH [of "dupd d dpc_reset s1"] by (auto elim: returnsE)
  have "Processors s2 = (Processors s)(c := (Processors s c)\<lparr>DPCList := None\<rparr>)"
    by (cases ds) (simp_all add: s2(4) s1(3) pupd_def)
  then show ?case
    using s1(1,4) s2(1-3) by (simp add: s1(2) idem fun_eq_iff)
qed

lemma process_dpc_loop_spec:
  assumes nt: "dpc_neutral call c"
  shows "dpc_list c ds s \<Longrightarrow> \<forall>d \<in> set ds. DPCs s d = args d \<Longrightarrow>
     process_dpc_loop call c s = dpc_spec call c args ds s"
proof (induction ds arbitrary: s)
  case Nil
  then show ?case
    by (subst process_dpc_loop.simps) (simp add: dpc_list_def)
next
  case (Cons d ds)
  have first: "DPCList (Processors s c) = Some d" and rest: "slist (NextDPC \<circ> DPCs s) (NextDPC (DPCs s d)) ds"
      and nd: "d \<notin> set ds" "distinct ds" and ad: "DPCs s d = args d"
    using Cons.prems by (simp_all add: dpc_list_def)
  let ?s = "pupd c (\<lambda>pr. pr\<lparr>DPCList := (case ds of [] \<Rightarrow> None | e # _ \<Rightarrow> Some e)\<rparr>) s"
  have nx: "NextDPC (DPCs s d) = (case ds of [] \<Rightarrow> None | e # _ \<Rightarrow> Some e)"
    using slist_first [OF rest] .
  obtain s1 where s1: "call (Procedure (args d)) (Param1 (args d)) (Param2 (args d)) (Param3 (args d)) ?s
      = Some s1" "DPCs s1 = DPCs s" "Processors s1 = Processors ?s"
    by (rule dpc_neutralE [OF nt, of "Procedure (args d)" "Param1 (args d)" "Param2 (args d)"
          "Param3 (args d)" ?s]) simp
  have "slist (NextDPC \<circ> DPCs (dupd d dpc_reset s1)) (NextDPC (DPCs s d)) ds"
    using rest slist_cong [of ds "NextDPC \<circ> DPCs (dupd d dpc_reset s1)" "NextDPC \<circ> DPCs s"] nd(1)
    by (auto simp: s1(2))
  then have "dpc_list c ds (dupd d dpc_reset s1)"
    using nd(2) s1(3) nx by (simp add: dpc_list_def)
  moreover have "\<forall>e \<in> set ds. DPCs (dupd d dpc_reset s1) e = args e"
    using Cons.prems(2) nd(1) by (auto simp: s1(2))
  ultimately have "process_dpc_loop call c (dupd d dpc_reset s1) = dpc_spec call c args ds (dupd d dpc_reset s1)"
    by (rule Cons.IH)
  moreover have "(\<lambda>x. x\<lparr>NextDPC := None, Param1 := 0, Param2 := 0, Param3 := 0, Queued := 0\<rparr>) = dpc_reset"
    by (simp add: fun_eq_iff dpc_reset_def)
  ultimately show ?case
    using s1(1) by (subst process_dpc_loop.simps) (simp add: first ad nx [unfolded ad] Let_def)
qed

text \<open>The whole operation: level, marks and lock are as before.\<close>

lemma process_dpc_ok:
  assumes nt: "dpc_neutral call c" and ds: "dpc_list c ds s" and free: "\<not> locks s (DPCLock c)"
    and idle: "ProcessingDPC (Processors s c) = 0"
  shows "returns (thread_process_dpc call c s) (\<lambda>s'. DPCList (Processors s' c) = None \<and>
     (\<forall>d. DPCs s' d = (if d \<in> set ds then dpc_reset (DPCs s d) else DPCs s d)) \<and>
     locks s' = locks s \<and> Processors s' = (Processors s)(c := (Processors s c)\<lparr>DPCList := None\<rparr>))"
proof -
  let ?s0 = "pupd c (\<lambda>pr. pr\<lparr>ProcessingDPC := 1\<rparr>) (s\<lparr>locks := (locks s)(DPCLock c := True)\<rparr>)"
  let ?s1 = "pupd c (\<lambda>pr. pr\<lparr>Irq := 2\<rparr>) ?s0"
  have lk: "(locks s)(DPCLock c := True, DPCLock c := False) = locks s"
    using free by (simp add: fun_eq_iff)
  show ?thesis
  proof (cases ds)
    case Nil
    then have "DPCList (Processors s c) = None"
      using ds by (simp add: dpc_list_def)
    then show ?thesis
      using process_dpc_quiet [of s c call] free idle Nil by (simp add: fun_upd_idem)
  next
    case (Cons d es)
    have "dpc_list c ds ?s1"
      using ds by (simp add: dpc_list_def)
    then have "process_dpc_loop call c ?s1 = dpc_spec call c (DPCs s) ds ?s1"
      by (rule process_dpc_loop_spec [OF nt]) simp
    then obtain s2 where s2: "process_dpc_loop call c ?s1 = Some s2"
        "\<forall>d. DPCs s2 d = (if d \<in> set ds then dpc_reset (DPCs s d) else DPCs s d)"
        "locks s2 = (locks s)(DPCLock c := True)"
        "Processors s2 = (Processors ?s1)(c := (Processors ?s1 c)\<lparr>DPCList := None\<rparr>)"
      using dpc_spec_returns [OF nt, of "DPCs s" ds ?s1] Cons by (auto elim!: returnsE)
    have "DPCList (Processors s c) \<noteq> None"
      using ds Cons by (simp add: dpc_list_def)
    moreover have "(Processors s c)\<lparr>DPCList := None, ProcessingDPC := 0\<rparr> =
        (Processors s c)\<lparr>DPCList := None\<rparr>"
      using idle by simp
    ultimately show ?thesis
      using s2 free lk
      by (simp add: thread_process_dpc_def thread_raise_irql_def thread_lower_irql_def Let_def)
        (simp add: pupd_def unlock_def)
  qed
qed

section \<open>Queueing\<close>

text \<open>
  Where the new entry belongs: in front of the first entry of lower priority.
\<close>

fun dpc_insert :: "(nat \<Rightarrow> u32) \<Rightarrow> nat \<Rightarrow> nat list \<Rightarrow> nat list" where
  "dpc_insert prio d [] = [d]"
| "dpc_insert prio d (e # es) = (if prio e < prio d then d # e # es else e # dpc_insert prio d es)"

text \<open>The insertion loop reaches only the second place.\<close>

definition dpc_reachable :: "(nat \<Rightarrow> u32) \<Rightarrow> nat \<Rightarrow> nat list \<Rightarrow> bool" where
  "dpc_reachable prio d ds \<longleftrightarrow>
     (case ds of e # e' # _ \<Rightarrow> prio e < prio d \<or> prio e' < prio d | _ \<Rightarrow> True)"

lemma dpc_insert_loop_returns:
  "dpc_insert_loop d l s = Some s' \<Longrightarrow>
     (case NextDPC (DPCs s l) of None \<Rightarrow> True
      | Some n \<Rightarrow> dpc_Priority (DPCs s n) < dpc_Priority (DPCs s d))"
  by (erule dpc_insert_loop.raw_induct [rotated]) (fastforce split: option.splits if_splits)

lemma dpc_insert_loop_stuck:
  assumes "NextDPC (DPCs s l) = Some n" "\<not> dpc_Priority (DPCs s n) < dpc_Priority (DPCs s d)"
  shows "dpc_insert_loop d l s = None"
  using assms dpc_insert_loop_returns [of d l s] by (cases "dpc_insert_loop d l s") auto

lemma dpc_insert_loop_ok:
  assumes ds: "slist (NextDPC \<circ> DPCs s) (Some e) (e # es)" and dist: "distinct (e # es)" "d \<notin> set (e # es)"
    and alone: "NextDPC (DPCs s d) = None"
    and second: "case es of [] \<Rightarrow> True | e' # _ \<Rightarrow> dpc_Priority (DPCs s e') < dpc_Priority (DPCs s d)"
  shows "returns (dpc_insert_loop d e s) (\<lambda>s'. slist (NextDPC \<circ> DPCs s') (Some e) (e # d # es) \<and>
     (\<forall>x. (DPCs s' x)\<lparr>NextDPC := None\<rparr> = (DPCs s x)\<lparr>NextDPC := None\<rparr>) \<and>
     Processors s' = Processors s \<and> locks s' = locks s)"
proof (cases es)
  case Nil
  then show ?thesis
    using assms by (subst dpc_insert_loop.simps) auto
next
  case (Cons e' es')
  have "slist ((NextDPC \<circ> DPCs s)(d := x, e := y)) f es' = slist (NextDPC \<circ> DPCs s) f es'" for x y f
    using dist Cons by (intro slist_cong) auto
  then show ?thesis
    using assms Cons by (subst dpc_insert_loop.simps) (auto simp: Let_def)
qed

definition dpc_load :: "u32 \<Rightarrow> u32 \<Rightarrow> u32 \<Rightarrow> DPC \<Rightarrow> DPC" where
  "dpc_load a b e x = x\<lparr>Param1 := a, Param2 := b, Param3 := e, Queued := 1\<rparr>"

lemma dpc_load_simps [simp]:
  "NextDPC (dpc_load a b e x) = NextDPC x" "dpc_Priority (dpc_load a b e x) = dpc_Priority x"
  by (simp_all add: dpc_load_def)

lemma dpc_place_ok:
  assumes ds: "dpc_list c ds s" and new: "d \<notin> set ds" "NextDPC (DPCs s d) = None"
    and reach: "dpc_reachable (\<lambda>x. dpc_Priority (DPCs s x)) d ds"
  shows "returns (dpc_place c d s) (\<lambda>s'.
     dpc_list c (dpc_insert (\<lambda>x. dpc_Priority (DPCs s x)) d ds) s' \<and>
     (\<forall>x. (DPCs s' x)\<lparr>NextDPC := None\<rparr> = (DPCs s x)\<lparr>NextDPC := None\<rparr>) \<and> locks s' = locks s \<and>
     (\<exists>f. Processors s' = (Processors s)(c := (Processors s c)\<lparr>DPCList := f\<rparr>)))"
proof (cases ds)
  case Nil
  then show ?thesis
    using assms by (auto simp: dpc_place_def dpc_list_def pupd_def)
next
  case (Cons e es)
  have front: "DPCList (Processors s c) = Some e" and de: "distinct (e # es)" "d \<notin> set (e # es)"
      and sl: "slist (NextDPC \<circ> DPCs s) (Some e) (e # es)"
    using ds new(1) by (simp_all add: dpc_list_def Cons)
  show ?thesis
  proof (cases "dpc_Priority (DPCs s e) < dpc_Priority (DPCs s d)")
    case True
    have "slist ((NextDPC \<circ> DPCs s)(d := x)) f (e # es) = slist (NextDPC \<circ> DPCs s) f (e # es)" for x f
      using de by (intro slist_cong) auto
    then show ?thesis
      using True front de sl by (auto simp: dpc_place_def dpc_list_def Cons pupd_def Let_def)
  next
    case False
    have "case es of [] \<Rightarrow> True | e' # _ \<Rightarrow> dpc_Priority (DPCs s e') < dpc_Priority (DPCs s d)"
      using reach False by (auto simp: dpc_reachable_def Cons split: list.splits)
    from dpc_insert_loop_ok [OF sl de new(2) this] obtain s1 where s1: "dpc_insert_loop d e s = Some s1"
        "slist (NextDPC \<circ> DPCs s1) (Some e) (e # d # es)" "Processors s1 = Processors s"
        "locks s1 = locks s" "\<forall>x. (DPCs s1 x)\<lparr>NextDPC := None\<rparr> = (DPCs s x)\<lparr>NextDPC := None\<rparr>"
      by (auto elim!: returnsE)
    have "dpc_insert (\<lambda>x. dpc_Priority (DPCs s x)) d ds = e # d # es"
      using reach False by (auto simp: dpc_reachable_def Cons split: list.splits)
    moreover have "Processors s = (Processors s)(c := (Processors s c)\<lparr>DPCList := Some e\<rparr>)"
      using front by (intro fun_upd_idem [symmetric]) simp
    ultimately show ?thesis
      using s1 False front de by (auto simp: dpc_place_def dpc_list_def)
  qed
qed

lemma dpc_place_stuck:
  assumes "dpc_list c ds s" "\<not> dpc_reachable (\<lambda>x. dpc_Priority (DPCs s x)) d ds"
  shows "dpc_place c d s = None"
  using assms dpc_insert_loop_stuck
  by (auto simp: dpc_place_def dpc_list_def dpc_reachable_def split: list.splits)

lemma dpc_queue_ok:
  assumes free: "\<not> locks s ThreadListLock" "\<not> locks s (DPCLock c)"
    and idle: "ProcessingDPC (Processors s c) = 0"
    and ds: "dpc_list c ds s" and new: "d \<notin> set ds" "NextDPC (DPCs s d) = None" "Queued (DPCs s d) = 0"
    and reach: "dpc_reachable (\<lambda>x. dpc_Priority (DPCs s x)) d ds"
  shows "returns (dpc_queue c d a b e s) (\<lambda>(rval, s'). rval = 1 \<and>
     dpc_list c (dpc_insert (\<lambda>x. dpc_Priority (DPCs s x)) d ds) s' \<and>
     (\<forall>x. (DPCs s' x)\<lparr>NextDPC := None\<rparr> =
        (if x = d then dpc_load a b e (DPCs s x) else DPCs s x)\<lparr>NextDPC := None\<rparr>) \<and>
     locks s' = locks s \<and>
     (\<exists>f. Processors s' = (Processors s)(c := (Processors s c)\<lparr>DPCList := f\<rparr>)))"
proof -
  let ?lk = "(locks s)(ThreadListLock := True, DPCLock c := True)"
  let ?s0 = "(pupd c (\<lambda>pr. pr\<lparr>Irq := 2\<rparr>) s)\<lparr>locks := ?lk\<rparr>"
  let ?s1 = "dupd d (dpc_load a b e) ?s0"
  have lk: "?lk(DPCLock c := False, ThreadListLock := False) = locks s"
    using free by (simp add: fun_eq_iff)
  have "slist (NextDPC \<circ> DPCs ?s1) f ds = slist (NextDPC \<circ> DPCs s) f ds" for f
    using new(1) by (intro slist_cong) auto
  then have ds1: "dpc_list c ds ?s1"
    using ds by (simp add: dpc_list_def)
  have pr: "(\<lambda>x. dpc_Priority (DPCs ?s1 x)) = (\<lambda>x. dpc_Priority (DPCs s x))"
    by (simp add: fun_eq_iff)
  have new1: "NextDPC (DPCs ?s1 d) = None"
    using new(2) by simp
  obtain s2 f where s2: "dpc_place c d ?s1 = Some s2"
      "dpc_list c (dpc_insert (\<lambda>x. dpc_Priority (DPCs s x)) d ds) s2"
      "\<forall>x. (DPCs s2 x)\<lparr>NextDPC := None\<rparr> =
        (if x = d then dpc_load a b e (DPCs s x) else DPCs s x)\<lparr>NextDPC := None\<rparr>"
      "locks s2 = ?lk" "Processors s2 = (Processors ?s1)(c := (Processors ?s1 c)\<lparr>DPCList := f\<rparr>)"
    using dpc_place_ok [OF ds1 new(1) new1] reach unfolding pr by (auto elim!: returnsE)
  have ld: "(\<lambda>x. x\<lparr>Param1 := a, Param2 := b, Param3 := e, Queued := 1\<rparr>) = dpc_load a b e"
    by (simp add: fun_eq_iff dpc_load_def)
  let ?s3 = "thread_unlock c ThreadListLock (Irq (Processors s c)) (unlock (DPCLock c) s2)"
  have "dpc_queue c d a b e s = Some (1, ?s3)"
    using free idle new(3) s2(1,5)
    by (simp add: dpc_queue_def thread_spinlock_def thread_raise_irql_def ld)
  moreover have "Processors ?s3 = (Processors s)(c := (Processors s c)\<lparr>DPCList := f\<rparr>)"
    using s2(5) by (simp add: thread_unlock_def thread_lower_irql_def Let_def pupd_def)
  moreover have "DPCs ?s3 = DPCs s2" "locks ?s3 = locks s"
    using s2(4) lk by (simp_all add: thread_unlock_def thread_lower_irql_def Let_def)
  ultimately show ?thesis
    using s2(2,3,5) by (auto simp: dpc_list_def)
qed

lemma dpc_queue_stuck:
  assumes free: "\<not> locks s ThreadListLock" "\<not> locks s (DPCLock c)"
    and idle: "ProcessingDPC (Processors s c) = 0"
    and ds: "dpc_list c ds s" and new: "d \<notin> set ds" "Queued (DPCs s d) = 0"
    and far: "\<not> dpc_reachable (\<lambda>x. dpc_Priority (DPCs s x)) d ds"
  shows "dpc_queue c d a b e s = None"
proof -
  let ?lk = "(locks s)(ThreadListLock := True, DPCLock c := True)"
  let ?s1 = "dupd d (dpc_load a b e) ((pupd c (\<lambda>pr. pr\<lparr>Irq := 2\<rparr>) s)\<lparr>locks := ?lk\<rparr>)"
  have "slist (NextDPC \<circ> DPCs ?s1) f ds = slist (NextDPC \<circ> DPCs s) f ds" for f
    using new(1) by (intro slist_cong) auto
  then have ds1: "dpc_list c ds ?s1"
    using ds by (simp add: dpc_list_def)
  have pr: "(\<lambda>x. dpc_Priority (DPCs ?s1 x)) = (\<lambda>x. dpc_Priority (DPCs s x))"
    by (simp add: fun_eq_iff)
  have ld: "(\<lambda>x. x\<lparr>Param1 := a, Param2 := b, Param3 := e, Queued := 1\<rparr>) = dpc_load a b e"
    by (simp add: fun_eq_iff dpc_load_def)
  have "dpc_place c d ?s1 = None"
    by (rule dpc_place_stuck [OF ds1]) (unfold pr, rule far)
  then show ?thesis
    using free idle new(2) by (simp add: dpc_queue_def thread_spinlock_def thread_raise_irql_def ld)
qed

end
