(* ===== verification/Threads_Claims.thy ===== *)
theory Threads_Claims
  imports Threads_Fairness Threads_Dpc
begin

text \<open>
  The properties of the scheduler, of the two handlers that switch threads and of the deferred
  procedure calls, each with an instance on a small processor: three threads on its list, one
  more migrating to it, three deferred procedures.
\<close>

section \<open>A small processor\<close>

definition zero_processor :: PROCESSOR_DATA_BLOCK where
  "zero_processor = \<lparr>RegisterSave = replicate 32 0, LRSave = 0, CTRSave = 0, CRSave = 0, XERSave = 0,
     IARSave = 0, MSRSave = 0, LiveFpu = zero_fpu, CurrentProcessor = 0, Irq = 0,
     FirstThread = None, LastThread = None, FirstSwapProcess = None, LastSwapProcess = None,
     InterruptTable = [], IpiProc = None, IpiContext = 0, IpiIncrement = False, QuantumEnd = 0,
     Decrementer = 0, CurrentThread = None, DPCList = None, ProcessingDPC = 0\<rparr>"

definition zero_dpc :: DPC where
  "zero_dpc = \<lparr>Procedure = 0, Param1 = 0, Param2 = 0, Param3 = 0, dpc_Priority = 0, NextDPC = None,
     Queued = 0\<rparr>"

definition zero_world :: world where
  "zero_world = \<lparr>ThreadPool = (\<lambda>_. zero_thread), Processors = (\<lambda>_. zero_processor),
     ThreadList = \<lparr>list_FirstThread = None, list_LastThread = None\<rparr>, DPCs = (\<lambda>_. zero_dpc),
     locks = (\<lambda>_. False), system_time = 0, clock_time = 0, millisecond_clock_time = 0,
     decrementer_ticks = 50000, threads_online = 0, ipi_count = 0, threading_init_check = False,
     Freed = [], processor_blocks = 0x20000000, proc_startup_address = 0x1000\<rparr>"

definition demo_thread :: "tptr \<Rightarrow> tptr \<Rightarrow> u8 \<Rightarrow> THREAD" where
  "demo_thread nx pv prio = zero_thread\<lparr>NextThread := nx, PreviousThread := pv, NextThreadFull := nx,
     PreviousThreadFull := pv, Valid := 1, HandleOpen := 1, Priority := prio, MaxPriorityBoost := 10\<rparr>"

text \<open>Threads 0 (idle), 2 and 3 are on the list, 4 waits on the swap list; 2 is running.\<close>

definition demo_world :: world where
  "demo_world = zero_world\<lparr>
     ThreadPool := (\<lambda>_. zero_thread)(0 := demo_thread (Some 2) (Some 3) 0, 2 := demo_thread (Some 3) (Some 0) 5,
       3 := demo_thread (Some 0) (Some 2) 6, 4 := demo_thread None None 7),
     Processors := (\<lambda>_. zero_processor)(0 := zero_processor\<lparr>FirstThread := Some 0, LastThread := Some 3,
       FirstSwapProcess := Some 4, CurrentThread := Some 2\<rparr>)\<rparr>"

lemmas demo_defs = demo_world_def zero_world_def demo_thread_def zero_thread_def zero_processor_def

lemma demo_ok: "sched_ok 0 [0, 2, 3] [4] demo_world"
  by (simp add: sched_ok_def proc_ring_def swap_list_def ring_def full_linked_def reapable_def demo_defs)

lemma demo_ready: "sched_ready (ThreadPool demo_world q) \<longleftrightarrow> q \<in> {0, 2, 3, 4}"
  by (simp add: sched_ready_def demo_defs)

lemma demo_reap: "\<not> reapable (ThreadPool demo_world q)"
  by (simp add: reapable_def demo_defs)

lemma demo_sleep: "SleepTime (ThreadPool demo_world q) = 0"
  by (simp add: demo_defs)

lemma demo_runnable: "runnable 0 demo_world [0, 2, 3] [4] = [3, 2, 0, 4]"
  by (simp add: runnable_def offered_def survivors_def stepped_def visited_def swept_def wake_def
      demo_reap demo_sleep demo_ready)

lemma demo_eff:
  "eff_priority (ThreadPool demo_world 0) = 0" "eff_priority (ThreadPool demo_world 2) = 5"
  "eff_priority (ThreadPool demo_world 3) = 6" "eff_priority (ThreadPool demo_world 4) = 7"
  by (simp_all add: eff_priority_def demo_defs)

lemma demo_best: "best (\<lambda>q. eff_priority (ThreadPool demo_world q)) 3 [2, 0, 4] = 4"
  by (simp add: demo_eff)

lemma demo_processor:
  "CurrentThread (Processors demo_world 0) = Some 2" "\<not> locks demo_world l"
  "DPCList (Processors demo_world 0) = None" "ProcessingDPC (Processors demo_world 0) = 0"
  "Irq (Processors demo_world 0) = 0"
  by (simp_all add: demo_defs)

section \<open>Scheduling\<close>

text \<open>
  C1: \<open>thread_schedule_core\<close> comes back on a well-formed processor that has a runnable thread, whatever sleeps, dies
  or migrates.  If the first thread of the list is not dead, all dead threads leave and all expired timers are
  cleared; if it is dead, only it leaves, only its own timer is looked at and the others wait for a later round,
  because the sweep of the source ends there.  The list afterwards is the arrivals followed by the threads that
  stay, arrivals belong to this processor, the winner is the best runnable thread, exactly the runnable losers are
  boosted, and other processors, other lists and the locks are untouched.
\<close>

theorem schedule_core_correct:
  assumes "sched_ok c xs ys s" and "runnable c s xs ys = r # rs"
  shows "returns (thread_schedule_core c s) (\<lambda>(win, s').
           win = best (\<lambda>q. eff_priority (ThreadPool s q)) r rs \<and>
           proc_ring c (rev ys @ (if reapable (ThreadPool s (hd xs)) then tl xs
             else filter (\<lambda>q. \<not> reapable (ThreadPool s q)) xs)) s' \<and> swap_list c [] s' \<and>
           outside c (set xs \<union> set ys) s s' \<and>
           (\<forall>q. bare (ThreadPool s' q) =
              (if q \<in> set (r # rs) \<and> q \<noteq> win then boosted (bare (stepped c s xs ys q))
               else bare (stepped c s xs ys q))))"
  using schedule_core_ok [OF assms] unfolding offered_def survivors_def .

theorem schedule_core_correct_witness:
  "runnable 0 demo_world [0, 2, 3] [4] = [3, 2, 0, 4] \<and>
   returns (thread_schedule_core 0 demo_world) (\<lambda>(win, s').
     win = 4 \<and> proc_ring 0 [4, 0, 2, 3] s' \<and> swap_list 0 [] s')"
proof (rule conjI [OF demo_runnable], rule returns_mono [OF schedule_core_correct [OF demo_ok demo_runnable]])
qed (auto simp: demo_eff demo_reap)

text \<open>
  the winner of a round is runnable, no runnable thread has a higher effective priority, and of
  several with the highest it is the one earliest on the ready list.
\<close>

theorem schedule_core_winner:
  assumes "sched_ok c xs ys s" and "runnable c s xs ys \<noteq> []"
  shows "returns (thread_schedule_core c s) (\<lambda>(win, s').
           \<exists>us vs. runnable c s xs ys = us @ win # vs \<and>
             (\<forall>q \<in> set us. eff_priority (ThreadPool s q) < eff_priority (ThreadPool s win)) \<and>
             (\<forall>q \<in> set vs. eff_priority (ThreadPool s q) \<le> eff_priority (ThreadPool s win)))"
proof -
  obtain r rs where run: "runnable c s xs ys = r # rs"
    using assms(2) by (cases "runnable c s xs ys") auto
  let ?e = "\<lambda>q. eff_priority (ThreadPool s q)"
  define win where "win = best ?e r rs"
  have "distinct (offered s xs ys)"
    using sched_until_ready [OF assms(1)] by (auto elim!: returnsE dest: proc_ring_distinct)
  then have "distinct (r # rs)"
    using run by (metis distinct_filter distinct_rev runnable_def)
  moreover obtain us vs where split: "r # rs = us @ win # vs"
    using best_in [of ?e r rs] unfolding win_def by (meson split_list)
  ultimately have "\<forall>q \<in> set us. ?e q < ?e win"
    using best_first [of ?e r rs win us vs] win_def by blast
  moreover have "\<forall>q \<in> set vs. ?e q \<le> ?e win"
    using best_max [of _ r rs ?e] unfolding win_def [symmetric] split by simp
  ultimately show ?thesis
    by (intro returns_mono [OF schedule_core_ok [OF assms(1) run]])
      (use run split in \<open>auto simp: win_def [symmetric]\<close>)
qed

theorem schedule_core_winner_witness:
  "returns (thread_schedule_core 0 demo_world) (\<lambda>(win, s').
     \<exists>us vs. [3, 2, 0, 4] = us @ win # vs \<and>
       (\<forall>q \<in> set us. eff_priority (ThreadPool demo_world q) < eff_priority (ThreadPool demo_world win)) \<and>
       (\<forall>q \<in> set vs. eff_priority (ThreadPool demo_world q) \<le> eff_priority (ThreadPool demo_world win)))"
  using schedule_core_winner [OF demo_ok] unfolding demo_runnable by simp

section \<open>Switching\<close>

text \<open>
  C3: a system call switches to the best runnable thread.  The processor goes on with exactly the
  registers that thread was interrupted with (its own, if it stays), the interrupted thread
  keeps the frame it had, every other thread keeps its saved frame, the interrupt level is zero and
  the thread list is well formed again with all locks released.
\<close>

theorem system_call_switches:
  assumes "sched_ok c xs ys s" and "runnable c s xs ys = r # rs"
    and "CurrentThread (Processors s c) = Some cur" and "cur \<notin> set ys"
    and "\<not> locks s (ProcessorLock c)" and "DPCList (Processors s c) = None"
    and "\<not> locks s (DPCLock c)" and "ProcessingDPC (Processors s c) = 0"
  defines "win \<equiv> best (\<lambda>q. eff_priority (ThreadPool s q)) r rs"
  shows "returns (system_call_handler call c s) (\<lambda>s'.
           CurrentThread (Processors s' c) = Some win \<and> Irq (Processors s' c) = 0 \<and>
           frame_of (Processors s' c) = resume_frame c s xs ys cur win \<and>
           (\<forall>q. Context (ThreadPool s' q) = resume_frame c s xs ys cur q) \<and>
           proc_ring c (offered s xs ys) s' \<and> swap_list c [] s' \<and> locks s' = locks s \<and>
           (\<forall>d. d \<noteq> c \<longrightarrow> Processors s' d = Processors s d))"
  unfolding system_call_switch [OF assms(3)] win_def
  by (rule returns_mono [OF switch_ok [OF assms(1-8)]]) blast

theorem system_call_switches_witness:
  "returns (system_call_handler (\<lambda>_ _ _ _ s. Some s) 0 demo_world) (\<lambda>s'.
     CurrentThread (Processors s' 0) = Some 4 \<and> Irq (Processors s' 0) = 0 \<and>
     Context (ThreadPool s' 2) = frame_of (Processors demo_world 0) \<and> proc_ring 0 [4, 0, 2, 3] s')"
proof -
  have "2 \<notin> set [4 :: nat]"
    by simp
  note sw = system_call_switches [OF demo_ok demo_runnable demo_processor(1) this demo_processor(2,3,2,4),
      unfolded demo_best]
  show ?thesis
    by (rule returns_mono [OF sw]) (simp add: resume_frame_def offered_def survivors_def demo_reap)
qed

text \<open>The processor block after a masked decrementer interrupt.\<close>

lemma restore_save_dpc:
  "load_frame (frame_of pr) (pr\<lparr>LiveFpu := x, DPCList := d\<rparr>) = pr\<lparr>DPCList := d\<rparr>"
  by (simp add: load_frame_def frame_of_def)

lemma decrementer_level_2:
  assumes cur: "CurrentThread (Processors s c) = Some cur"
    and level: "Irq (Processors s c) = 2" "ProcessingDPC (Processors s c) = 0"
    and dpc: "dpc_neutral call c" "dpc_list c ds s" "\<not> locks s (DPCLock c)"
  shows "returns (decrementer_interrupt_handler call c s) (\<lambda>s'.
     Processors s' = (Processors s)(c := (Processors s c)\<lparr>Decrementer := decrementer_ticks s', DPCList := None\<rparr>) \<and>
     Context (ThreadPool s' cur) = frame_of (Processors s c) \<and> locks s' = locks s)"
proof -
  let ?s = "save_frame c cur s"
  have "dpc_list c ds ?s" "\<not> locks ?s (DPCLock c)" "ProcessingDPC (Processors ?s c) = 0"
    using dpc level by (simp_all add: save_frame_def dpc_list_def)
  then obtain s1 where s1: "thread_process_dpc call c ?s = Some s1" "locks s1 = locks s"
      "Processors s1 = (Processors ?s)(c := (Processors ?s c)\<lparr>DPCList := None\<rparr>)"
    using process_dpc_ok [OF dpc(1), of ds ?s] by (auto simp: save_frame_def elim!: returnsE)
  have pr: "Processors s1 c = (Processors s c)\<lparr>LiveFpu := LiveFpu (Processors ?s c), DPCList := None\<rparr>"
    "\<And>d. d \<noteq> c \<Longrightarrow> Processors s1 d = Processors s d"
    by (simp_all add: s1(3) save_frame_def)
  have res: "decrementer_interrupt_handler call c s = Some (pupd c (\<lambda>pr. pr\<lparr>Decrementer := decrementer_ticks s1\<rparr>)
      (restore_thread_context c (Some (frame_of (Processors s c))) s1))"
    using cur level s1(1) pr(1)
    by (simp add: decrementer_interrupt_handler_def dump_current Let_def)
  show ?thesis
    unfolding res using cur pr s1(2)
    by (auto simp: restore_thread_context_def pupd_def tupd_def restore_save_dpc fun_eq_iff)
qed

text \<open>
  C4: a decrementer interrupt at level 2 or above never switches.  Registers, current thread, interrupt level and
  lists of the processor are what they were, so the interrupted code goes on; only the decrementer is rearmed, and
  the saved frame of the current thread is refreshed.  At level 2, outside the processing of deferred procedures, the
  pending deferred procedures (which leave the processors alone) are run and taken off the list first; above it,
  or while they are being processed, nothing else happens at all.
\<close>

theorem decrementer_never_switches_masked:
  assumes "CurrentThread (Processors s c) = Some cur" and "2 \<le> Irq (Processors s c)"
    and "Irq (Processors s c) = 2 \<Longrightarrow> ProcessingDPC (Processors s c) = 0 \<Longrightarrow>
      dpc_neutral call c \<and> dpc_list c ds s \<and> \<not> locks s (DPCLock c)"
  shows "if Irq (Processors s c) = 2 \<and> ProcessingDPC (Processors s c) = 0
     then returns (decrementer_interrupt_handler call c s) (\<lambda>s'.
       Processors s' = (Processors s)(c := (Processors s c)\<lparr>Decrementer := decrementer_ticks s', DPCList := None\<rparr>) \<and>
       Context (ThreadPool s' cur) = frame_of (Processors s c) \<and> locks s' = locks s)
     else decrementer_interrupt_handler call c s =
       Some (tupd cur (\<lambda>t. t\<lparr>Context := frame_of (Processors s c)\<rparr>)
         (pupd c (\<lambda>pr. pr\<lparr>Decrementer := decrementer_ticks s\<rparr>) s))"
proof (cases "Irq (Processors s c) = 2 \<and> ProcessingDPC (Processors s c) = 0")
  case True
  then show ?thesis
    using decrementer_level_2 [OF assms(1)] assms(3) by auto
next
  case False
  then have "2 < Irq (Processors s c) \<or> ProcessingDPC (Processors s c) \<noteq> 0"
    using assms(2) by auto
  from decrementer_masked [OF assms(1,2) this] show ?thesis
    unfolding if_not_P [OF False] .
qed

section \<open>Fairness\<close>

text \<open>
  C2: nobody starves.  On a processor whose threads neither come nor go, a ready thread whose
  priority with its full boost exceeds every other ready thread's priority by more than the boost
  the other can regain in one turn around is run within \<open>MaxPriorityBoost\<close> plus the number of
  ready threads quanta.
\<close>

theorem no_starvation:
  assumes "steady c xs s" and "p \<in> set (ready_of s xs)"
    and "\<And>q. q \<in> set (ready_of s xs) \<Longrightarrow> q \<noteq> p \<Longrightarrow>
      prio_of s q + (card (set (ready_of s xs)) - 2) < prio_of s p + mx_of s p"
  shows "\<exists>k < mx_of s p + card (set (ready_of s xs)).
     returns (quanta call c (Suc k) s) (\<lambda>s'. CurrentThread (Processors s' c) = Some p)"
proof -
  let ?R = "ready_of s xs"
  have ne: "?R \<noteq> []"
    using assms(2) by auto
  obtain k where k: "k < mx_of s p + card (set ?R)"
      "arb_nth (prio_of s) (mx_of s) ?R k (boost_of s) = p"
    using arb_not_starved [where p = p and rs = ?R and prio = "prio_of s" and mx = "mx_of s"
        and b = "boost_of s"] assms(2,3) by blast
  then show ?thesis
    using quanta_winner [OF assms(1) ne, of call k] by blast
qed

text \<open>The processor of the example once its migrating thread has gone.\<close>

definition demo_steady :: world where
  "demo_steady = pupd 0 (\<lambda>pr. pr\<lparr>FirstSwapProcess := None\<rparr>) demo_world"

lemma demo_steady_ok: "steady 0 [0, 2, 3] demo_steady"
  by (simp add: steady_def sched_ok_def proc_ring_def swap_list_def ring_def full_linked_def
      reapable_def demo_steady_def demo_defs)

lemma demo_steady_ready: "ready_of demo_steady [0, 2, 3] = [3, 2, 0]"
  by (simp add: ready_of_def demo_steady_def demo_ready)

theorem no_starvation_witness:
  "\<exists>k < 13. returns (quanta (\<lambda>_ _ _ _ s. Some s) 0 (Suc k) demo_steady)
     (\<lambda>s'. CurrentThread (Processors s' 0) = Some 0)"
proof -
  have p: "0 \<in> set (ready_of demo_steady [0, 2, 3])" and n: "card (set (ready_of demo_steady [0, 2, 3])) = 3"
    by (simp_all add: demo_steady_ready)
  have pr: "prio_of demo_steady 0 = 0" "prio_of demo_steady 2 = 5" "prio_of demo_steady 3 = 6"
      "mx_of demo_steady 0 = 10"
    by (simp_all add: prio_of_def mx_of_def demo_steady_def demo_defs)
  have "prio_of demo_steady q + (card (set (ready_of demo_steady [0, 2, 3])) - 2)
      < prio_of demo_steady 0 + mx_of demo_steady 0"
    if "q \<in> set (ready_of demo_steady [0, 2, 3])" "q \<noteq> 0" for q
    using that unfolding n by (auto simp: demo_steady_ready pr)
  from no_starvation [OF demo_steady_ok p this, of "\<lambda>_ _ _ _ s. Some s"] show ?thesis
    unfolding n pr by simp
qed

section \<open>Deferred procedures\<close>

definition demo_dpcs :: world where
  "demo_dpcs = pupd 0 (\<lambda>pr. pr\<lparr>DPCList := Some 5\<rparr>) (demo_world\<lparr>DPCs := (\<lambda>_. zero_dpc)(
     5 := zero_dpc\<lparr>dpc_Priority := 9, NextDPC := Some 6, Queued := 1\<rparr>,
     6 := zero_dpc\<lparr>dpc_Priority := 4, Queued := 1\<rparr>, 7 := zero_dpc\<lparr>dpc_Priority := 6\<rparr>,
     8 := zero_dpc\<lparr>dpc_Priority := 3\<rparr>)\<rparr>)"

lemma demo_dpcs_list: "dpc_list 0 [5, 6] demo_dpcs"
  by (simp add: dpc_list_def demo_dpcs_def zero_dpc_def)

lemma demo_dpcs_processor:
  "\<not> locks demo_dpcs l" "ProcessingDPC (Processors demo_dpcs 0) = 0"
  by (simp_all add: demo_dpcs_def demo_processor)

text \<open>The processor with two deferred procedures queued, interrupted at level 2.\<close>

definition demo_level_2 :: world where
  "demo_level_2 = pupd 0 (\<lambda>pr. pr\<lparr>Irq := 2\<rparr>) demo_dpcs"

theorem decrementer_never_switches_masked_witness:
  "returns (decrementer_interrupt_handler (\<lambda>_ _ _ _ s. Some s) 0 demo_level_2) (\<lambda>s'.
     CurrentThread (Processors s' 0) = Some 2 \<and> Irq (Processors s' 0) = 2 \<and> DPCList (Processors s' 0) = None) \<and>
   decrementer_interrupt_handler (\<lambda>_ _ _ _ s. Some s) 0 (pupd 0 (\<lambda>pr. pr\<lparr>Irq := 3\<rparr>) demo_world) \<noteq> None"
proof
  have cur: "CurrentThread (Processors demo_level_2 0) = Some 2" and irq: "Irq (Processors demo_level_2 0) = 2"
    and idle: "ProcessingDPC (Processors demo_level_2 0) = 0"
    using demo_processor demo_dpcs_processor by (simp_all add: demo_level_2_def demo_dpcs_def)
  have "dpc_neutral (\<lambda>_ _ _ _ s. Some s) 0 \<and> dpc_list 0 [5, 6] demo_level_2 \<and> \<not> locks demo_level_2 (DPCLock 0)"
    using demo_dpcs_list demo_dpcs_processor by (simp add: dpc_neutral_def demo_level_2_def dpc_list_def)
  with decrementer_never_switches_masked [of demo_level_2 0 2 "\<lambda>_ _ _ _ s. Some s" "[5, 6]"] cur irq idle
  show "returns (decrementer_interrupt_handler (\<lambda>_ _ _ _ s. Some s) 0 demo_level_2) (\<lambda>s'.
     CurrentThread (Processors s' 0) = Some 2 \<and> Irq (Processors s' 0) = 2 \<and> DPCList (Processors s' 0) = None)"
    by (auto elim!: returns_mono)
  show "decrementer_interrupt_handler (\<lambda>_ _ _ _ s. Some s) 0 (pupd 0 (\<lambda>pr. pr\<lparr>Irq := 3\<rparr>) demo_world) \<noteq> None"
    using decrementer_never_switches_masked [of "pupd 0 (\<lambda>pr. pr\<lparr>Irq := 3\<rparr>) demo_world" 0 2 "\<lambda>_ _ _ _ s. Some s"]
    by (simp add: demo_defs)
qed

text \<open>
  C35: working off the deferred procedures of a processor comes back and is the specified sequence:
  every queued procedure once, in list order, with the arguments it was queued with, each off the
  list before it runs.
\<close>

theorem process_dpc_in_order:
  assumes "dpc_neutral call c" and "dpc_list c ds s"
  shows "process_dpc_loop call c s = dpc_spec call c (DPCs s) ds s"
  by (rule process_dpc_loop_spec [OF assms]) simp

theorem process_dpc_in_order_witness:
  "process_dpc_loop (\<lambda>_ _ _ _ s. Some s) 0 demo_dpcs =
     dpc_spec (\<lambda>_ _ _ _ s. Some s) 0 (DPCs demo_dpcs) [5, 6] demo_dpcs"
  by (rule process_dpc_in_order [OF _ demo_dpcs_list]) (simp add: dpc_neutral_def)

text \<open>
  C36: \<open>thread_process_dpc\<close> leaves the list empty and every processed entry free to be queued
  again, and gives back the interrupt level, the processing mark and the lock.
\<close>

theorem process_dpc_empties:
  assumes "dpc_neutral call c" and "dpc_list c ds s" and "\<not> locks s (DPCLock c)"
    and "ProcessingDPC (Processors s c) = 0"
  shows "returns (thread_process_dpc call c s) (\<lambda>s'. DPCList (Processors s' c) = None \<and>
     (\<forall>d. DPCs s' d = (if d \<in> set ds then dpc_reset (DPCs s d) else DPCs s d)) \<and>
     locks s' = locks s \<and> Processors s' = (Processors s)(c := (Processors s c)\<lparr>DPCList := None\<rparr>))"
  using assms by (rule process_dpc_ok)

theorem process_dpc_empties_witness:
  "returns (thread_process_dpc (\<lambda>_ _ _ _ s. Some s) 0 demo_dpcs) (\<lambda>s'.
     DPCList (Processors s' 0) = None \<and> Queued (DPCs s' 6) = 0)"
proof -
  have "dpc_neutral (\<lambda>_ _ _ _ s. Some s) 0"
    by (simp add: dpc_neutral_def)
  note ok = process_dpc_empties [OF this demo_dpcs_list demo_dpcs_processor]
  show ?thesis
    by (rule returns_mono [OF ok]) (simp add: dpc_reset_def)
qed

text \<open>
  C37: \<open>dpc_queue\<close> puts a free entry before the first entry of lower priority and returns 1,
  provided that place is among the first two or at the end of a one-entry list.
\<close>

theorem dpc_queue_inserts:
  assumes "\<not> locks s ThreadListLock" and "\<not> locks s (DPCLock c)"
    and "ProcessingDPC (Processors s c) = 0"
    and "dpc_list c ds s" and "d \<notin> set ds" and "NextDPC (DPCs s d) = None" and "Queued (DPCs s d) = 0"
    and "dpc_reachable (\<lambda>x. dpc_Priority (DPCs s x)) d ds"
  shows "returns (dpc_queue c d a b e s) (\<lambda>(rval, s'). rval = 1 \<and>
     dpc_list c (dpc_insert (\<lambda>x. dpc_Priority (DPCs s x)) d ds) s' \<and>
     (\<forall>x. (DPCs s' x)\<lparr>NextDPC := None\<rparr> =
        (if x = d then dpc_load a b e (DPCs s x) else DPCs s x)\<lparr>NextDPC := None\<rparr>) \<and>
     locks s' = locks s \<and>
     (\<exists>f. Processors s' = (Processors s)(c := (Processors s c)\<lparr>DPCList := f\<rparr>)))"
  using assms by (rule dpc_queue_ok)

theorem dpc_queue_inserts_witness:
  "returns (dpc_queue 0 7 1 2 3 demo_dpcs) (\<lambda>(rval, s'). rval = 1 \<and> dpc_list 0 [5, 7, 6] s')"
proof -
  have d: "(7 :: nat) \<notin> set [5, 6]" "NextDPC (DPCs demo_dpcs 7) = None" "Queued (DPCs demo_dpcs 7) = 0"
      "dpc_reachable (\<lambda>x. dpc_Priority (DPCs demo_dpcs x)) 7 [5, 6]"
    by (simp_all add: dpc_reachable_def demo_dpcs_def zero_dpc_def)
  note ok = dpc_queue_inserts [OF demo_dpcs_processor(1) demo_dpcs_processor(1,2) demo_dpcs_list d, of 1 2 3]
  show ?thesis
    by (rule returns_mono [OF ok]) (auto simp: demo_dpcs_def zero_dpc_def)
qed

text \<open>
  C38: when the place of the new entry is further back, \<open>dpc_queue\<close> never returns: its
  insertion loop does not advance.
\<close>

theorem dpc_queue_spins:
  assumes "\<not> locks s ThreadListLock" and "\<not> locks s (DPCLock c)"
    and "ProcessingDPC (Processors s c) = 0"
    and "dpc_list c ds s" and "d \<notin> set ds" and "Queued (DPCs s d) = 0"
    and "\<not> dpc_reachable (\<lambda>x. dpc_Priority (DPCs s x)) d ds"
  shows "dpc_queue c d a b e s = None"
  using assms by (rule dpc_queue_stuck)

theorem dpc_queue_spins_witness: "dpc_queue 0 8 1 2 3 demo_dpcs = None"
proof -
  have d: "(8 :: nat) \<notin> set [5, 6]" "Queued (DPCs demo_dpcs 8) = 0"
      "\<not> dpc_reachable (\<lambda>x. dpc_Priority (DPCs demo_dpcs x)) 8 [5, 6]"
    by (simp_all add: dpc_reachable_def demo_dpcs_def zero_dpc_def)
  show ?thesis
    by (rule dpc_queue_spins [OF demo_dpcs_processor(1) demo_dpcs_processor(1,2) demo_dpcs_list d])
qed

end
