(* ===== verification/Threads_Ops.thy ===== *)
theory Threads_Ops
  imports Threads_Sched
begin

text \<open>
  The operations of the threading library on threads and processors (\<open>c_threads.c\<close>): creation
  and termination, suspension, priorities, migration, sleeping, inter-processor interrupts, the
  external interrupt handler and start-up.

  Memory for stacks comes from newlib: \<open>memalign\<close> is an argument, and a zero result is NULL.  The
  system call instruction is a call of \<open>system_call_handler\<close>.  The interrupt service routines that
  only talk to device registers change nothing here.
\<close>

unbundle bit_operations_syntax

section \<open>Operations on one thread\<close>

text \<open>
  The frame that most operations share: the list of all threads is locked at dispatch level,
  then the processor of the thread; the processor is read again for the unlock.
\<close>

definition thread_locked :: "nat \<Rightarrow> nat \<Rightarrow> (world \<Rightarrow> 'a \<times> world) \<Rightarrow> world \<Rightarrow> ('a \<times> world) option" where
  "thread_locked c p act s = do {
     (irql, s) \<leftarrow> thread_spinlock c ThreadListLock s;
     d \<leftarrow> ThisProcessor (ThreadPool s p);
     s \<leftarrow> lock (ProcessorLock d) s;
     let (r, s) = act s;
     d \<leftarrow> ThisProcessor (ThreadPool s p);
     let s = unlock (ProcessorLock d) s;
     Some (r, thread_unlock c ThreadListLock irql s) }"

definition thread_close :: "nat \<Rightarrow> nat \<Rightarrow> world \<Rightarrow> world option" where
  "thread_close c p s =
     map_option snd (thread_locked c p (\<lambda>s. ((), tupd p (\<lambda>t. t\<lparr>HandleOpen := 0\<rparr>) s)) s)"

definition thread_suspend :: "nat \<Rightarrow> nat \<Rightarrow> world \<Rightarrow> (int \<times> world) option" where
  "thread_suspend c p s = thread_locked c p (\<lambda>s.
     if SuspendCount (ThreadPool s p) < 80
     then (uint (SuspendCount (ThreadPool s p)), tupd p (\<lambda>t. t\<lparr>SuspendCount := SuspendCount t + 1\<rparr>) s)
     else (-1, s)) s"

definition thread_resume :: "nat \<Rightarrow> nat \<Rightarrow> world \<Rightarrow> (int \<times> world) option" where
  "thread_resume c p s = thread_locked c p (\<lambda>s.
     if SuspendCount (ThreadPool s p) \<noteq> 0
     then (uint (SuspendCount (ThreadPool s p)), tupd p (\<lambda>t. t\<lparr>SuspendCount := SuspendCount t - 1\<rparr>) s)
     else (-1, s)) s"

definition thread_set_priority_boost :: "nat \<Rightarrow> nat \<Rightarrow> u32 \<Rightarrow> world \<Rightarrow> world option" where
  "thread_set_priority_boost c p boost s =
     map_option snd (thread_locked c p (\<lambda>s. ((), tupd p (\<lambda>t. t\<lparr>MaxPriorityBoost := ucast boost\<rparr>) s)) s)"

definition thread_set_priority :: "nat \<Rightarrow> nat \<Rightarrow> u32 \<Rightarrow> world \<Rightarrow> world option" where
  "thread_set_priority c p priority s =
     (if priority > 15 then Some s
      else map_option snd (thread_locked c p (\<lambda>s. ((), tupd p (\<lambda>t. t\<lparr>Priority := ucast priority\<rparr>) s)) s))"

definition thread_set_name :: "nat \<Rightarrow> string \<Rightarrow> world \<Rightarrow> world" where
  "thread_set_name p name s = tupd p (\<lambda>t. t\<lparr>Name := Some name\<rparr>) s"

definition thread_get_current :: "nat \<Rightarrow> world \<Rightarrow> (tptr \<times> world) option" where
  "thread_get_current c s = do {
     (irql, s) \<leftarrow> thread_spinlock c ThreadListLock s;
     s \<leftarrow> lock (ProcessorLock c) s;
     let pthr = CurrentThread (Processors s c);
     let s = unlock (ProcessorLock c) s;
     Some (pthr, thread_unlock c ThreadListLock irql s) }"

section \<open>The current thread gives up the processor\<close>

definition thread_sleep :: "dpc_call \<Rightarrow> nat \<Rightarrow> u32 \<Rightarrow> world \<Rightarrow> world option" where
  "thread_sleep call c milliseconds s = do {
     let sleep_time = millisecond_clock_time s + ucast milliseconds;
     let (_, s) = thread_raise_irql c 2 s;
     s \<leftarrow> lock (ProcessorLock c) s;
     cur \<leftarrow> CurrentThread (Processors s c);
     let s = tupd cur (\<lambda>t. t\<lparr>SleepTime := sleep_time\<rparr>) s;
     let s = unlock (ProcessorLock c) s;
     system_call_handler call c s }"

definition thread_terminate :: "dpc_call \<Rightarrow> nat \<Rightarrow> world \<Rightarrow> world option" where
  "thread_terminate call c s = do {
     let (_, s) = thread_raise_irql c 2 s;
     s \<leftarrow> lock (ProcessorLock c) s;
     cur \<leftarrow> CurrentThread (Processors s c);
     let s = tupd cur (\<lambda>t. t\<lparr>ThreadTerminated := 1\<rparr>) s;
     let s = unlock (ProcessorLock c) s;
     system_call_handler call c s }"

section \<open>Creation\<close>

definition round_stack_size :: "u32 \<Rightarrow> u32" where
  "round_stack_size stack_size =
     (let stack_size = (if stack_size < 16 * 1024 then 16 * 1024 else stack_size)
      in if stack_size AND 0x3FF \<noteq> 0 then (stack_size AND 0xFFFFFC00) + 0x1000 else stack_size)"

definition link_full_front :: "nat \<Rightarrow> world \<Rightarrow> world option" where
  "link_full_front p s = do {
     let s = tupd p (\<lambda>t. t\<lparr>NextThreadFull := list_FirstThread (ThreadList s)\<rparr>) s;
     let s = tupd p (\<lambda>t. t\<lparr>PreviousThreadFull := list_LastThread (ThreadList s)\<rparr>) s;
     f \<leftarrow> list_FirstThread (ThreadList s);
     let s = tupd f (\<lambda>t. t\<lparr>PreviousThreadFull := Some p\<rparr>) s;
     l \<leftarrow> list_LastThread (ThreadList s);
     let s = tupd l (\<lambda>t. t\<lparr>NextThreadFull := Some p\<rparr>) s;
     Some (s\<lparr>ThreadList := (ThreadList s)\<lparr>list_FirstThread := Some p\<rparr>\<rparr>) }"

definition processor_address :: "world \<Rightarrow> nat \<Rightarrow> u32" where
  "processor_address s c = processor_blocks s + of_nat c * 0x1000"

definition start_context :: "u32 \<Rightarrow> u32 \<Rightarrow> u32 \<Rightarrow> u32 \<Rightarrow> u32 \<Rightarrow> CONTEXT \<Rightarrow> CONTEXT" where
  "start_context sp pcr startup entrypoint argument cx =
     cx\<lparr>Gpr := (Gpr cx)[1 := ucast sp, 13 := ucast pcr, 3 := ucast entrypoint, 4 := ucast argument],
        Iar := ucast startup, Msr := 0x100000000200B030\<rparr>"

definition thread_setup :: "nat \<Rightarrow> nat \<Rightarrow> u32 \<Rightarrow> u32 \<Rightarrow> u32 \<Rightarrow> u32 \<Rightarrow> u32 \<Rightarrow> world \<Rightarrow> world option" where
  "thread_setup c p stack stack_size entrypoint argument flags s = do {
     let s = tupd p (\<lambda>t. t\<lparr>StackBase := stack, StackSize := stack_size, Priority := 7,
       MaxPriorityBoost := 5, Valid := 1, ThisProcessor := Some c\<rparr>) s;
     let s = unlock (ProcessorLock c) s;
     s \<leftarrow> lock ThreadListLock s;
     s \<leftarrow> lock (ProcessorLock c) s;
     s \<leftarrow> link_front c p s;
     s \<leftarrow> link_full_front p s;
     let s = unlock ThreadListLock s;
     let s = (if flags AND THREAD_FLAG_CREATE_SUSPENDED \<noteq> 0
              then tupd p (\<lambda>t. t\<lparr>SuspendCount := 1\<rparr>) s else s);
     Some (tupd p (\<lambda>t. t\<lparr>Context := start_context (StackBase t + StackSize t - 8) (processor_address s c)
         (proc_startup_address s) entrypoint argument (Context t), reent_ready := True\<rparr>) s) }"

definition thread_create ::
    "(u32 \<Rightarrow> u32 \<Rightarrow> u32) \<Rightarrow> nat \<Rightarrow> u32 \<Rightarrow> u32 \<Rightarrow> u32 \<Rightarrow> u32 \<Rightarrow> world \<Rightarrow> (tptr \<times> world) option" where
  "thread_create memalign c entrypoint stack_size argument flags s = do {
     let stack_size = round_stack_size stack_size;
     let stack = memalign 16 stack_size;
     (irql, s) \<leftarrow> thread_spinlock c (ProcessorLock c) s;
     (pthr, s) \<leftarrow> (if stack \<noteq> 0 then
         (let (pthr, s) = thread_pool_alloc s
          in case pthr of None \<Rightarrow> Some (None, s)
             | Some p \<Rightarrow> map_option (Pair (Some p))
                 (thread_setup c p stack stack_size entrypoint argument flags s))
       else Some (None, s));
     let s = unlock (ProcessorLock c) s;
     Some (pthr, snd (thread_lower_irql c (ucast irql) s)) }"

section \<open>Migration\<close>

definition unlink_from_processor :: "nat \<Rightarrow> world \<Rightarrow> world option" where
  "unlink_from_processor p s = do {
     s \<leftarrow> unlink_thread p s;
     d \<leftarrow> ThisProcessor (ThreadPool s p);
     Some (drop_from_ends d p s) }"

definition push_swap_list :: "nat \<Rightarrow> nat \<Rightarrow> world \<Rightarrow> world" where
  "push_swap_list n p s =
     (let s = tupd p (\<lambda>t. t\<lparr>NextThread := FirstSwapProcess (Processors s n)\<rparr>) s;
          s = tupd p (\<lambda>t. t\<lparr>PreviousThread := LastSwapProcess (Processors s n)\<rparr>) s;
          s = (case FirstSwapProcess (Processors s n) of None \<Rightarrow> s
               | Some f \<Rightarrow> tupd f (\<lambda>t. t\<lparr>PreviousThread := Some p\<rparr>) s);
          s = (case LastSwapProcess (Processors s n) of None \<Rightarrow> s
               | Some l \<Rightarrow> tupd l (\<lambda>t. t\<lparr>NextThread := Some p\<rparr>) s)
      in pupd n (\<lambda>pr. pr\<lparr>FirstSwapProcess := Some p\<rparr>) s)"

definition thread_move :: "nat \<Rightarrow> nat \<Rightarrow> world \<Rightarrow> world option" where
  "thread_move p n s = do {
     s \<leftarrow> lock (ProcessorLock n) s;
     s \<leftarrow> unlink_from_processor p s;
     s \<leftarrow> lock (SwapProcessLock n) s;
     let s = unlock (SwapProcessLock n) (push_swap_list n p s);
     let s = tupd p (\<lambda>t. t\<lparr>ThisProcessor := Some n\<rparr>) s;
     Some (unlock (ProcessorLock n) s) }"

text \<open>
  The source computes the address of block \<open>n\<close> without a check; the six blocks of the machine are 0 to 5.
\<close>

definition thread_set_processor :: "dpc_call \<Rightarrow> nat \<Rightarrow> nat \<Rightarrow> nat \<Rightarrow> world \<Rightarrow> world option" where
  "thread_set_processor call c p n s = do {
     (irql, s) \<leftarrow> thread_spinlock c ThreadListLock s;
     old \<leftarrow> ThisProcessor (ThreadPool s p);
     s \<leftarrow> lock (ProcessorLock old) s;
     s \<leftarrow> (if old \<noteq> n then thread_move p n s else Some s);
     let s = thread_unlock c ThreadListLock irql (unlock (ProcessorLock old) s);
     (cur, s) \<leftarrow> thread_get_current c s;
     if cur = Some p then system_call_handler call c s else Some s }"

section \<open>Inter-processor interrupts\<close>

text \<open>
  \<open>run i c context\<close> is the procedure with number \<open>i\<close> run on processor \<open>c\<close>.
\<close>

type_synonym ipi_call = "nat \<Rightarrow> nat \<Rightarrow> u32 \<Rightarrow> world \<Rightarrow> (u32 \<times> world) option"

definition thread_interrupt_ipi :: "ipi_call \<Rightarrow> nat \<Rightarrow> world \<Rightarrow> world option" where
  "thread_interrupt_ipi run c s = do {
     s \<leftarrow> lock (IpiLock c) s;
     s \<leftarrow> (case IpiProc (Processors s c) of None \<Rightarrow> Some s
           | Some i \<Rightarrow> do {
               (_, s) \<leftarrow> run i c (IpiContext (Processors s c)) s;
               Some (pupd c (\<lambda>pr. pr\<lparr>IpiProc := None\<rparr>) s) });
     let s = (if IpiIncrement (Processors s c) then s\<lparr>ipi_count := ipi_count s + 1\<rparr> else s);
     Some (unlock (IpiLock c) s) }"

definition ipi_post :: "nat \<Rightarrow> u32 \<Rightarrow> nat \<Rightarrow> world \<Rightarrow> world option" where
  "ipi_post entrypoint context i s = do {
     s \<leftarrow> lock (IpiLock i) s;
     let s = pupd i (\<lambda>pr. pr\<lparr>IpiProc := Some entrypoint, IpiContext := context, IpiIncrement := True\<rparr>) s;
     Some (unlock (IpiLock i) s) }"

fun ipi_send_packet :: "nat \<Rightarrow> u32 \<Rightarrow> u8 \<Rightarrow> nat list \<Rightarrow> world \<Rightarrow> world option" where
  "ipi_send_packet entrypoint context processors [] s = Some s"
| "ipi_send_packet entrypoint context processors (i # is) s =
     (if processors AND push_bit i 1 = 0 then ipi_send_packet entrypoint context processors is s
      else do {
        s \<leftarrow> ipi_post entrypoint context i s;
        ipi_send_packet entrypoint context processors is s })"

text \<open>
  The other processors take the interrupt in some order \<open>answers\<close>; the sender leaves its wait
  when five have counted themselves, and waits for ever otherwise.
\<close>

fun ipi_answers :: "ipi_call \<Rightarrow> nat list \<Rightarrow> world \<Rightarrow> world option" where
  "ipi_answers run [] s = Some s"
| "ipi_answers run (d # ds) s = Option.bind (thread_interrupt_ipi run d s) (ipi_answers run ds)"

definition thread_send_ipi :: "ipi_call \<Rightarrow> nat list \<Rightarrow> nat \<Rightarrow> nat \<Rightarrow> u32 \<Rightarrow> world \<Rightarrow> (u32 \<times> world) option" where
  "thread_send_ipi run answers c entrypoint context s = do {
     let s = s\<lparr>ipi_count := 0\<rparr>;
     let (irql, s) = (if Irq (Processors s c) < 2 then thread_raise_irql c 2 s
                      else (Irq (Processors s c), s));
     s \<leftarrow> lock ipi_lock s;
     s \<leftarrow> ipi_send_packet entrypoint context
            (0x3F AND NOT (push_bit (unat (CurrentProcessor (Processors s c))) 1)) [0..<6] s;
     let (_, s) = thread_raise_irql c 0x78 s;
     (rval, s) \<leftarrow> run entrypoint c context s;
     s \<leftarrow> ipi_answers run answers s;
     if ipi_count s \<noteq> 5 then None
     else (let s = unlock ipi_lock s
           in Some (rval, snd (thread_lower_irql c (ucast irql) s))) }"

definition quantum_length_ipi_routine :: "nat \<Rightarrow> u32 \<Rightarrow> world \<Rightarrow> (u32 \<times> world) option" where
  "quantum_length_ipi_routine c context s = Some (0, pupd c (\<lambda>pr. pr\<lparr>Decrementer := context\<rparr>) s)"

definition process_set_quantum_length :: "nat list \<Rightarrow> nat \<Rightarrow> u32 \<Rightarrow> world \<Rightarrow> world option" where
  "process_set_quantum_length answers c milliseconds s = do {
     let s = s\<lparr>decrementer_ticks := milliseconds * 2500\<rparr>;
     (_, s) \<leftarrow> thread_send_ipi (\<lambda>_. quantum_length_ipi_routine) answers c 0 (milliseconds * 2500) s;
     Some s }"

section \<open>External interrupts\<close>

definition run_isr :: "ipi_call \<Rightarrow> isr \<Rightarrow> nat \<Rightarrow> world \<Rightarrow> world option" where
  "run_isr run i c s =
     (case i of Isr_clock \<Rightarrow> Some (thread_interrupt_clock s)
      | Isr_ipi \<Rightarrow> thread_interrupt_ipi run c s
      | _ \<Rightarrow> Some s)"

text \<open>\<open>source\<close> is what the interrupt controller reports; an index beyond the table is not defined.\<close>

definition external_interrupt_handler :: "ipi_call \<Rightarrow> u64 \<Rightarrow> nat \<Rightarrow> world \<Rightarrow> world option" where
  "external_interrupt_handler run source c s =
     (let n = unat source div 4; table = InterruptTable (Processors s c)
      in if n \<ge> length table then None else do {
        let (irq, s) = (if table ! n \<noteq> Isr_unexpected
                        then (Irq (Processors s c), pupd c (\<lambda>pr. pr\<lparr>Irq := ucast source\<rparr>) s)
                        else (255, s));
        s \<leftarrow> run_isr run (table ! n) c s;
        Some (if irq \<noteq> 255 then pupd c (\<lambda>pr. pr\<lparr>Irq := irq\<rparr>) s else s) })"

section \<open>Start-up\<close>

text \<open>The entry address and arguments of the idle loop are link-time constants.\<close>

definition idle_first_list :: "nat \<Rightarrow> world \<Rightarrow> world" where
  "idle_first_list p s =
     (let s = s\<lparr>ThreadList := \<lparr>list_FirstThread = Some p, list_LastThread = Some p\<rparr>\<rparr>
      in tupd p (\<lambda>t. t\<lparr>Priority := 7, MaxPriorityBoost := 5, reent_ready := True\<rparr>) s)"

definition idle_link_full :: "nat \<Rightarrow> world \<Rightarrow> world option" where
  "idle_link_full p s = do {
     l \<leftarrow> list_LastThread (ThreadList s);
     let s = tupd l (\<lambda>t. t\<lparr>NextThreadFull := Some p\<rparr>) s;
     f \<leftarrow> list_FirstThread (ThreadList s);
     let s = tupd f (\<lambda>t. t\<lparr>PreviousThreadFull := Some p\<rparr>) s;
     Some (tupd p (\<lambda>t. t\<lparr>NextThreadFull := list_FirstThread (ThreadList s),
                          PreviousThreadFull := list_LastThread (ThreadList s)\<rparr>) s) }"

definition idle_register :: "nat \<Rightarrow> world \<Rightarrow> (nat \<times> world) option" where
  "idle_register c s = do {
     s \<leftarrow> lock ThreadListLock s;
     s \<leftarrow> lock (ProcessorLock c) s;
     let (pthr, s) = thread_pool_alloc s;
     p \<leftarrow> pthr;
     let s = tupd p (\<lambda>t. t\<lparr>ThisProcessor := Some c, NextThread := Some p, PreviousThread := Some p\<rparr>) s;
     let s = pupd c (\<lambda>pr. pr\<lparr>CurrentThread := Some p, FirstThread := Some p, LastThread := Some p\<rparr>) s;
     let s = (if CurrentProcessor (Processors s c) = 0 then idle_first_list p s else s);
     s \<leftarrow> idle_link_full p s;
     Some (p, unlock ThreadListLock (unlock (ProcessorLock c) s)) }"

definition thread_create_idle_thread ::
    "(u32 \<Rightarrow> u32 \<Rightarrow> u32) \<Rightarrow> u32 \<Rightarrow> nat \<Rightarrow> world \<Rightarrow> (nat \<times> world) option" where
  "thread_create_idle_thread memalign idle_loop c s = do {
     (p, s) \<leftarrow> idle_register c s;
     s \<leftarrow> (if CurrentProcessor (Processors s c) = 0 then do {
             (idle, s) \<leftarrow> thread_create memalign c idle_loop 0 0 0 s;
             q \<leftarrow> idle;
             s \<leftarrow> thread_set_priority c q 0 s;
             s \<leftarrow> thread_set_priority_boost c q 0 s;
             thread_close c q s }
           else Some s);
     Some (p, s) }"

definition interrupt_table :: "bool \<Rightarrow> isr list" where
  "interrupt_table main =
     (let table = (replicate 0x20 Isr_unexpected)[0x5 := Isr_hal_smm, 0x16 := Isr_vdp];
          table = (if \<not> main then table[0x1C := Isr_ipi_clock] else table[0x1D := Isr_clock])
      in table[0x1E := Isr_ipi, 0x1F := Isr_spurious])"

text \<open>What a processor does before it returns (processor 0) or idles (the others).\<close>

definition thread_startup :: "(u32 \<Rightarrow> u32 \<Rightarrow> u32) \<Rightarrow> u32 \<Rightarrow> nat \<Rightarrow> world \<Rightarrow> world option" where
  "thread_startup memalign idle_loop c s = do {
     let s = pupd c (\<lambda>pr. pr\<lparr>Irq := 2, InterruptTable := interrupt_table (CurrentProcessor pr = 0),
                              QuantumEnd := ucast (decrementer_ticks s)\<rparr>) s;
     (p, s) \<leftarrow> thread_create_idle_thread memalign idle_loop c s;
     s \<leftarrow> thread_close c p s;
     let s = s\<lparr>threads_online := threads_online s + 1\<rparr>;
     Some (pupd c (\<lambda>pr. pr\<lparr>Irq := 0\<rparr>) s) }"

text \<open>
  The processors start up one after the other; the waits for \<open>threads_online\<close> end when all six
  have counted themselves.
\<close>

fun startup_all :: "(u32 \<Rightarrow> u32 \<Rightarrow> u32) \<Rightarrow> u32 \<Rightarrow> nat list \<Rightarrow> world \<Rightarrow> world option" where
  "startup_all memalign idle_loop [] s = Some s"
| "startup_all memalign idle_loop (c # cs) s =
     Option.bind (thread_startup memalign idle_loop c s) (startup_all memalign idle_loop cs)"

definition threading_init :: "(u32 \<Rightarrow> u32 \<Rightarrow> u32) \<Rightarrow> u32 \<Rightarrow> world \<Rightarrow> world option" where
  "threading_init memalign idle_loop s =
     (if threading_init_check s then Some s
      else do {
        let s = s\<lparr>ThreadPool := (\<lambda>_. zero_thread),
                  ThreadList := \<lparr>list_FirstThread = None, list_LastThread = None\<rparr>\<rparr>;
        s \<leftarrow> thread_startup memalign idle_loop 0 s;
        s \<leftarrow> startup_all memalign idle_loop [1..<6] s;
        if threads_online s \<noteq> 6 then None
        else Some ((pupd 0 (\<lambda>pr. pr\<lparr>Decrementer := decrementer_ticks s\<rparr>) s)\<lparr>threading_init_check := True\<rparr>) })"

end
