(* ===== verification/Threads_Ops_Lemmas.thy ===== *)
theory Threads_Ops_Lemmas
  imports Threads_Ops Threads_Switch
begin

text \<open>
  What the operations on threads do: the locked operations are assignments to one thread,
  \<open>thread_create\<close> links a fresh thread at the front of its processor's list or changes nothing,
  and the rounding of stack sizes.
\<close>

unbundle bit_operations_syntax

section \<open>Taking and releasing the locks is neutral\<close>

lemma relock_idem:
  "\<not> m l \<Longrightarrow> m(l := True, l := False) = m"
  "\<not> m l \<Longrightarrow> \<not> m k \<Longrightarrow> m(l := True, k := True, k := False, l := False) = m"
  by (simp_all add: fun_eq_iff)

lemma spinlock_ok:
  "\<not> locks s l \<Longrightarrow> thread_spinlock c l s =
     Some (Irq (Processors s c), pupd c (\<lambda>pr. pr\<lparr>Irq := 2\<rparr>) (s\<lparr>locks := (locks s)(l := True)\<rparr>))"
  by (simp add: thread_spinlock_def thread_raise_irql_def)

lemma irq_restore:
  "pupd c (\<lambda>pr. pr\<lparr>Irq := Irq (Processors s c)\<rparr>) (s'\<lparr>Processors := (Processors s)(c := (Processors s c)\<lparr>Irq := i\<rparr>)\<rparr>)
     = s'\<lparr>Processors := Processors s\<rparr>"
  by (simp add: pupd_def)

lemma thread_locked_ok:
  assumes d: "ThisProcessor (ThreadPool s p) = Some d" and free: "\<not> locks s ThreadListLock"
    "\<not> locks s (ProcessorLock d)"
    and act: "\<And>s'. ThreadPool s' = ThreadPool s \<Longrightarrow> act s' = (r, tupd p f s')"
    and keep: "\<And>t. ThisProcessor (f t) = ThisProcessor t"
  shows "thread_locked c p act s = Some (r, tupd p f s)"
proof -
  have "(locks s)(ThreadListLock := True, ProcessorLock d := True, ProcessorLock d := False,
      ThreadListLock := False) = locks s"
    using free by (simp add: fun_eq_iff)
  then show ?thesis
    using assms
    by (simp add: thread_locked_def spinlock_ok thread_unlock_def thread_lower_irql_def Let_def)
      (simp add: tupd_def pupd_def unlock_def)
qed

lemma thread_close_ok:
  assumes "ThisProcessor (ThreadPool s p) = Some d" "\<not> locks s ThreadListLock" "\<not> locks s (ProcessorLock d)"
  shows "thread_close c p s = Some (tupd p (\<lambda>t. t\<lparr>HandleOpen := 0\<rparr>) s)"
  unfolding thread_close_def by (subst thread_locked_ok [OF assms, where r = "()"]) simp_all

lemma thread_suspend_ok:
  assumes "ThisProcessor (ThreadPool s p) = Some d" "\<not> locks s ThreadListLock" "\<not> locks s (ProcessorLock d)"
  shows "SuspendCount (ThreadPool s p) < 80 \<Longrightarrow> thread_suspend c p s =
      Some (uint (SuspendCount (ThreadPool s p)), tupd p (\<lambda>t. t\<lparr>SuspendCount := SuspendCount t + 1\<rparr>) s)"
    and "\<not> SuspendCount (ThreadPool s p) < 80 \<Longrightarrow> thread_suspend c p s = Some (-1, s)"
  unfolding thread_suspend_def
   apply (subst thread_locked_ok [OF assms]; simp)
  apply (subst thread_locked_ok [OF assms, where f = "\<lambda>t. t" and r = "-1"]; simp add: tupd_def)
  done

lemma thread_resume_ok:
  assumes "ThisProcessor (ThreadPool s p) = Some d" "\<not> locks s ThreadListLock" "\<not> locks s (ProcessorLock d)"
  shows "SuspendCount (ThreadPool s p) \<noteq> 0 \<Longrightarrow> thread_resume c p s =
      Some (uint (SuspendCount (ThreadPool s p)), tupd p (\<lambda>t. t\<lparr>SuspendCount := SuspendCount t - 1\<rparr>) s)"
    and "SuspendCount (ThreadPool s p) = 0 \<Longrightarrow> thread_resume c p s = Some (-1, s)"
  unfolding thread_resume_def
   apply (subst thread_locked_ok [OF assms]; simp)
  apply (subst thread_locked_ok [OF assms, where f = "\<lambda>t. t" and r = "-1"]; simp add: tupd_def)
  done

lemma thread_set_priority_ok:
  assumes "ThisProcessor (ThreadPool s p) = Some d" "\<not> locks s ThreadListLock" "\<not> locks s (ProcessorLock d)"
    and "\<not> priority > 15"
  shows "thread_set_priority c p priority s = Some (tupd p (\<lambda>t. t\<lparr>Priority := ucast priority\<rparr>) s)"
  unfolding thread_set_priority_def using assms(4)
  by (subst thread_locked_ok [OF assms(1-3), where r = "()"]) simp_all

lemma thread_set_priority_boost_ok:
  assumes "ThisProcessor (ThreadPool s p) = Some d" "\<not> locks s ThreadListLock" "\<not> locks s (ProcessorLock d)"
  shows "thread_set_priority_boost c p boost s = Some (tupd p (\<lambda>t. t\<lparr>MaxPriorityBoost := ucast boost\<rparr>) s)"
  unfolding thread_set_priority_boost_def by (subst thread_locked_ok [OF assms, where r = "()"]) simp_all

lemma thread_get_current_ok:
  assumes "\<not> locks s ThreadListLock" "\<not> locks s (ProcessorLock c)"
  shows "thread_get_current c s = Some (CurrentThread (Processors s c), s)"
  using assms relock_idem(2) [of "locks s" ThreadListLock "ProcessorLock c"]
  by (simp add: thread_get_current_def spinlock_ok thread_unlock_def thread_lower_irql_def Let_def)
    (simp add: pupd_def unlock_def)

lemma unlock_locks [simp]: "(unlock l s)\<lparr>locks := m\<rparr> = s\<lparr>locks := m\<rparr>"
  by (simp add: unlock_def)

lemma tupd_if: "(if b then tupd p f s else s) = tupd p (\<lambda>t. if b then f t else t) s"
  by (simp add: tupd_def)

section \<open>Creation\<close>

lemma link_full_front_ok:
  assumes "list_FirstThread (ThreadList s) = Some f" "list_LastThread (ThreadList s) = Some l"
  shows "returns (link_full_front p s) (\<lambda>s'.
     (\<forall>q. NextThread (ThreadPool s' q) = NextThread (ThreadPool s q)) \<and>
     (\<forall>q. PreviousThread (ThreadPool s' q) = PreviousThread (ThreadPool s q)) \<and>
     (\<forall>q. bare (ThreadPool s' q) = bare (ThreadPool s q)) \<and>
     (\<forall>q. full_linked (ThreadPool s q) \<or> q = p \<longrightarrow> full_linked (ThreadPool s' q)) \<and>
     Processors s' = Processors s \<and> locks s' = locks s \<and>
     processor_blocks s' = processor_blocks s \<and> proc_startup_address s' = proc_startup_address s \<and>
     threads_online s' = threads_online s \<and> decrementer_ticks s' = decrementer_ticks s \<and>
     ThreadList s' = (ThreadList s)\<lparr>list_FirstThread := Some p\<rparr>)"
  using assms by (simp add: link_full_front_def) (auto simp: full_linked_def tupd_pool)

text \<open>The object a fresh thread starts as.\<close>

definition new_thread :: "nat \<Rightarrow> nat \<Rightarrow> u32 \<Rightarrow> u32 \<Rightarrow> u32 \<Rightarrow> u32 \<Rightarrow> u32 \<Rightarrow> world \<Rightarrow> THREAD" where
  "new_thread c p stack ssize entrypoint argument flags s =
     zero_thread\<lparr>HandleOpen := 1, Valid := 1, ThreadId := of_nat p, StackBase := stack, StackSize := ssize,
       Priority := 7, MaxPriorityBoost := 5, ThisProcessor := Some c,
       SuspendCount := (if flags AND THREAD_FLAG_CREATE_SUSPENDED \<noteq> 0 then 1 else 0),
       Context := start_context (stack + ssize - 8) (processor_address s c) (proc_startup_address s)
         entrypoint argument zero_context, reent_ready := True\<rparr>"

lemma bare_more [simp]:
  "bare (t\<lparr>SuspendCount := v\<rparr>) = (bare t)\<lparr>SuspendCount := v\<rparr>"
  "bare (t\<lparr>reent_ready := b\<rparr>) = (bare t)\<lparr>reent_ready := b\<rparr>"
  "StackSize (bare t) = StackSize t"
  by (simp_all add: bare_def)

lemma thread_setup_ok:
  assumes ring: "proc_ring c xs s" and new: "p \<notin> set xs"
    and full: "list_FirstThread (ThreadList s) = Some f" "list_LastThread (ThreadList s) = Some l"
    and fresh: "ThreadPool s p = zero_thread\<lparr>HandleOpen := 1, Valid := 1, ThreadId := of_nat p\<rparr>"
    and lk: "\<not> locks s ThreadListLock" "locks s (ProcessorLock c)"
  shows "returns (thread_setup c p stack ssize entrypoint argument flags s) (\<lambda>s'.
     proc_ring c (p # xs) s' \<and> locks s' = locks s \<and>
     pbare (Processors s' c) = pbare (Processors s c) \<and>
     FirstSwapProcess (Processors s' c) = FirstSwapProcess (Processors s c) \<and>
     (\<forall>d. d \<noteq> c \<longrightarrow> Processors s' d = Processors s d) \<and>
     threads_online s' = threads_online s \<and> decrementer_ticks s' = decrementer_ticks s \<and>
     ThreadList s' = (ThreadList s)\<lparr>list_FirstThread := Some p\<rparr> \<and>
     (\<forall>q. q \<notin> insert p (set xs) \<longrightarrow> NextThread (ThreadPool s' q) = NextThread (ThreadPool s q) \<and>
        PreviousThread (ThreadPool s' q) = PreviousThread (ThreadPool s q)) \<and>
     (\<forall>q. full_linked (ThreadPool s q) \<or> q = p \<longrightarrow> full_linked (ThreadPool s' q)) \<and>
     (\<forall>q. bare (ThreadPool s' q) = (if q = p then new_thread c p stack ssize entrypoint argument flags s
                                      else bare (ThreadPool s q))))"
proof -
  let ?i = "\<lambda>t. t\<lparr>StackBase := stack, StackSize := ssize, Priority := 7, MaxPriorityBoost := 5, Valid := 1,
      ThisProcessor := Some c\<rparr>"
  let ?m = "(locks s)(ThreadListLock := True)"
  let ?s2 = "tupd p ?i (s\<lparr>locks := ?m\<rparr>)"
  have lk2: "(locks s)(ProcessorLock c := False, ThreadListLock := True, ProcessorLock c := True) = ?m"
    using lk by (simp add: fun_eq_iff)
  have nx: "NextThread (ThreadPool ?s2 q) = NextThread (ThreadPool s q)"
      "PreviousThread (ThreadPool ?s2 q) = PreviousThread (ThreadPool s q)" for q
    by simp_all
  have "proc_ring c xs ?s2"
    using ring proc_ring_cong [of ?s2 c s xs] by simp
  then obtain s3 where s3: "link_front c p ?s2 = Some s3" "proc_ring c (p # xs) s3"
      "outside c (insert p (set xs)) ?s2 s3"
      "FirstSwapProcess (Processors s3 c) = FirstSwapProcess (Processors s c)" "\<forall>q. bare (ThreadPool s3 q) = bare (ThreadPool ?s2 q)"
    using link_front_ok [of c xs ?s2 p] new by (auto elim!: returnsE)
  have fr: "locks s3 = ?m" "ThreadList s3 = ThreadList s" "processor_blocks s3 = processor_blocks s"
      "pbare (Processors s3 c) = pbare (Processors s c)"
      "\<And>q. full_linked (ThreadPool ?s2 q) \<Longrightarrow> full_linked (ThreadPool s3 q)"
      "\<And>d. d \<noteq> c \<Longrightarrow> Processors s3 d = Processors s d" "decrementer_ticks s3 = decrementer_ticks s"
      "\<And>q. q \<notin> insert p (set xs) \<Longrightarrow> NextThread (ThreadPool s3 q) = NextThread (ThreadPool s q)"
      "\<And>q. q \<notin> insert p (set xs) \<Longrightarrow> PreviousThread (ThreadPool s3 q) = PreviousThread (ThreadPool s q)"
    using s3(3) by (simp_all add: outside_def sched_frame_def)
  have ad: "proc_startup_address s3 = proc_startup_address s" "threads_online s3 = threads_online s"
    using s3(1) by (auto simp: link_front_def Option.bind_eq_Some_conv)
  obtain s4 where s4: "link_full_front p s3 = Some s4"
      "\<forall>q. NextThread (ThreadPool s4 q) = NextThread (ThreadPool s3 q)"
      "\<forall>q. PreviousThread (ThreadPool s4 q) = PreviousThread (ThreadPool s3 q)"
      "\<forall>q. bare (ThreadPool s4 q) = bare (ThreadPool s3 q)"
      "\<forall>q. full_linked (ThreadPool s3 q) \<or> q = p \<longrightarrow> full_linked (ThreadPool s4 q)"
      "Processors s4 = Processors s3" "locks s4 = locks s3" "processor_blocks s4 = processor_blocks s3"
      "proc_startup_address s4 = proc_startup_address s3" "threads_online s4 = threads_online s3"
      "decrementer_ticks s4 = decrementer_ticks s3"
      "ThreadList s4 = (ThreadList s3)\<lparr>list_FirstThread := Some p\<rparr>"
    using link_full_front_ok [of s3 f l p] full fr(2) by (auto elim!: returnsE)
  let ?h = "\<lambda>t. if flags AND THREAD_FLAG_CREATE_SUSPENDED \<noteq> 0 then t\<lparr>SuspendCount := 1\<rparr> else t"
  let ?g = "\<lambda>t. t\<lparr>Context := start_context (StackBase t + StackSize t - 8) (processor_address s c)
         (proc_startup_address s) entrypoint argument (Context t), reent_ready := True\<rparr>"
  define s5 where "s5 = tupd p ?g (tupd p ?h (unlock ThreadListLock s4))"
  have res: "thread_setup c p stack ssize entrypoint argument flags s = Some s5"
    using s3(1) s4(1) lk fr(3) s4(8,9)
    by (simp add: thread_setup_def s5_def processor_address_def lk2 ad tupd_if)
  have pool: "ThreadPool s5 = (ThreadPool s4)(p := ?g (?h (ThreadPool s4 p)))"
    by (simp add: s5_def tupd_pool)
  have bare5: "bare (ThreadPool s5 q) = (if q = p then new_thread c p stack ssize entrypoint argument flags s
      else bare (ThreadPool s q))" for q
  proof (cases "q = p")
    case True
    have b: "bare (ThreadPool s4 p) = ?i (zero_thread\<lparr>HandleOpen := 1, Valid := 1, ThreadId := of_nat p\<rparr>)"
      using s4(4) s3(5) fresh by (simp add: bare_def zero_thread_def)
    have comm: "bare (?g (?h t)) = ?g (?h (bare t))" for t
      by simp
    show ?thesis
      unfolding True pool fun_upd_same comm b by (simp add: new_thread_def zero_thread_def)
  next
    case False
    then show ?thesis
      using s4(4) s3(5) by (simp add: pool)
  qed
  have "NextThread (ThreadPool s5 q) = NextThread (ThreadPool s3 q)"
      "PreviousThread (ThreadPool s5 q) = PreviousThread (ThreadPool s3 q)"
      "full_linked (ThreadPool s5 q) = full_linked (ThreadPool s4 q)" for q
    using s4(2,3) by (simp_all add: pool full_linked_def)
  moreover have "Processors s5 = Processors s3"
    using s4(6) by (simp add: s5_def)
  moreover have "threads_online s5 = threads_online s" "decrementer_ticks s5 = decrementer_ticks s"
      "ThreadList s5 = (ThreadList s)\<lparr>list_FirstThread := Some p\<rparr>"
    using s4(10-12) ad(2) fr(2,7) by (simp_all add: s5_def)
  moreover have "locks s5 = locks s"
    using lk(1) by (simp add: s5_def s4(7) fr(1) fun_eq_iff)
  moreover have "full_linked (ThreadPool ?s2 q) = full_linked (ThreadPool s q)" for q
    by (simp add: tupd_pool full_linked_def)
  ultimately show ?thesis
    unfolding res using bare5 s3(2) proc_ring_cong [of s5 c s3 "p # xs"] fr(4-6,8,9) s3(4) s4(5)
    by simp
qed

text \<open>The slot that the pool hands out.\<close>

definition free_slot :: "world \<Rightarrow> nat \<Rightarrow> bool" where
  "free_slot s p \<longleftrightarrow> p < MAX_THREAD_COUNT \<and> pool_slot_free s p \<and> (\<forall>k<p. \<not> pool_slot_free s k)"

definition fresh_thread :: "nat \<Rightarrow> THREAD" where
  "fresh_thread p = zero_thread\<lparr>HandleOpen := 1, Valid := 1, ThreadId := of_nat p\<rparr>"

lemma pool_alloc_from_skip:
  "\<forall>i \<in> set is. \<not> pool_slot_free s i \<Longrightarrow>
     thread_pool_alloc_from (is @ js) s = thread_pool_alloc_from js s"
  by (induction "is") auto

lemma pool_alloc_ok: "free_slot s p \<Longrightarrow> thread_pool_alloc s = (Some p, tupd p (\<lambda>_. fresh_thread p) s)"
proof -
  assume p: "free_slot s p"
  then have "[0..<MAX_THREAD_COUNT] = [0..<p] @ p # [Suc p..<MAX_THREAD_COUNT]"
    using upt_add_eq_append [of 0 p "MAX_THREAD_COUNT - p"] upt_conv_Cons [of p MAX_THREAD_COUNT]
    by (simp add: free_slot_def)
  then show ?thesis
    using p by (simp add: thread_pool_alloc_def pool_alloc_from_skip free_slot_def fresh_thread_def)
qed

lemma pool_alloc_full:
  "\<forall>i<MAX_THREAD_COUNT. \<not> pool_slot_free s i \<Longrightarrow> thread_pool_alloc s = (None, s)"
  using pool_alloc_from_skip [of "[0..<MAX_THREAD_COUNT]" s "[]"] by (simp add: thread_pool_alloc_def)

lemma free_slot_cong [simp]:
  "free_slot (pupd c f s) p = free_slot s p" "free_slot (s\<lparr>locks := m\<rparr>) p = free_slot s p"
  by (simp_all add: free_slot_def pool_slot_free_def)

text \<open>What creation leaves alone.\<close>

definition create_frame :: "nat \<Rightarrow> nat \<Rightarrow> nat list \<Rightarrow> world \<Rightarrow> world \<Rightarrow> bool" where
  "create_frame c p xs s s' \<longleftrightarrow>
     pbare (Processors s' c) = pbare (Processors s c) \<and>
     FirstSwapProcess (Processors s' c) = FirstSwapProcess (Processors s c) \<and>
     (\<forall>d. d \<noteq> c \<longrightarrow> Processors s' d = Processors s d) \<and>
     threads_online s' = threads_online s \<and> decrementer_ticks s' = decrementer_ticks s \<and>
     ThreadList s' = (ThreadList s)\<lparr>list_FirstThread := Some p\<rparr> \<and> locks s' = locks s \<and>
     (\<forall>q. q \<notin> insert p (set xs) \<longrightarrow> NextThread (ThreadPool s' q) = NextThread (ThreadPool s q) \<and>
        PreviousThread (ThreadPool s' q) = PreviousThread (ThreadPool s q)) \<and>
     (\<forall>q. full_linked (ThreadPool s q) \<or> q = p \<longrightarrow> full_linked (ThreadPool s' q))"

lemma new_thread_cong:
  "processor_blocks s' = processor_blocks s \<Longrightarrow> proc_startup_address s' = proc_startup_address s \<Longrightarrow>
     new_thread c p stack ssize e a flags s' = new_thread c p stack ssize e a flags s"
  by (simp add: new_thread_def processor_address_def)

lemma pbare_irq: "pbare (pr\<lparr>Irq := i\<rparr>) = (pbare pr)\<lparr>Irq := i\<rparr>"
  by (simp add: pbare_def)

lemma thread_create_ok:
  assumes ring: "proc_ring c xs s" and valid: "\<forall>q \<in> set xs. Valid (ThreadPool s q) \<noteq> 0"
    and full: "list_FirstThread (ThreadList s) = Some f" "list_LastThread (ThreadList s) = Some l"
    and slot: "free_slot s p" and lk: "\<not> locks s ThreadListLock" "\<not> locks s (ProcessorLock c)"
    and mem: "memalign 16 (round_stack_size ssize) = stack" "stack \<noteq> 0"
  shows "returns (thread_create memalign c entrypoint ssize argument flags s) (\<lambda>(r, s').
     r = Some p \<and> proc_ring c (p # xs) s' \<and> create_frame c p xs s s' \<and>
     (\<forall>q. bare (ThreadPool s' q) =
        (if q = p then new_thread c p stack (round_stack_size ssize) entrypoint argument flags s
         else bare (ThreadPool s q))))"
proof -
  let ?ss = "round_stack_size ssize" and ?m = "(locks s)(ProcessorLock c := True)"
  let ?s0 = "pupd c (\<lambda>pr. pr\<lparr>Irq := 2\<rparr>) (s\<lparr>locks := ?m\<rparr>)"
  let ?s1 = "tupd p (\<lambda>_. fresh_thread p) ?s0"
  have px: "p \<notin> set xs"
    using slot valid by (auto simp: free_slot_def pool_slot_free_def)
  have "proc_ring c xs ?s1"
    by (subst proc_ring_cong [of ?s1 c s xs]) (use ring px in \<open>auto simp: tupd_pool\<close>)
  moreover have "ThreadPool ?s1 p = zero_thread\<lparr>HandleOpen := 1, Valid := 1, ThreadId := of_nat p\<rparr>"
    by (simp add: fresh_thread_def)
  ultimately obtain s2 where s2: "thread_setup c p stack ?ss entrypoint argument flags ?s1 = Some s2"
      "proc_ring c (p # xs) s2" "locks s2 = ?m"
      "pbare (Processors s2 c) = pbare (Processors ?s0 c)"
      "FirstSwapProcess (Processors s2 c) = FirstSwapProcess (Processors s c)"
      "\<And>d. d \<noteq> c \<Longrightarrow> Processors s2 d = Processors s d"
      "threads_online s2 = threads_online s" "decrementer_ticks s2 = decrementer_ticks s"
      "ThreadList s2 = (ThreadList s)\<lparr>list_FirstThread := Some p\<rparr>"
      "\<And>q. q \<notin> insert p (set xs) \<Longrightarrow> NextThread (ThreadPool s2 q) = NextThread (ThreadPool ?s1 q)"
      "\<And>q. q \<notin> insert p (set xs) \<Longrightarrow> PreviousThread (ThreadPool s2 q) = PreviousThread (ThreadPool ?s1 q)"
      "\<And>q. full_linked (ThreadPool ?s1 q) \<or> q = p \<Longrightarrow> full_linked (ThreadPool s2 q)"
      "\<And>q. bare (ThreadPool s2 q) = (if q = p then new_thread c p stack ?ss entrypoint argument flags ?s1
          else bare (ThreadPool ?s1 q))"
    using thread_setup_ok [of c xs ?s1 p f l stack ?ss entrypoint argument flags] px full lk(1)
    by (auto elim!: returnsE)
  let ?s3 = "pupd c (\<lambda>pr. pr\<lparr>Irq := Irq (Processors s c)\<rparr>) (unlock (ProcessorLock c) s2)"
  have res: "thread_create memalign c entrypoint ssize argument flags s = Some (Some p, ?s3)"
    using s2(1) lk(2) mem slot
    by (simp add: thread_create_def spinlock_ok pool_alloc_ok thread_lower_irql_def Let_def)
  have "pbare (Processors ?s3 c) = pbare (Processors s c)"
    using s2(4) by (simp add: pbare_irq) (simp add: pbare_def)
  moreover have "?m(ProcessorLock c := False) = locks s"
    using lk(2) by (simp add: fun_eq_iff)
  moreover have "full_linked (ThreadPool s q) \<or> q = p \<Longrightarrow> full_linked (ThreadPool s2 q)" for q
    using s2(12) [of q] by (auto simp: tupd_pool)
  ultimately have "create_frame c p xs s ?s3"
    using s2(3,5-11) by (simp add: create_frame_def)
  moreover have "proc_ring c (p # xs) ?s3"
    using s2(2) proc_ring_cong [of ?s3 c s2 "p # xs"] by simp
  moreover have "new_thread c p stack ?ss entrypoint argument flags ?s1 =
      new_thread c p stack ?ss entrypoint argument flags s"
    by (rule new_thread_cong) simp_all
  ultimately show ?thesis
    unfolding res using s2(13) by simp
qed

text \<open>
  The list of all threads, and everything that creation writes: the slot of the new thread, the links of its
  neighbours on the two lists, and the two list heads.
\<close>

definition full_ring :: "nat list \<Rightarrow> world \<Rightarrow> bool" where
  "full_ring zs s \<longleftrightarrow>
     list_FirstThread (ThreadList s) = Some (hd zs) \<and> list_LastThread (ThreadList s) = Some (last zs) \<and>
     ring (NextThreadFull \<circ> ThreadPool s) (PreviousThreadFull \<circ> ThreadPool s) zs"

lemma full_ring_insert:
  assumes ring: "full_ring zs s" and new: "p \<notin> set zs"
    and ends: "list_FirstThread (ThreadList s') = Some p" "list_LastThread (ThreadList s') = Some (last zs)"
    and nx: "\<forall>q. NextThreadFull (ThreadPool s' q) =
      (if q = last zs then Some p else if q = p then Some (hd zs) else NextThreadFull (ThreadPool s q))"
    and pv: "\<forall>q. PreviousThreadFull (ThreadPool s' q) =
      (if q = hd zs then Some p else if q = p then Some (last zs) else PreviousThreadFull (ThreadPool s q))"
  shows "full_ring (p # zs) s'"
proof -
  let ?n = "NextThreadFull \<circ> ThreadPool s" and ?p = "PreviousThreadFull \<circ> ThreadPool s"
  obtain x xs where zs: "zs = x # xs"
    using ring by (cases zs) (auto simp: full_ring_def)
  have ne: "p \<noteq> x" "p \<noteq> last zs"
    using new zs last_in_set [of zs] by auto
  have "NextThreadFull \<circ> ThreadPool s' = ?n(last zs := Some p, p := Some x)"
    "PreviousThreadFull \<circ> ThreadPool s' = ?p(x := Some p, p := Some (last zs))"
    using nx pv ne zs by (auto simp: fun_eq_iff)
  moreover have "ring (?n(last zs := Some p, p := Some x)) (?p(x := Some p, p := Some (last zs))) (p # zs)"
    using ring_insert [of ?n ?p x xs p] ring new unfolding full_ring_def zs by (simp del: last.simps)
  ultimately show ?thesis
    using ends zs by (simp add: full_ring_def)
qed

lemma link_front_writes:
  assumes "link_front c p s = Some s'"
  obtains m where
    "s' = s\<lparr>ThreadPool := m, Processors := (Processors s)(c := (Processors s c)\<lparr>FirstThread := Some p\<rparr>)\<rparr>"
    "\<And>q. NextThreadFull (m q) = NextThreadFull (ThreadPool s q)"
    "\<And>q. PreviousThreadFull (m q) = PreviousThreadFull (ThreadPool s q)"
    "\<And>q. NextThreadReady (m q) = NextThreadReady (ThreadPool s q)"
    "\<And>q. PreviousThreadReady (m q) = PreviousThreadReady (ThreadPool s q)"
proof -
  obtain f l where "s' = pupd c (\<lambda>pr. pr\<lparr>FirstThread := Some p\<rparr>) (tupd l (\<lambda>t. t\<lparr>NextThread := Some p\<rparr>)
      (tupd f (\<lambda>t. t\<lparr>PreviousThread := Some p\<rparr>) (tupd p (\<lambda>t. t\<lparr>PreviousThread := Some l\<rparr>)
      (tupd p (\<lambda>t. t\<lparr>NextThread := Some f\<rparr>) s))))"
    using assms by (auto simp: link_front_def Option.bind_eq_Some_conv)
  then show ?thesis
    by (intro that [of "ThreadPool s'"]) (simp_all add: tupd_def pupd_def)
qed

lemma link_full_front_writes:
  assumes "list_FirstThread (ThreadList s) = Some f" "list_LastThread (ThreadList s) = Some l"
    and "link_full_front p s = Some s'"
  obtains m where "s' = s\<lparr>ThreadPool := m, ThreadList := (ThreadList s)\<lparr>list_FirstThread := Some p\<rparr>\<rparr>"
    "\<And>q. NextThreadFull (m q) =
       (if q = l then Some p else if q = p then Some f else NextThreadFull (ThreadPool s q))"
    "\<And>q. PreviousThreadFull (m q) =
       (if q = f then Some p else if q = p then Some l else PreviousThreadFull (ThreadPool s q))"
    "\<And>q. NextThreadReady (m q) = NextThreadReady (ThreadPool s q)"
    "\<And>q. PreviousThreadReady (m q) = PreviousThreadReady (ThreadPool s q)"
proof -
  have "s' = (tupd l (\<lambda>t. t\<lparr>NextThreadFull := Some p\<rparr>) (tupd f (\<lambda>t. t\<lparr>PreviousThreadFull := Some p\<rparr>)
      (tupd p (\<lambda>t. t\<lparr>PreviousThreadFull := Some l\<rparr>) (tupd p (\<lambda>t. t\<lparr>NextThreadFull := Some f\<rparr>) s))))
      \<lparr>ThreadList := (ThreadList s)\<lparr>list_FirstThread := Some p\<rparr>\<rparr>"
    using assms by (simp add: link_full_front_def)
  then show ?thesis
    by (intro that [of "ThreadPool s'"]) (simp_all add: tupd_def)
qed

definition create_writes :: "nat \<Rightarrow> nat \<Rightarrow> nat \<Rightarrow> nat \<Rightarrow> world \<Rightarrow> world \<Rightarrow> bool" where
  "create_writes c p f l s s' \<longleftrightarrow>
     s' = s\<lparr>ThreadPool := ThreadPool s', Processors := (Processors s)(c := (Processors s c)\<lparr>FirstThread := Some p\<rparr>),
       ThreadList := (ThreadList s)\<lparr>list_FirstThread := Some p\<rparr>\<rparr> \<and>
     (\<forall>q. NextThreadFull (ThreadPool s' q) =
         (if q = l then Some p else if q = p then Some f else NextThreadFull (ThreadPool s q)) \<and>
       PreviousThreadFull (ThreadPool s' q) =
         (if q = f then Some p else if q = p then Some l else PreviousThreadFull (ThreadPool s q)) \<and>
       NextThreadReady (ThreadPool s' q) = (if q = p then None else NextThreadReady (ThreadPool s q)) \<and>
       PreviousThreadReady (ThreadPool s' q) = (if q = p then None else PreviousThreadReady (ThreadPool s q)))"

lemma thread_setup_writes:
  assumes full: "list_FirstThread (ThreadList s) = Some f" "list_LastThread (ThreadList s) = Some l"
    and lk: "\<not> locks s ThreadListLock" "locks s (ProcessorLock c)"
    and res: "thread_setup c p stack ssize entrypoint argument flags s = Some s'"
    and ready: "NextThreadReady (ThreadPool s p) = None" "PreviousThreadReady (ThreadPool s p) = None"
  shows "create_writes c p f l s s'"
proof -
  let ?i = "\<lambda>t. t\<lparr>StackBase := stack, StackSize := ssize, Priority := 7, MaxPriorityBoost := 5, Valid := 1,
      ThisProcessor := Some c\<rparr>"
  let ?m = "(locks s)(ThreadListLock := True)"
  let ?s2 = "tupd p ?i (s\<lparr>locks := ?m\<rparr>)"
  have lk2: "(locks s)(ProcessorLock c := False, ThreadListLock := True, ProcessorLock c := True) = ?m"
    using lk by (simp add: fun_eq_iff)
  obtain s3 s4 where s3: "link_front c p ?s2 = Some s3" and s4: "link_full_front p s3 = Some s4"
    using res lk by (auto simp: thread_setup_def lk2 Option.bind_eq_Some_conv Let_def split: if_splits)
  obtain m3 where m3: "s3 = ?s2\<lparr>ThreadPool := m3,
        Processors := (Processors ?s2)(c := (Processors ?s2 c)\<lparr>FirstThread := Some p\<rparr>)\<rparr>"
      "\<And>q. NextThreadFull (m3 q) = NextThreadFull (ThreadPool ?s2 q)"
      "\<And>q. PreviousThreadFull (m3 q) = PreviousThreadFull (ThreadPool ?s2 q)"
      "\<And>q. NextThreadReady (m3 q) = NextThreadReady (ThreadPool ?s2 q)"
      "\<And>q. PreviousThreadReady (m3 q) = PreviousThreadReady (ThreadPool ?s2 q)"
    using link_front_writes [OF s3] by blast
  obtain m4 where m4: "s4 = s3\<lparr>ThreadPool := m4, ThreadList := (ThreadList s3)\<lparr>list_FirstThread := Some p\<rparr>\<rparr>"
      "\<And>q. NextThreadFull (m4 q) =
         (if q = l then Some p else if q = p then Some f else NextThreadFull (ThreadPool s3 q))"
      "\<And>q. PreviousThreadFull (m4 q) =
         (if q = f then Some p else if q = p then Some l else PreviousThreadFull (ThreadPool s3 q))"
      "\<And>q. NextThreadReady (m4 q) = NextThreadReady (ThreadPool s3 q)"
      "\<And>q. PreviousThreadReady (m4 q) = PreviousThreadReady (ThreadPool s3 q)"
    using link_full_front_writes [of s3 f l p s4] s4 full m3(1) by (auto simp: tupd_def)
  have un: "(locks s)(ThreadListLock := False) = locks s"
    using lk(1) by (simp add: fun_eq_iff)
  have sel: "NextThreadFull (ThreadPool ?s2 q) = NextThreadFull (ThreadPool s q)"
      "PreviousThreadFull (ThreadPool ?s2 q) = PreviousThreadFull (ThreadPool s q)"
      "NextThreadReady (ThreadPool ?s2 q) = NextThreadReady (ThreadPool s q)"
      "PreviousThreadReady (ThreadPool ?s2 q) = PreviousThreadReady (ThreadPool s q)" for q
    by (simp_all add: tupd_def)
  let ?h = "\<lambda>t. if flags AND THREAD_FLAG_CREATE_SUSPENDED \<noteq> 0 then t\<lparr>SuspendCount := 1\<rparr> else t"
  obtain k where g: "s' = tupd p (\<lambda>t. t\<lparr>Context := k t, reent_ready := True\<rparr>) (tupd p ?h (unlock ThreadListLock s4))"
    using res lk s3 s4 by (intro that) (simp add: thread_setup_def lk2 tupd_if Let_def flip: fun_upd_def, erule sym)
  show ?thesis
    unfolding create_writes_def g m4(1) m3(1)
    using m3(2-5) m4(2-5) sel ready by (auto simp: tupd_def unlock_def un m3(1))
qed

lemma create_writes_lift:
  assumes w: "create_writes c p f l (tupd p (\<lambda>_. fresh_thread p)
      (pupd c (\<lambda>pr. pr\<lparr>Irq := i\<rparr>) (s\<lparr>locks := (locks s)(ProcessorLock c := True)\<rparr>))) s'"
    and lk: "\<not> locks s (ProcessorLock c)"
  shows "create_writes c p f l s (pupd c (\<lambda>pr. pr\<lparr>Irq := Irq (Processors s c)\<rparr>) (unlock (ProcessorLock c) s'))"
proof -
  have un: "(locks s)(ProcessorLock c := False) = locks s"
    using lk by (simp add: fun_eq_iff)
  let ?s1 = "tupd p (\<lambda>_. fresh_thread p) (pupd c (\<lambda>pr. pr\<lparr>Irq := i\<rparr>) (s\<lparr>locks := (locks s)(ProcessorLock c := True)\<rparr>))"
  define m where "m = ThreadPool s'"
  have "s' = ?s1\<lparr>ThreadPool := m, Processors := (Processors ?s1)(c := (Processors ?s1 c)\<lparr>FirstThread := Some p\<rparr>),
      ThreadList := (ThreadList ?s1)\<lparr>list_FirstThread := Some p\<rparr>\<rparr>"
    using w unfolding create_writes_def m_def by blast
  then have res: "pupd c (\<lambda>pr. pr\<lparr>Irq := Irq (Processors s c)\<rparr>) (unlock (ProcessorLock c) s') =
      s\<lparr>ThreadPool := m, Processors := (Processors s)(c := (Processors s c)\<lparr>FirstThread := Some p\<rparr>),
        ThreadList := (ThreadList s)\<lparr>list_FirstThread := Some p\<rparr>\<rparr>"
    by (simp add: tupd_def pupd_def unlock_def un)
  show ?thesis
    unfolding create_writes_def res using w unfolding create_writes_def m_def by simp
qed

lemma thread_create_writes:
  assumes full: "list_FirstThread (ThreadList s) = Some f" "list_LastThread (ThreadList s) = Some l"
    and slot: "free_slot s p" and lk: "\<not> locks s ThreadListLock" "\<not> locks s (ProcessorLock c)"
    and mem: "memalign 16 (round_stack_size ssize) = stack" "stack \<noteq> 0"
    and res: "thread_create memalign c entrypoint ssize argument flags s = Some (r, s')"
  shows "create_writes c p f l s s'"
proof -
  let ?s1 = "tupd p (\<lambda>_. fresh_thread p) (pupd c (\<lambda>pr. pr\<lparr>Irq := 2\<rparr>) (s\<lparr>locks := (locks s)(ProcessorLock c := True)\<rparr>))"
  obtain s2 where s2: "thread_setup c p stack (round_stack_size ssize) entrypoint argument flags ?s1 = Some s2"
      and s': "s' = pupd c (\<lambda>pr. pr\<lparr>Irq := Irq (Processors s c)\<rparr>) (unlock (ProcessorLock c) s2)"
    using res lk(2) mem slot
    by (auto simp: thread_create_def spinlock_ok pool_alloc_ok thread_lower_irql_def Let_def Option.bind_eq_Some_conv)
  have "create_writes c p f l ?s1 s2"
    by (rule thread_setup_writes [OF _ _ _ _ s2])
      (use full lk in \<open>simp_all add: fresh_thread_def zero_thread_def\<close>)
  then show ?thesis
    unfolding s' using lk(2) by (rule create_writes_lift)
qed

text \<open>Creation fails when no stack or no slot is to be had, and then nothing has changed.\<close>

lemma thread_create_fails:
  assumes lk: "\<not> locks s (ProcessorLock c)"
    and none: "memalign 16 (round_stack_size ssize) = 0 \<or> (\<forall>i<MAX_THREAD_COUNT. \<not> pool_slot_free s i)"
  shows "thread_create memalign c entrypoint ssize argument flags s = Some (None, s)"
proof -
  let ?s0 = "pupd c (\<lambda>pr. pr\<lparr>Irq := 2\<rparr>) (s\<lparr>locks := (locks s)(ProcessorLock c := True)\<rparr>)"
  have "memalign 16 (round_stack_size ssize) = 0 \<or> thread_pool_alloc ?s0 = (None, ?s0)"
    using none pool_alloc_full [of ?s0] by (auto simp: pool_slot_free_def)
  moreover have "snd (thread_lower_irql c (ucast (Irq (Processors s c))) (unlock (ProcessorLock c) ?s0)) = s"
    using lk relock_idem(1) [of "locks s" "ProcessorLock c"]
    by (simp add: thread_lower_irql_def unlock_def pupd_def)
  ultimately show ?thesis
    using lk by (auto simp: thread_create_def spinlock_ok Let_def)
qed

section \<open>Stack sizes\<close>

lemma and_split: "(x AND NOT m) + (x AND m) = (x :: u32)"
proof -
  have "(x AND NOT m) + (x AND m) = (x AND NOT m) OR (x AND m)"
    by (rule disjunctive_add) (auto simp: bit_simps)
  also have "\<dots> = x"
    by (rule bit_word_eqI) (auto simp: bit_simps)
  finally show ?thesis .
qed

lemma unat_and_3FF: "unat (x AND 0x3FF) = unat (x :: u32) mod 1024"
proof -
  have "unat (take_bit 10 x) = unat x mod 1024"
    by (simp add: take_bit_eq_mod unat_mod_distrib)
  moreover have "x AND 0x3FF = take_bit 10 x"
    by (simp add: take_bit_eq_mask mask_eq_exp_minus_1)
  ultimately show ?thesis
    by simp
qed

lemma unat_and_FC00: "unat ((x :: u32) AND 0xFFFFFC00) = unat x - unat x mod 1024"
proof -
  have "(0xFFFFFC00 :: u32) = NOT 0x3FF"
    by simp
  then have "x AND 0xFFFFFC00 = x - (x AND 0x3FF)"
    using and_split [of x "0x3FF"] by (simp only: eq_diff_eq)
  moreover have "(x AND 0x3FF) \<le> x"
    by (simp add: word_and_le2)
  ultimately show ?thesis
    using unat_sub [of "x AND 0x3FF" x] by (simp add: unat_and_3FF)
qed

lemma round_stack_unat:
  assumes "unat n \<le> 0xFFFFF000"
  shows "unat (round_stack_size n) =
    (let m = max (unat n) 16384 in if m mod 1024 = 0 then m else m - m mod 1024 + 4096)"
proof -
  define m where "m = (if n < 16 * 1024 then 16 * 1024 else n)"
  have m: "unat m = max (unat n) 16384"
    by (simp add: m_def word_less_nat_alt max_def)
  have z: "m AND 0x3FF = 0 \<longleftrightarrow> unat m mod 1024 = 0"
    using unat_and_3FF [of m] by (metis unat_0 unsigned_eq_0_iff)
  have "unat ((m AND 0xFFFFFC00) + 0x1000) = unat (m AND 0xFFFFFC00) + 4096" if "unat m mod 1024 \<noteq> 0"
  proof -
    have "unat m \<noteq> 0xFFFFF000"
      using that by (intro notI) simp
    moreover have "unat m \<le> 0xFFFFF000"
      using assms m by simp
    ultimately have "unat m < 0xFFFFF000"
      by simp
    then show ?thesis
      using that by (simp add: unat_word_ariths unat_and_FC00)
  qed
  moreover have "round_stack_size n = (if m AND 0x3FF \<noteq> 0 then (m AND 0xFFFFFC00) + 0x1000 else m)"
    by (simp only: round_stack_size_def m_def Let_def)
  ultimately show ?thesis
    using m z by (simp add: Let_def unat_and_FC00)
qed

end
