(* ===== verification/Threads_Sleep.thy ===== *)
theory Threads_Sleep
  imports Threads_Ops_Lemmas
begin

text \<open>
  Threads that must not run: a sleeping thread is passed over until its time is up, a suspended
  one until it is resumed.
\<close>

section \<open>Sleeping\<close>

definition asleep :: "nat \<Rightarrow> nat \<Rightarrow> u32 \<Rightarrow> world \<Rightarrow> world" where
  "asleep c cur ms s = tupd cur (\<lambda>t. t\<lparr>SleepTime := millisecond_clock_time s + ucast ms\<rparr>)
     (pupd c (\<lambda>pr. pr\<lparr>Irq := 2\<rparr>) s)"

lemma thread_sleep_asleep:
  assumes "\<not> locks s (ProcessorLock c)" "CurrentThread (Processors s c) = Some cur"
  shows "thread_sleep call c ms s = system_call_handler call c (asleep c cur ms s)"
  using assms relock_idem(1) [of "locks s" "ProcessorLock c"]
  by (simp add: thread_sleep_def thread_raise_irql_def Let_def)
    (simp add: asleep_def tupd_def pupd_def unlock_def)

lemma asleep_reads [simp]:
  "reapable (ThreadPool (asleep c cur ms s) q) = reapable (ThreadPool s q)"
  "full_linked (ThreadPool (asleep c cur ms s) q) = full_linked (ThreadPool s q)"
  "NextThread (ThreadPool (asleep c cur ms s) q) = NextThread (ThreadPool s q)"
  "PreviousThread (ThreadPool (asleep c cur ms s) q) = PreviousThread (ThreadPool s q)"
  "Context (ThreadPool (asleep c cur ms s) q) = Context (ThreadPool s q)"
  "q \<noteq> cur \<Longrightarrow> ThreadPool (asleep c cur ms s) q = ThreadPool s q"
  "SleepTime (ThreadPool (asleep c cur ms s) cur) = millisecond_clock_time s + ucast ms"
  "millisecond_clock_time (asleep c cur ms s) = millisecond_clock_time s"
  "processor_blocks (asleep c cur ms s) = processor_blocks s"
  "locks (asleep c cur ms s) = locks s"
  by (simp_all add: asleep_def tupd_pool reapable_def full_linked_def)

lemma asleep_processor [simp]:
  "CurrentThread (Processors (asleep c cur ms s) c) = CurrentThread (Processors s c)"
  "FirstThread (Processors (asleep c cur ms s) c) = FirstThread (Processors s c)"
  "LastThread (Processors (asleep c cur ms s) c) = LastThread (Processors s c)"
  "FirstSwapProcess (Processors (asleep c cur ms s) c) = FirstSwapProcess (Processors s c)"
  "DPCList (Processors (asleep c cur ms s) c) = DPCList (Processors s c)"
  "ProcessingDPC (Processors (asleep c cur ms s) c) = ProcessingDPC (Processors s c)"
  "frame_of (Processors (asleep c cur ms s) c) = frame_of (Processors s c)"
  by (simp_all add: asleep_def frame_of_def)

lemma asleep_ok: "sched_ok c xs ys s \<Longrightarrow> sched_ok c xs ys (asleep c cur ms s)"
  using proc_ring_cong [of "asleep c cur ms s" c s xs] swap_list_cong [of "asleep c cur ms s" c s ys]
  by (simp add: sched_ok_def)

lemma asleep_not_ready:
  assumes "millisecond_clock_time s + ucast ms \<noteq> 0"
  shows "\<not> sched_ready (stepped c (asleep c cur ms s) xs ys cur)"
proof -
  have "\<not> sint (ucast ms :: u64) < 0"
    by (simp add: sint_ucast_u32)
  then show ?thesis
    using assms by (auto simp: stepped_def sched_ready_def swept_def wake_def arrived_def)
qed

lemma asleep_runnable:
  assumes "millisecond_clock_time s + ucast ms \<noteq> 0"
  shows "set (runnable c (asleep c cur ms s) xs ys) = set (runnable c s xs ys) - {cur}"
proof -
  have "visited (asleep c cur ms s) xs = visited s xs"
    by (simp add: visited_def)
  then have "sched_ready (stepped c (asleep c cur ms s) xs ys q) =
      (q \<noteq> cur \<and> sched_ready (stepped c s xs ys q))" for q
    using asleep_not_ready [OF assms, of c cur xs ys] by (cases "q = cur") (simp_all add: stepped_def)
  moreover have "offered (asleep c cur ms s) xs ys = offered s xs ys"
    by (simp add: offered_def survivors_def)
  ultimately show ?thesis
    by (auto simp: runnable_def)
qed

lemma thread_sleep_ok:
  assumes ok: "sched_ok c xs ys s" and cur: "CurrentThread (Processors s c) = Some cur" "cur \<notin> set ys"
    and other: "q \<noteq> cur" "q \<in> set (runnable c s xs ys)"
    and wakeable: "millisecond_clock_time s + ucast ms \<noteq> 0"
    and free: "\<not> locks s (ProcessorLock c)"
    and quiet: "DPCList (Processors s c) = None" "\<not> locks s (DPCLock c)" "ProcessingDPC (Processors s c) = 0"
  shows "returns (thread_sleep call c ms s) (\<lambda>s'.
     (\<exists>win. CurrentThread (Processors s' c) = Some win \<and> win \<noteq> cur \<and> win \<in> set (runnable c s xs ys)) \<and>
     Context (ThreadPool s' cur) = frame_of (Processors s c) \<and>
     SleepTime (ThreadPool s' cur) = millisecond_clock_time s + ucast ms)"
proof -
  let ?s = "asleep c cur ms s"
  have rs: "set (runnable c ?s xs ys) = set (runnable c s xs ys) - {cur}"
    using wakeable by (rule asleep_runnable)
  then obtain r rs where run: "runnable c ?s xs ys = r # rs"
    using other by (cases "runnable c ?s xs ys") auto
  let ?win = "best (\<lambda>q. eff_priority (ThreadPool ?s q)) r rs"
  have win: "?win \<noteq> cur" "?win \<in> set (runnable c s xs ys)"
    using best_in [of "\<lambda>q. eff_priority (ThreadPool ?s q)" r rs] rs unfolding run by auto
  have st: "SleepTime (stepped c ?s xs ys cur) = millisecond_clock_time s + ucast ms"
    using cur(2) by (simp add: stepped_def swept_def wake_def sint_ucast_u32)
  have cur': "CurrentThread (Processors ?s c) = Some cur"
    using cur(1) by simp
  have sw: "returns (system_call_handler call c ?s) (\<lambda>s'. CurrentThread (Processors s' c) = Some ?win \<and>
      (\<forall>q. Context (ThreadPool s' q) = resume_frame c ?s xs ys cur q) \<and>
      (\<forall>q. bare (ThreadPool s' q) = (after_round cur ?win (r # rs) q
          (bare (stepped c ?s xs ys q)))\<lparr>Context := resume_frame c ?s xs ys cur q\<rparr>))"
    unfolding system_call_switch [OF cur']
    by (rule returns_mono [OF switch_ok [OF asleep_ok [OF ok] run cur' cur(2)]])
      (use free quiet in simp_all)
  show ?thesis
    unfolding thread_sleep_asleep [OF free cur(1)]
  proof (rule returns_mono [OF sw], elim conjE)
    fix s'
    assume w: "CurrentThread (Processors s' c) = Some ?win"
      and cx: "\<forall>q. Context (ThreadPool s' q) = resume_frame c ?s xs ys cur q"
      and b: "\<forall>q. bare (ThreadPool s' q) = (after_round cur ?win (r # rs) q
          (bare (stepped c ?s xs ys q)))\<lparr>Context := resume_frame c ?s xs ys cur q\<rparr>"
    have "SleepTime (ThreadPool s' cur) = millisecond_clock_time s + ucast ms"
      using arg_cong [OF b [THEN spec, of cur], of SleepTime] st by simp
    moreover have "Context (ThreadPool s' cur) = frame_of (Processors s c)"
      using cx by (simp add: resume_frame_def)
    ultimately show "(\<exists>win. CurrentThread (Processors s' c) = Some win \<and> win \<noteq> cur \<and>
          win \<in> set (runnable c s xs ys)) \<and>
        Context (ThreadPool s' cur) = frame_of (Processors s c) \<and>
        SleepTime (ThreadPool s' cur) = millisecond_clock_time s + ucast ms"
      using w win by blast
  qed
qed

text \<open>How long: the timer is cleared by the first round after the full time has passed.\<close>

lemma int_unat: "int (unat x) = uint x"
  by simp

lemma sleep_timer_exact:
  assumes st: "SleepTime (ThreadPool s p) = now + ucast (ms :: u32)" "now + ucast ms \<noteq> 0"
    and k: "k < 2 ^ 63" and clk: "millisecond_clock_time s = now + of_nat k"
  shows "SleepTime (ThreadPool (sched_timer p s) p) = (if k \<le> unat ms then now + ucast ms else 0)"
proof -
  have d: "SleepTime (ThreadPool s p) - millisecond_clock_time s = of_int (uint ms - int k)"
    using st clk by (simp add: unsigned_ucast_eq)
  have si: "sint (of_int (uint ms - int k) :: u64) = uint ms - int k"
  proof -
    have "uint ms < 4294967296" "0 \<le> uint ms" "int k < 9223372036854775808"
      using uint_lt2p [of ms] k by simp_all
    then have "- 9223372036854775808 \<le> uint ms - int k" "uint ms - int k < 9223372036854775808"
      by (linarith, linarith)
    then have "signed_take_bit 63 (uint ms - int k) = uint ms - int k"
      by (intro signed_take_bit_int_eq_self) simp_all
    then show ?thesis
      by (subst signed_of_int) simp
  qed
  have lt: "uint ms - int k < 0 \<longleftrightarrow> \<not> k \<le> unat ms"
    unfolding int_unat [symmetric] by linarith
  have "sint (SleepTime (ThreadPool s p) - millisecond_clock_time s) < 0 \<longleftrightarrow> \<not> k \<le> unat ms"
    unfolding d si lt ..
  moreover have "SleepTime (ThreadPool s p) \<noteq> 0"
    using st by simp
  ultimately show ?thesis
    unfolding sched_timer_pool wake_def using st(1) by simp
qed

section \<open>Suspension\<close>

lemma suspended_not_runnable:
  assumes "SuspendCount (ThreadPool s p) \<noteq> 0"
  shows "p \<notin> set (runnable c s xs ys)"
proof -
  have "SuspendCount (stepped c s xs ys p) = SuspendCount (ThreadPool s p)"
    by (simp add: stepped_def arrived_def swept_def wake_def)
  then show ?thesis
    using assms by (simp add: runnable_def sched_ready_def)
qed

lemma suspended_never_wins:
  assumes "sched_ok c xs ys s" and "runnable c s xs ys \<noteq> []" and "SuspendCount (ThreadPool s p) \<noteq> 0"
  shows "returns (thread_schedule_core c s) (\<lambda>(win, s'). win \<noteq> p)"
proof -
  obtain r rs where run: "runnable c s xs ys = r # rs"
    using assms(2) by (cases "runnable c s xs ys") auto
  have "best (\<lambda>q. eff_priority (ThreadPool s q)) r rs \<noteq> p"
    using best_in [of _ r rs] suspended_not_runnable [OF assms(3)] run by metis
  then show ?thesis
    by (intro returns_mono [OF schedule_core_ok [OF assms(1) run]]) auto
qed

end
