(* ===== verification/Threads_Migrate.thy ===== *)
theory Threads_Migrate
  imports Threads_Ops_Lemmas
begin

text \<open>
  Moving a thread to another processor: \<open>thread_set_processor\<close> takes it off the list of its
  processor and hands it to the swap list of the new one, where the scheduler picks it up.
\<close>

section \<open>Migration\<close>

lemma unlink_from_processor_ok:
  assumes ring: "proc_ring c (us @ p # vs) s" and ne: "us @ vs \<noteq> []"
    and here: "ThisProcessor (ThreadPool s p) = Some c"
  shows "returns (unlink_from_processor p s) (\<lambda>s'. proc_ring c (us @ vs) s' \<and>
           outside c (set (us @ vs)) s s' \<and>
           FirstSwapProcess (Processors s' c) = FirstSwapProcess (Processors s c) \<and>
           (\<forall>q. bare (ThreadPool s' q) = bare (ThreadPool s q)))"
proof -
  obtain a b where nb: "NextThread (ThreadPool s p) = Some b" "PreviousThread (ThreadPool s p) = Some a"
      "a \<noteq> p" "b \<noteq> p" "a \<in> set (us @ vs)" "b \<in> set (us @ vs)"
    and r: "ring ((NextThread \<circ> ThreadPool s)(a := Some b))
       ((PreviousThread \<circ> ThreadPool s)(b := Some a)) (us @ vs)"
    using proc_ring_neighbours [OF ring ne] by blast
  obtain s1 where s1: "unlink_thread p s = Some s1"
      "NextThread \<circ> ThreadPool s1 = (NextThread \<circ> ThreadPool s)(a := Some b)"
      "PreviousThread \<circ> ThreadPool s1 = (PreviousThread \<circ> ThreadPool s)(b := Some a)"
      "Processors s1 = Processors s" "sched_frame c s s1"
      "\<And>q. bare (ThreadPool s1 q) = bare (ThreadPool s q)"
      "\<And>q. full_linked (ThreadPool s q) \<Longrightarrow> full_linked (ThreadPool s1 q)"
    using unlink_thread_maps [of s p b a c] nb by (auto elim: returnsE)
  let ?s2 = "drop_from_ends c p s1"
  have "ThisProcessor (ThreadPool s1 p) = Some c"
    using arg_cong [OF s1(6) [of p], of ThisProcessor] here by simp
  then have eq: "unlink_from_processor p s = Some ?s2"
    using s1(1) by (simp add: unlink_from_processor_def)
  have link: "NextThread (ThreadPool s1 q) = (if q = a then Some b else NextThread (ThreadPool s q))"
      "PreviousThread (ThreadPool s1 q) = (if q = b then Some a else PreviousThread (ThreadPool s q))"
    for q
    using fun_cong [OF s1(2), of q] fun_cong [OF s1(3), of q] by simp_all
  have ends: "FirstThread (Processors s c) = Some (hd (us @ p # vs))"
      "LastThread (Processors s c) = Some (last (us @ p # vs))"
    using ring by (simp_all add: proc_ring_def)
  have "hd (us @ p # vs) = p \<longleftrightarrow> us = []" "last (us @ p # vs) = p \<longleftrightarrow> vs = []"
    using proc_ring_distinct [OF ring] by (cases us; auto)+
  moreover have "us = [] \<Longrightarrow> b = hd vs" "vs = [] \<Longrightarrow> a = last us"
    using proc_ring_next [OF ring] proc_ring_prev [OF ring] nb ne by (auto simp: hd_append)
  ultimately have "proc_ring c (us @ vs) ?s2"
    using r nb ends link s1 ne by (auto simp: proc_ring_def hd_append)
  moreover have "outside c (set (us @ vs)) s ?s2"
    using s1 link nb sched_frame_trans [of c s s1 ?s2] by (auto simp: outside_def)
  ultimately show ?thesis
    unfolding eq using s1(4,6) by simp
qed

lemma push_swap_list_ok:
  assumes sw: "swap_list n ys s" and last: "LastSwapProcess (Processors s n) = None" and new: "p \<notin> set ys"
  shows "swap_list n (p # ys) (push_swap_list n p s)"
proof (cases ys)
  case Nil
  then show ?thesis
    using assms by (simp add: swap_list_def push_swap_list_def Let_def)
next
  case (Cons y zs)
  have f: "FirstSwapProcess (Processors s n) = Some y" and yz: "p \<noteq> y" "p \<notin> set zs" "y \<notin> set zs" "distinct zs"
      and ch: "nchain (NextThread \<circ> ThreadPool s) (PreviousThread \<circ> ThreadPool s) (Some y)
        (NextThread (ThreadPool s y)) zs"
    using sw new by (auto simp: swap_list_def Cons)
  have "nchain ((NextThread \<circ> ThreadPool s)(p := x)) ((PreviousThread \<circ> ThreadPool s)(p := u, y := v)) (Some y)
      (NextThread (ThreadPool s y)) zs" for x u v
    by (subst nchain_cong [of zs _ "NextThread \<circ> ThreadPool s" _ "PreviousThread \<circ> ThreadPool s"])
      (use ch yz in auto)
  then show ?thesis
    using f last yz by (simp add: swap_list_def push_swap_list_def Let_def Cons)
qed

lemma push_swap_list_frame:
  assumes "LastSwapProcess (Processors s n) = None"
  shows "q \<noteq> p \<Longrightarrow> FirstSwapProcess (Processors s n) \<noteq> Some q \<Longrightarrow>
      ThreadPool (push_swap_list n p s) q = ThreadPool s q"
    "bare (ThreadPool (push_swap_list n p s) q) = bare (ThreadPool s q)"
    "full_linked (ThreadPool (push_swap_list n p s) q) = full_linked (ThreadPool s q)"
    "d \<noteq> n \<Longrightarrow> Processors (push_swap_list n p s) d = Processors s d"
    "Processors (push_swap_list n p s) n = (Processors s n)\<lparr>FirstSwapProcess := Some p\<rparr>"
    "locks (push_swap_list n p s) = locks s"
  using assms by (auto simp: push_swap_list_def Let_def full_linked_def split: option.splits)

text \<open>
  Moving a thread: it leaves the ring of its processor and heads the swap list of the other.
\<close>

lemma thread_move_ok:
  assumes ring: "proc_ring c (us @ p # vs) s" and ne: "us @ vs \<noteq> []"
    and here: "ThisProcessor (ThreadPool s p) = Some c" and other: "n \<noteq> c"
    and sw: "swap_list n ys s" "LastSwapProcess (Processors s n) = None"
    and disj: "set (us @ p # vs) \<inter> set ys = {}"
    and lk: "\<not> locks s (ProcessorLock n)" "\<not> locks s (SwapProcessLock n)"
  shows "returns (thread_move p n s) (\<lambda>s'. proc_ring c (us @ vs) s' \<and> swap_list n (p # ys) s' \<and>
     locks s' = locks s \<and>
     (\<forall>q. bare (ThreadPool s' q) = (if q = p then (bare (ThreadPool s q))\<lparr>ThisProcessor := Some n\<rparr>
        else bare (ThreadPool s q))) \<and>
     (\<forall>q. full_linked (ThreadPool s q) \<longrightarrow> full_linked (ThreadPool s' q)) \<and>
     pbare (Processors s' c) = pbare (Processors s c) \<and> pbare (Processors s' n) = pbare (Processors s n) \<and>
     (\<forall>d. d \<noteq> c \<and> d \<noteq> n \<longrightarrow> Processors s' d = Processors s d) \<and>
     FirstThread (Processors s' n) = FirstThread (Processors s n) \<and>
     LastThread (Processors s' n) = LastThread (Processors s n) \<and>
     (\<forall>q. q \<notin> set (us @ p # vs) \<union> set ys \<longrightarrow>
        NextThread (ThreadPool s' q) = NextThread (ThreadPool s q) \<and>
        PreviousThread (ThreadPool s' q) = PreviousThread (ThreadPool s q)))"
proof -
  let ?s0 = "s\<lparr>locks := (locks s)(ProcessorLock n := True)\<rparr>"
  have "proc_ring c (us @ p # vs) ?s0" "ThisProcessor (ThreadPool ?s0 p) = Some c"
    using ring here by simp_all
  from unlink_from_processor_ok [OF this(1) ne this(2)] obtain s1 where s1:
      "unlink_from_processor p ?s0 = Some s1" "proc_ring c (us @ vs) s1" "outside c (set (us @ vs)) ?s0 s1"
      "\<And>q. bare (ThreadPool s1 q) = bare (ThreadPool s q)"
    by (auto elim!: returnsE)
  have fr: "locks s1 = (locks s)(ProcessorLock n := True)" "pbare (Processors s1 c) = pbare (Processors s c)"
      "\<And>d. d \<noteq> c \<Longrightarrow> Processors s1 d = Processors s d"
      "\<And>q. full_linked (ThreadPool s q) \<Longrightarrow> full_linked (ThreadPool s1 q)"
      "\<And>q. q \<notin> set (us @ vs) \<Longrightarrow> NextThread (ThreadPool s1 q) = NextThread (ThreadPool s q)"
      "\<And>q. q \<notin> set (us @ vs) \<Longrightarrow> PreviousThread (ThreadPool s1 q) = PreviousThread (ThreadPool s q)"
    using s1(3) by (simp_all add: outside_def sched_frame_def)
  let ?s2 = "s1\<lparr>locks := (locks s1)(SwapProcessLock n := True)\<rparr>"
  have py: "p \<notin> set ys" and dist: "distinct (us @ p # vs)"
    using disj proc_ring_distinct [OF ring] by auto
  have "swap_list n ys ?s2"
    using sw(1) disj fr(3,5,6) other swap_list_cong [of s1 n s ys] by auto
  moreover have l2: "LastSwapProcess (Processors ?s2 n) = None"
    using sw(2) fr(3) other by simp
  ultimately have sw3: "swap_list n (p # ys) (push_swap_list n p ?s2)"
    using py by (rule push_swap_list_ok)
  define s3 where "s3 = push_swap_list n p ?s2"
  note fr3 = push_swap_list_frame [OF l2, where p = p, folded s3_def]
  have first: "FirstSwapProcess (Processors ?s2 n) \<noteq> Some q" if "q \<notin> set ys" for q
    using that sw(1) fr(3) other by (cases ys) (auto simp: swap_list_def)
  let ?s4 = "unlock (ProcessorLock n) (tupd p (\<lambda>t. t\<lparr>ThisProcessor := Some n\<rparr>) (unlock (SwapProcessLock n) s3))"
  have res: "thread_move p n s = Some ?s4"
    using s1(1) lk fr(1) by (simp add: thread_move_def s3_def)
  have same: "ThreadPool s3 q = ThreadPool s1 q" if "q \<noteq> p" "q \<notin> set ys" for q
    using fr3(1) [OF that(1) first [OF that(2)]] by simp
  have pr: "Processors s3 d = (if d = n then (Processors s n)\<lparr>FirstSwapProcess := Some p\<rparr> else Processors s1 d)" for d
    using fr3(4) [of d] fr3(5) fr(3) [OF other] by auto
  have links: "NextThread (ThreadPool ?s4 q) = NextThread (ThreadPool s3 q)"
      "PreviousThread (ThreadPool ?s4 q) = PreviousThread (ThreadPool s3 q)"
      "full_linked (ThreadPool ?s4 q) = full_linked (ThreadPool s3 q)" for q
    by (simp_all add: tupd_pool full_linked_def)
  have uv: "q \<noteq> p \<and> q \<notin> set ys" if "q \<in> set (us @ vs)" for q
    using that disj dist by auto
  have "proc_ring c (us @ vs) ?s4"
    by (subst proc_ring_cong [of ?s4 c s1]) (use s1(2) other pr links(1,2) same uv in auto)
  moreover have "swap_list n (p # ys) ?s4"
    by (subst swap_list_cong [of ?s4 n s3]) (use sw3 in \<open>auto simp: s3_def\<close>)
  moreover have "locks ?s4 = locks s"
    using lk fr3(6) fr(1) by (simp add: fun_eq_iff)
  moreover have "bare (ThreadPool ?s4 q) = (if q = p then (bare (ThreadPool s q))\<lparr>ThisProcessor := Some n\<rparr>
      else bare (ThreadPool s q))" for q
    using fr3(2) s1(4) by (simp add: tupd_pool)
  moreover have "full_linked (ThreadPool s q) \<Longrightarrow> full_linked (ThreadPool ?s4 q)" for q
    using links(3) [of q] fr3(3) [of q] fr(4) [of q] by simp
  moreover have "NextThread (ThreadPool ?s4 q) = NextThread (ThreadPool s q)"
      "PreviousThread (ThreadPool ?s4 q) = PreviousThread (ThreadPool s q)"
    if "q \<notin> set (us @ p # vs) \<union> set ys" for q
    using that links(1,2) [of q] same [of q] fr(5,6) [of q] by auto
  ultimately show ?thesis
    unfolding res using pr fr(2,3) other by simp
qed

lemma thread_set_processor_ok:
  assumes ring: "proc_ring old (us @ p # vs) s" and ne: "us @ vs \<noteq> []"
    and here: "ThisProcessor (ThreadPool s p) = Some old" and other: "n \<noteq> old"
    and target: "sched_ok n xs ys s" "LastSwapProcess (Processors s n) = None"
    and disj: "set (us @ p # vs) \<inter> (set xs \<union> set ys) = {}"
    and lk: "\<not> locks s ThreadListLock" "\<not> locks s (ProcessorLock old)" "\<not> locks s (ProcessorLock n)"
      "\<not> locks s (ProcessorLock c)"
    and away: "CurrentThread (Processors s c) \<noteq> Some p"
  shows "returns (thread_set_processor call c p n s) (\<lambda>s'. proc_ring old (us @ vs) s' \<and>
     sched_ok n xs (p # ys) s' \<and> locks s' = locks s \<and>
     (\<forall>q. bare (ThreadPool s' q) = (if q = p then (bare (ThreadPool s q))\<lparr>ThisProcessor := Some n\<rparr>
        else bare (ThreadPool s q))) \<and>
     (\<forall>d. pbare (Processors s' d) = pbare (Processors s d)))"
proof -
  let ?m = "(locks s)(ThreadListLock := True, ProcessorLock old := True)"
  let ?s0 = "pupd c (\<lambda>pr. pr\<lparr>Irq := 2\<rparr>) (s\<lparr>locks := ?m\<rparr>)"
  have pr0: "FirstThread (Processors ?s0 d) = FirstThread (Processors s d)"
      "LastThread (Processors ?s0 d) = LastThread (Processors s d)"
      "FirstSwapProcess (Processors ?s0 d) = FirstSwapProcess (Processors s d)"
      "LastSwapProcess (Processors ?s0 d) = LastSwapProcess (Processors s d)" for d
    by (cases "d = c"; simp)+
  have "proc_ring old (us @ p # vs) ?s0"
    by (subst proc_ring_cong [of ?s0 old s]) (use ring pr0 in auto)
  moreover have "swap_list n ys ?s0"
    by (subst swap_list_cong [of ?s0 n s]) (use target(1) pr0 in \<open>auto simp: sched_ok_def\<close>)
  moreover have "set (us @ p # vs) \<inter> set ys = {}"
    using disj by auto
  moreover have "\<not> locks ?s0 (ProcessorLock n)" "\<not> locks ?s0 (SwapProcessLock n)"
    using lk(3) other target(1) by (simp_all add: sched_ok_def)
  ultimately obtain s1 where s1: "thread_move p n ?s0 = Some s1" "proc_ring old (us @ vs) s1"
      "swap_list n (p # ys) s1" "locks s1 = ?m"
      "\<And>q. bare (ThreadPool s1 q) = (if q = p then (bare (ThreadPool s q))\<lparr>ThisProcessor := Some n\<rparr>
        else bare (ThreadPool s q))"
      "\<And>q. full_linked (ThreadPool s q) \<Longrightarrow> full_linked (ThreadPool s1 q)"
      "pbare (Processors s1 old) = pbare (Processors ?s0 old)"
      "pbare (Processors s1 n) = pbare (Processors ?s0 n)"
      "\<And>d. d \<noteq> old \<Longrightarrow> d \<noteq> n \<Longrightarrow> Processors s1 d = Processors ?s0 d"
      "FirstThread (Processors s1 n) = FirstThread (Processors ?s0 n)"
      "LastThread (Processors s1 n) = LastThread (Processors ?s0 n)"
      "\<And>q. q \<notin> set (us @ p # vs) \<union> set ys \<Longrightarrow> NextThread (ThreadPool s1 q) = NextThread (ThreadPool s q)"
      "\<And>q. q \<notin> set (us @ p # vs) \<union> set ys \<Longrightarrow>
         PreviousThread (ThreadPool s1 q) = PreviousThread (ThreadPool s q)"
    using thread_move_ok [of old us p vs ?s0 n ys] ne here other target(2) pr0(4)
    by (auto elim!: returnsE)
  have pb1: "pbare (Processors s1 d) = pbare (Processors ?s0 d)" for d
    using s1(7-9) by (cases "d = old"; cases "d = n") auto
  let ?s2 = "pupd c (\<lambda>pr. pr\<lparr>Irq := Irq (Processors s c)\<rparr>)
    (unlock ThreadListLock (unlock (ProcessorLock old) s1))"
  have lk2: "locks ?s2 = locks s"
    using lk s1(4) by (simp add: fun_eq_iff)
  have pb2: "pbare (Processors ?s2 d) = pbare (Processors s d)" for d
    using pb1 [of d] by (cases "d = c") (simp_all add: pbare_irq, simp add: pbare_def)
  have "CurrentThread (Processors ?s2 c) \<noteq> Some p"
    using away pbare_reads(4) [OF pb2 [of c]] by simp
  moreover have "thread_get_current c ?s2 = Some (CurrentThread (Processors ?s2 c), ?s2)"
    using lk lk2 by (intro thread_get_current_ok) simp_all
  ultimately have res: "thread_set_processor call c p n s = Some ?s2"
    using s1(1) lk here other
    by (simp add: thread_set_processor_def spinlock_ok thread_unlock_def thread_lower_irql_def Let_def)
  have pr2: "FirstThread (Processors ?s2 d) = FirstThread (Processors s1 d)"
      "LastThread (Processors ?s2 d) = LastThread (Processors s1 d)"
      "FirstSwapProcess (Processors ?s2 d) = FirstSwapProcess (Processors s1 d)" for d
    by (cases "d = c"; simp)+
  have "proc_ring old (us @ vs) ?s2"
    by (subst proc_ring_cong [of ?s2 old s1]) (use s1(2) pr2 in auto)
  moreover have "swap_list n (p # ys) ?s2"
    by (subst swap_list_cong [of ?s2 n s1]) (use s1(3) pr2 in auto)
  moreover have "proc_ring n xs ?s2"
  proof (subst proc_ring_cong [of ?s2 n s xs])
    fix q assume q: "q \<in> set xs"
    then have "q \<notin> set (us @ p # vs) \<union> set ys"
      using disj target(1) by (auto simp: sched_ok_def)
    then show "NextThread (ThreadPool ?s2 q) = NextThread (ThreadPool s q)"
        "PreviousThread (ThreadPool ?s2 q) = PreviousThread (ThreadPool s q)"
      using s1(12,13) by simp_all
  qed (use target(1) pr0 pr2 s1(10,11) in \<open>simp_all add: sched_ok_def\<close>)
  moreover have "reapable (ThreadPool s1 q) = reapable (ThreadPool s q)" for q
    using arg_cong [OF s1(5) [of q], of reapable] by (simp add: reapable_def split: if_splits)
  ultimately show ?thesis
    unfolding res using lk2 pb2 s1(5,6) target(1) disj by (auto simp: sched_ok_def)
qed

end
