(* ===== verification/Threads_Ipi.thy ===== *)
theory Threads_Ipi
  imports Threads_Ops_Lemmas
begin

text \<open>
  Inter-processor and external interrupts: in whatever order the other processors answer, each
  runs the posted routine once; the external interrupt handler gives the interrupt level back.
\<close>

unbundle bit_operations_syntax

section \<open>Inter-processor interrupts\<close>

lemma ipi_mask:
  assumes "c < 6" "i < 6"
  shows "((0x3F :: u8) AND NOT (push_bit c 1)) AND push_bit i 1 = 0 \<longleftrightarrow> i = c"
proof -
  have "c \<in> {0, 1, 2, 3, 4, 5}" "i \<in> {0, 1, 2, 3, 4, 5}"
    using assms by auto
  then show ?thesis
    by (elim insertE emptyE) simp_all
qed

definition ipi_posted :: "nat \<Rightarrow> u32 \<Rightarrow> PROCESSOR_DATA_BLOCK \<Rightarrow> PROCESSOR_DATA_BLOCK" where
  "ipi_posted e x pr = pr\<lparr>IpiProc := Some e, IpiContext := x, IpiIncrement := True\<rparr>"

lemma ipi_post_ok:
  "\<not> locks s (IpiLock i) \<Longrightarrow> ipi_post e x i s = Some (pupd i (ipi_posted e x) s)"
  using relock_idem(1) [of "locks s" "IpiLock i"]
  by (simp add: ipi_post_def) (simp add: ipi_posted_def [abs_def] pupd_def unlock_def)

text \<open>Posting to the processors \<open>ds\<close>.\<close>

primrec post_all :: "nat \<Rightarrow> u32 \<Rightarrow> nat list \<Rightarrow> world \<Rightarrow> world" where
  "post_all e x [] s = s"
| "post_all e x (d # ds) s = post_all e x ds (pupd d (ipi_posted e x) s)"

lemma post_all_reads:
  "distinct ds \<Longrightarrow> Processors (post_all e x ds s) d =
     (if d \<in> set ds then ipi_posted e x (Processors s d) else Processors s d)"
  "locks (post_all e x ds s) = locks s" "ipi_count (post_all e x ds s) = ipi_count s"
  "decrementer_ticks (post_all e x ds s) = decrementer_ticks s"
  "ThreadPool (post_all e x ds s) = ThreadPool s"
  by (induction ds arbitrary: s) (auto simp: pupd_def ipi_posted_def)

lemma ipi_send_packet_ok:
  assumes "c < 6"
  shows "\<forall>i \<in> set is. i < 6 \<Longrightarrow> \<forall>i \<in> set is. \<not> locks s (IpiLock i) \<Longrightarrow>
     ipi_send_packet e x (0x3F AND NOT (push_bit c 1)) is s = Some (post_all e x (filter (\<lambda>i. i \<noteq> c) is) s)"
proof (induction "is" arbitrary: s)
  case (Cons i js)
  then show ?case
    using ipi_mask [OF assms, of i] by (simp add: ipi_post_ok)
qed simp

lemma quantum_answer_ok:
  assumes "\<not> locks s (IpiLock d)" "Processors s d = ipi_posted e x pr"
  shows "returns (thread_interrupt_ipi (\<lambda>_. quantum_length_ipi_routine) d s) (\<lambda>s'.
     Processors s' = (Processors s)(d := (ipi_posted e x pr)\<lparr>Decrementer := x, IpiProc := None\<rparr>) \<and>
     locks s' = locks s \<and> ipi_count s' = ipi_count s + 1 \<and> decrementer_ticks s' = decrementer_ticks s)"
  using assms relock_idem(1) [of "locks s" "IpiLock d"]
  by (simp add: thread_interrupt_ipi_def quantum_length_ipi_routine_def ipi_posted_def Let_def)
    (simp add: pupd_def unlock_def)

lemma quantum_answers_ok:
  "distinct ds \<Longrightarrow> \<forall>d \<in> set ds. \<not> locks s (IpiLock d) \<Longrightarrow>
     \<forall>d \<in> set ds. \<exists>pr. Processors s d = ipi_posted e x pr \<Longrightarrow>
   returns (ipi_answers (\<lambda>_. quantum_length_ipi_routine) ds s) (\<lambda>s'.
     (\<forall>d. Processors s' d = (if d \<in> set ds then (Processors s d)\<lparr>Decrementer := x, IpiProc := None\<rparr>
        else Processors s d)) \<and>
     locks s' = locks s \<and> ipi_count s' = ipi_count s + of_nat (length ds) \<and>
     decrementer_ticks s' = decrementer_ticks s)"
proof (induction ds arbitrary: s)
  case (Cons d ds)
  obtain pr where "Processors s d = ipi_posted e x pr"
    using Cons.prems(3) by auto
  then obtain s1 where s1: "thread_interrupt_ipi (\<lambda>_. quantum_length_ipi_routine) d s = Some s1"
      "Processors s1 = (Processors s)(d := (Processors s d)\<lparr>Decrementer := x, IpiProc := None\<rparr>)"
      "locks s1 = locks s" "ipi_count s1 = ipi_count s + 1" "decrementer_ticks s1 = decrementer_ticks s"
    using quantum_answer_ok [of s d e x pr] Cons.prems(2) by (auto elim!: returnsE)
  have "returns (ipi_answers (\<lambda>_. quantum_length_ipi_routine) ds s1) (\<lambda>s'.
     (\<forall>d. Processors s' d = (if d \<in> set ds then (Processors s1 d)\<lparr>Decrementer := x, IpiProc := None\<rparr>
        else Processors s1 d)) \<and>
     locks s' = locks s1 \<and> ipi_count s' = ipi_count s1 + of_nat (length ds) \<and>
     decrementer_ticks s' = decrementer_ticks s1)"
    using Cons.prems s1 by (intro Cons.IH) auto
  then show ?case
    using s1 Cons.prems(1) by (auto elim!: returnsE)
qed simp

lemma quantum_all_ok:
  assumes c: "c < 6" "CurrentProcessor (Processors s c) = of_nat c"
    and lk: "\<not> locks s ipi_lock" "\<forall>i<6. \<not> locks s (IpiLock i)"
    and answers: "distinct answers" "set answers = {0..<6} - {c}"
  shows "returns (process_set_quantum_length answers c ms s) (\<lambda>s'.
     (\<forall>i<6. Decrementer (Processors s' i) = ms * 2500) \<and> decrementer_ticks s' = ms * 2500 \<and>
     Irq (Processors s' c) = Irq (Processors s c) \<and> locks s' = locks s \<and>
     (\<forall>i<6. i \<noteq> c \<longrightarrow> IpiProc (Processors s' i) = None))"
proof -
  let ?x = "ms * 2500" and ?run = "\<lambda>_. quantum_length_ipi_routine"
  define i0 where "i0 = (if Irq (Processors s c) < 2 then 2 else Irq (Processors s c))"
  define s0 where "s0 = (pupd c (\<lambda>pr. pr\<lparr>Irq := i0\<rparr>)
    (s\<lparr>decrementer_ticks := ?x, ipi_count := 0\<rparr>))\<lparr>locks := (locks s)(ipi_lock := True)\<rparr>"
  let ?ds = "filter (\<lambda>i. i \<noteq> c) [0..<6]"
  have cc: "unat (CurrentProcessor (Processors s0 c)) = c"
    using c by (simp add: s0_def unat_of_nat)
  have send: "ipi_send_packet 0 ?x (0x3F AND NOT (push_bit c 1)) [0..<6] s0 = Some (post_all 0 ?x ?ds s0)"
    by (rule ipi_send_packet_ok [OF c(1)]) (use lk in \<open>auto simp: s0_def\<close>)
  define s1 where "s1 = pupd c (\<lambda>pr. pr\<lparr>Decrementer := ?x\<rparr>)
    (pupd c (\<lambda>pr. pr\<lparr>Irq := 0x78\<rparr>) (post_all 0 ?x ?ds s0))"
  have pr1: "Processors s1 d = (if d = c then (Processors s0 d)\<lparr>Irq := 0x78, Decrementer := ?x\<rparr>
      else if d < 6 then ipi_posted 0 ?x (Processors s0 d) else Processors s0 d)" for d
    by (auto simp: s1_def post_all_reads pupd_def)
  have s1_other: "locks s1 = (locks s)(ipi_lock := True)" "ipi_count s1 = 0" "decrementer_ticks s1 = ?x"
    by (simp_all add: s1_def post_all_reads s0_def pupd_def)
  have "\<forall>d \<in> set answers. \<not> locks s1 (IpiLock d)"
      "\<forall>d \<in> set answers. \<exists>pr. Processors s1 d = ipi_posted 0 ?x pr"
    using answers(2) lk(2) by (auto simp: s1_other pr1)
  from quantum_answers_ok [OF answers(1) this] obtain s2 where s2: "ipi_answers ?run answers s1 = Some s2"
      "\<And>d. Processors s2 d = (if d \<in> set answers then (Processors s1 d)\<lparr>Decrementer := ?x, IpiProc := None\<rparr>
        else Processors s1 d)"
      "locks s2 = (locks s)(ipi_lock := True)" "ipi_count s2 = of_nat (length answers)"
      "decrementer_ticks s2 = ?x"
    by (auto elim!: returnsE simp: s1_other)
  have "length answers = 5"
    using distinct_card [OF answers(1)] answers(2) c(1) by simp
  then have five: "ipi_count s2 = 5"
    using s2(4) by simp
  let ?s3 = "pupd c (\<lambda>pr. pr\<lparr>Irq := Irq (Processors s c)\<rparr>) (unlock ipi_lock s2)"
  have "lock ipi_lock (pupd c (\<lambda>pr. pr\<lparr>Irq := i0\<rparr>) (s\<lparr>decrementer_ticks := ?x, ipi_count := 0\<rparr>)) = Some s0"
    using lk(1) by (simp add: s0_def pupd_def)
  then have "process_set_quantum_length answers c ms s = Some ?s3"
    using send s2(1) five unfolding process_set_quantum_length_def thread_send_ipi_def i0_def
    by (cases "Irq (Processors s c) < 2")
      (simp_all add: cc thread_raise_irql_def quantum_length_ipi_routine_def thread_lower_irql_def s1_def
        Let_def pupd_idem)
  moreover have "locks ?s3 = locks s"
    using lk(1) s2(3) by (simp add: fun_eq_iff)
  ultimately show ?thesis
    using s2(2,5) pr1 answers(2) by (auto simp: pupd_def)
qed

section \<open>External interrupts\<close>

text \<open>A routine that comes back and leaves processors and locks as they were.\<close>

definition ipi_neutral :: "ipi_call \<Rightarrow> nat \<Rightarrow> bool" where
  "ipi_neutral run c \<longleftrightarrow> (\<forall>i x s. returns (run i c x s) (\<lambda>(r, s').
     Processors s' = Processors s \<and> locks s' = locks s \<and>
     millisecond_clock_time s' = millisecond_clock_time s))"

lemma thread_interrupt_ipi_ok:
  assumes "ipi_neutral run c" "\<not> locks s (IpiLock c)"
  shows "returns (thread_interrupt_ipi run c s) (\<lambda>s'.
     Processors s' = (Processors s)(c := (Processors s c)\<lparr>IpiProc := None\<rparr>) \<and> locks s' = locks s \<and>
     millisecond_clock_time s' = millisecond_clock_time s)"
proof -
  have lk: "(locks s)(IpiLock c := True, IpiLock c := False) = locks s"
    using assms(2) by (rule relock_idem)
  show ?thesis
  proof (cases "IpiProc (Processors s c)")
    case None
    then have "(Processors s)(c := (Processors s c)\<lparr>IpiProc := None\<rparr>) = Processors s"
      by (intro fun_upd_idem) simp
    then show ?thesis
      using None assms(2) lk by (simp add: thread_interrupt_ipi_def Let_def unlock_def)
  next
    case (Some i)
    let ?s = "s\<lparr>locks := (locks s)(IpiLock c := True)\<rparr>"
    have "returns (run i c (IpiContext (Processors s c)) ?s) (\<lambda>(r, s').
        Processors s' = Processors ?s \<and> locks s' = locks ?s \<and>
        millisecond_clock_time s' = millisecond_clock_time ?s)"
      using assms(1) unfolding ipi_neutral_def by blast
    then obtain r s1 where s1: "run i c (IpiContext (Processors s c)) ?s = Some (r, s1)"
        "Processors s1 = Processors s" "locks s1 = locks ?s"
        "millisecond_clock_time s1 = millisecond_clock_time s"
      by (auto elim!: returnsE)
    show ?thesis
      using Some assms(2) lk s1 by (simp add: thread_interrupt_ipi_def) (simp add: pupd_def unlock_def)
  qed
qed

lemma external_interrupt_ok:
  assumes run: "ipi_neutral run c" and lk: "\<not> locks s (IpiLock c)"
    and table: "unat source div 4 < length (InterruptTable (Processors s c))"
    and irq: "Irq (Processors s c) \<noteq> 255"
  shows "returns (external_interrupt_handler run source c s) (\<lambda>s'.
     Irq (Processors s' c) = Irq (Processors s c) \<and> locks s' = locks s \<and>
     CurrentThread (Processors s' c) = CurrentThread (Processors s c) \<and>
     millisecond_clock_time s' = millisecond_clock_time s +
       (if InterruptTable (Processors s c) ! (unat source div 4) = Isr_clock then 1 else 0))"
proof -
  let ?n = "unat source div 4" and ?pr = "Processors s c"
  let ?isr = "InterruptTable ?pr ! ?n"
  define s0 where "s0 = (if ?isr \<noteq> Isr_unexpected then pupd c (\<lambda>pr. pr\<lparr>Irq := ucast source\<rparr>) s else s)"
  have s0: "locks s0 = locks s" "millisecond_clock_time s0 = millisecond_clock_time s"
      "CurrentThread (Processors s0 c) = CurrentThread ?pr"
      "?isr = Isr_unexpected \<Longrightarrow> Irq (Processors s0 c) = Irq ?pr"
    by (simp_all add: s0_def)
  have "returns (run_isr run ?isr c s0) (\<lambda>s'. locks s' = locks s \<and>
      CurrentThread (Processors s' c) = CurrentThread ?pr \<and> Irq (Processors s' c) = Irq (Processors s0 c) \<and>
      millisecond_clock_time s' = millisecond_clock_time s + (if ?isr = Isr_clock then 1 else 0))"
  proof (cases "?isr = Isr_ipi")
    case True
    then show ?thesis
      using thread_interrupt_ipi_ok [OF run, of s0] lk s0 by (auto elim!: returnsE simp: run_isr_def)
  next
    case False
    then show ?thesis
      using s0 by (cases ?isr) (simp_all add: run_isr_def thread_interrupt_clock_def)
  qed
  then obtain s1 where s1: "run_isr run ?isr c s0 = Some s1" "locks s1 = locks s"
      "CurrentThread (Processors s1 c) = CurrentThread ?pr" "Irq (Processors s1 c) = Irq (Processors s0 c)"
      "millisecond_clock_time s1 = millisecond_clock_time s + (if ?isr = Isr_clock then 1 else 0)"
    by (auto elim!: returnsE)
  show ?thesis
  proof (cases "?isr = Isr_unexpected")
    case True
    then show ?thesis
      using s1 s0(4) table by (simp add: external_interrupt_handler_def s0_def Let_def)
  next
    case False
    then show ?thesis
      using s1 table irq by (simp add: external_interrupt_handler_def s0_def Let_def)
  qed
qed

end
