(* ===== verification/Threads_Boot.thy ===== *)
theory Threads_Boot
  imports Threads_Ops_Lemmas
begin

text \<open>
  \<open>threading_init\<close> of \<^verbatim>\<open>threads/c_threads.c\<close>: the six processors register themselves one after
  the other, and afterwards every processor satisfies the scheduler invariant \<open>sched_ok\<close>.
\<close>

section \<open>Start-up\<close>

definition idle_thread :: "nat \<Rightarrow> nat \<Rightarrow> bool \<Rightarrow> THREAD" where
  "idle_thread c p main = (fresh_thread p)\<lparr>ThisProcessor := Some c,
     Priority := (if main then 7 else 0), MaxPriorityBoost := (if main then 5 else 0), reent_ready := main\<rparr>"

lemma idle_link_full_ok:
  assumes "list_FirstThread (ThreadList s) = Some f" "list_LastThread (ThreadList s) = Some l"
  shows "returns (idle_link_full p s) (\<lambda>s'.
     (\<forall>q. NextThread (ThreadPool s' q) = NextThread (ThreadPool s q)) \<and>
     (\<forall>q. PreviousThread (ThreadPool s' q) = PreviousThread (ThreadPool s q)) \<and>
     (\<forall>q. bare (ThreadPool s' q) = bare (ThreadPool s q)) \<and>
     (\<forall>q. full_linked (ThreadPool s q) \<or> q = p \<longrightarrow> full_linked (ThreadPool s' q)) \<and>
     s'\<lparr>ThreadPool := ThreadPool s\<rparr> = s)"
  using assms by (simp add: idle_link_full_def) (auto simp: full_linked_def tupd_pool tupd_def)

definition registered :: "nat \<Rightarrow> nat \<Rightarrow> bool \<Rightarrow> world \<Rightarrow> world \<Rightarrow> bool" where
  "registered c p main s s' \<longleftrightarrow> locks s' = locks s \<and>
     Processors s' = (Processors s)(c := (Processors s c)\<lparr>CurrentThread := Some p, FirstThread := Some p,
       LastThread := Some p\<rparr>) \<and>
     ThreadList s' = (if main then \<lparr>list_FirstThread = Some p, list_LastThread = Some p\<rparr> else ThreadList s) \<and>
     NextThread (ThreadPool s' p) = Some p \<and> PreviousThread (ThreadPool s' p) = Some p \<and>
     (\<forall>q. q \<noteq> p \<longrightarrow> NextThread (ThreadPool s' q) = NextThread (ThreadPool s q) \<and>
        PreviousThread (ThreadPool s' q) = PreviousThread (ThreadPool s q)) \<and>
     (\<forall>q. full_linked (ThreadPool s q) \<or> q = p \<longrightarrow> full_linked (ThreadPool s' q)) \<and>
     (\<forall>q. bare (ThreadPool s' q) = (if q = p then idle_thread c p main else bare (ThreadPool s q))) \<and>
     threads_online s' = threads_online s \<and> decrementer_ticks s' = decrementer_ticks s \<and>
     threading_init_check s' = threading_init_check s"

lemma idle_register_ok:
  assumes lk: "\<not> locks s ThreadListLock" "\<not> locks s (ProcessorLock c)" and slot: "free_slot s p"
    and main: "main \<longleftrightarrow> CurrentProcessor (Processors s c) = 0"
    and full: "\<not> main \<Longrightarrow> list_FirstThread (ThreadList s) \<noteq> None \<and> list_LastThread (ThreadList s) \<noteq> None"
  shows "returns (idle_register c s) (\<lambda>(r, s'). r = p \<and> registered c p main s s')"
proof -
  let ?m = "(locks s)(ThreadListLock := True, ProcessorLock c := True)"
  let ?i = "\<lambda>t. t\<lparr>ThisProcessor := Some c, NextThread := Some p, PreviousThread := Some p\<rparr>"
  let ?g = "\<lambda>t. if main then t\<lparr>Priority := 7, MaxPriorityBoost := 5, reent_ready := True\<rparr> else t"
  define s1 where "s1 = tupd p ?g (pupd c (\<lambda>pr. pr\<lparr>CurrentThread := Some p, FirstThread := Some p, LastThread := Some p\<rparr>)
    (tupd p ?i (tupd p (\<lambda>_. fresh_thread p) (s\<lparr>locks := ?m, ThreadList := (if main
      then \<lparr>list_FirstThread = Some p, list_LastThread = Some p\<rparr> else ThreadList s)\<rparr>))))"
  obtain f l where fl: "list_FirstThread (ThreadList s1) = Some f" "list_LastThread (ThreadList s1) = Some l"
    using full by (cases main) (auto simp: s1_def)
  obtain s2 where s2: "idle_link_full p s1 = Some s2"
      "\<And>q. NextThread (ThreadPool s2 q) = NextThread (ThreadPool s1 q)"
      "\<And>q. PreviousThread (ThreadPool s2 q) = PreviousThread (ThreadPool s1 q)"
      "\<And>q. bare (ThreadPool s2 q) = bare (ThreadPool s1 q)"
      "\<And>q. full_linked (ThreadPool s1 q) \<or> q = p \<Longrightarrow> full_linked (ThreadPool s2 q)"
      "s2\<lparr>ThreadPool := ThreadPool s1\<rparr> = s1"
    by (rule returnsE [OF idle_link_full_ok [OF fl, of p]]) blast
  have res: "idle_register c s = Some (p, unlock ThreadListLock (unlock (ProcessorLock c) s2))"
  proof -
    let ?t = "pupd c (\<lambda>pr. pr\<lparr>CurrentThread := Some p, FirstThread := Some p, LastThread := Some p\<rparr>)
        (tupd p ?i (tupd p (\<lambda>_. fresh_thread p) (s\<lparr>locks := ?m\<rparr>)))"
    have eq: "(if CurrentProcessor (Processors s c) = 0 then idle_first_list p ?t else ?t) = s1"
      unfolding s1_def by (simp add: idle_first_list_def main tupd_def pupd_def)
    have "free_slot (s\<lparr>locks := ?m\<rparr>) p"
      using slot by (simp add: free_slot_def pool_slot_free_def)
    then show ?thesis
      using lk s2(1) by (simp add: idle_register_def lock_def pool_alloc_ok Let_def eq)
  qed
  have s2w: "s2 = s1\<lparr>ThreadPool := ThreadPool s2\<rparr>"
  proof -
    have "s2 = (s2\<lparr>ThreadPool := ThreadPool s1\<rparr>)\<lparr>ThreadPool := ThreadPool s2\<rparr>"
      by simp
    then show ?thesis
      unfolding s2(6) .
  qed
  have proj: "Processors s2 = Processors s1" "ThreadList s2 = ThreadList s1" "locks s2 = ?m"
      "threads_online s2 = threads_online s" "decrementer_ticks s2 = decrementer_ticks s"
      "threading_init_check s2 = threading_init_check s"
    by (subst s2w, simp add: s1_def)+
  have "?m(ProcessorLock c := False, ThreadListLock := False) = locks s"
    using lk by (simp add: fun_eq_iff)
  moreover have "Processors s1 = (Processors s)(c := (Processors s c)\<lparr>CurrentThread := Some p,
      FirstThread := Some p, LastThread := Some p\<rparr>)"
    by (simp add: s1_def pupd_def)
  moreover have "bare (ThreadPool s1 q) = (if q = p then idle_thread c p main else bare (ThreadPool s q))" for q
    by (simp add: s1_def tupd_pool idle_thread_def bare_def fresh_thread_def zero_thread_def)
  moreover have "full_linked (ThreadPool s q) \<or> q = p \<Longrightarrow> full_linked (ThreadPool s2 q)" for q
    by (rule s2(5)) (auto simp: s1_def tupd_pool)
  moreover have "ThreadList s1 = (if main then \<lparr>list_FirstThread = Some p, list_LastThread = Some p\<rparr>
      else ThreadList s)"
    by (simp add: s1_def)
  moreover have "NextThread (ThreadPool s1 q) = (if q = p then Some p else NextThread (ThreadPool s q))"
      "PreviousThread (ThreadPool s1 q) = (if q = p then Some p else PreviousThread (ThreadPool s q))" for q
    by (simp_all add: s1_def tupd_pool)
  ultimately show ?thesis
    using res proj s2(2-4) by (simp add: unlock_def registered_def)
qed

definition boot_ring :: "nat \<Rightarrow> nat list" where
  "boot_ring c = (if c = 0 then [1, 0] else [Suc c])"

definition boot_thread :: "nat \<Rightarrow> nat" where
  "boot_thread c = (if c = 0 then 0 else Suc c)"

definition boot :: "nat \<Rightarrow> world \<Rightarrow> world \<Rightarrow> bool" where
  "boot k s0 s \<longleftrightarrow> (\<forall>l. \<not> locks s l) \<and>
     (\<forall>c<k. sched_ok c (boot_ring c) [] s \<and> CurrentThread (Processors s c) = Some (boot_thread c) \<and>
        Irq (Processors s c) = 0) \<and>
     (\<forall>c\<ge>k. Processors s c = Processors s0 c) \<and>
     (\<forall>q\<le>k. sched_ready (ThreadPool s q)) \<and> (\<forall>q>k. pool_slot_free s q) \<and>
     list_FirstThread (ThreadList s) \<noteq> None \<and> list_LastThread (ThreadList s) \<noteq> None \<and>
     threads_online s = threads_online s0 + of_nat k"

lemma bare_sched_ready: "sched_ready (bare t) = sched_ready t"
  by (simp add: sched_ready_def bare_def)

lemma bare_slot_free: "bare (ThreadPool s' q) = bare (ThreadPool s q) \<Longrightarrow> pool_slot_free s' q = pool_slot_free s q"
  by (drule arg_cong [where f = "\<lambda>t. (Valid t, HandleOpen t)"]) (simp add: pool_slot_free_def bare_def)

lemma boot_free_slot: "boot k s0 s \<Longrightarrow> k < 6 \<Longrightarrow> free_slot s (Suc k)"
  by (auto simp: boot_def free_slot_def MAX_THREAD_COUNT_def pool_slot_free_def sched_ready_def less_Suc_eq_le)

lemma ready_not_reapable: "sched_ready t \<Longrightarrow> \<not> reapable t"
  by (simp add: sched_ready_def reapable_def)

lemma registered_closed:
  assumes reg: "registered c p main s s'" and lk: "\<not> locks s ThreadListLock" "\<not> locks s (ProcessorLock c)"
  shows "thread_close d p s' = Some (tupd p (\<lambda>t. t\<lparr>HandleOpen := 0\<rparr>) s')"
proof -
  have "ThisProcessor (bare (ThreadPool s' p)) = Some c"
    using reg by (simp add: registered_def idle_thread_def)
  then have "ThisProcessor (ThreadPool s' p) = Some c"
    by (simp add: bare_def)
  moreover have "\<not> locks s' ThreadListLock" "\<not> locks s' (ProcessorLock c)"
    using reg lk by (simp_all add: registered_def)
  ultimately show ?thesis
    by (rule thread_close_ok)
qed

definition started :: "nat \<Rightarrow> nat \<Rightarrow> world \<Rightarrow> world" where
  "started c p s = pupd c (\<lambda>pr. pr\<lparr>Irq := 0\<rparr>)
     ((tupd p (\<lambda>t. t\<lparr>HandleOpen := 0\<rparr>) s)\<lparr>threads_online := threads_online s + 1\<rparr>)"

lemma started_reads [simp]:
  "NextThread (ThreadPool (started c p s) q) = NextThread (ThreadPool s q)"
  "PreviousThread (ThreadPool (started c p s) q) = PreviousThread (ThreadPool s q)"
  "full_linked (ThreadPool (started c p s) q) = full_linked (ThreadPool s q)"
  "sched_ready (ThreadPool (started c p s) q) = sched_ready (ThreadPool s q)"
  "q \<noteq> p \<Longrightarrow> ThreadPool (started c p s) q = ThreadPool s q"
  "d \<noteq> c \<Longrightarrow> Processors (started c p s) d = Processors s d"
  "FirstThread (Processors (started c p s) d) = FirstThread (Processors s d)"
  "LastThread (Processors (started c p s) d) = LastThread (Processors s d)"
  "CurrentThread (Processors (started c p s) d) = CurrentThread (Processors s d)"
  "FirstSwapProcess (Processors (started c p s) d) = FirstSwapProcess (Processors s d)"
  "Irq (Processors (started c p s) c) = 0"
  "locks (started c p s) = locks s" "ThreadList (started c p s) = ThreadList s"
  "threads_online (started c p s) = threads_online s + 1"
  "threading_init_check (started c p s) = threading_init_check s"
  by (simp_all add: started_def tupd_pool full_linked_def sched_ready_def pupd_def)

definition starting :: "nat \<Rightarrow> world \<Rightarrow> world" where
  "starting c s = pupd c (\<lambda>pr. pr\<lparr>Irq := 2, InterruptTable := interrupt_table (CurrentProcessor pr = 0),
     QuantumEnd := ucast (decrementer_ticks s)\<rparr>) s"

lemma starting_reads [simp]:
  "ThreadPool (starting c s) = ThreadPool s" "locks (starting c s) = locks s"
  "ThreadList (starting c s) = ThreadList s" "threads_online (starting c s) = threads_online s"
  "threading_init_check (starting c s) = threading_init_check s"
  "d \<noteq> c \<Longrightarrow> Processors (starting c s) d = Processors s d"
  "CurrentProcessor (Processors (starting c s) d) = CurrentProcessor (Processors s d)"
  "FirstSwapProcess (Processors (starting c s) d) = FirstSwapProcess (Processors s d)"
  by (simp_all add: starting_def pupd_def)

lemma boot_step:
  assumes b: "boot k s0 s" and k: "0 < k" "k < 6" and cp: "CurrentProcessor (Processors s0 k) = of_nat k"
    and sw: "FirstSwapProcess (Processors s0 k) = None"
  shows "returns (thread_startup memalign idle k s) (boot (Suc k) s0)"
proof -
  let ?p = "Suc k" and ?s1 = "starting k s"
  have nz: "CurrentProcessor (Processors s k) \<noteq> 0"
  proof -
    have "k = 1 \<or> k = 2 \<or> k = 3 \<or> k = 4 \<or> k = 5"
      using k by arith
    then show ?thesis
      using b cp by (auto simp: boot_def)
  qed
  have lk: "\<not> locks ?s1 ThreadListLock" "\<not> locks ?s1 (ProcessorLock k)"
    using b by (simp_all add: boot_def)
  have "free_slot ?s1 ?p"
    using boot_free_slot [OF b k(2)] by (simp add: free_slot_def pool_slot_free_def)
  then have "returns (idle_register k ?s1) (\<lambda>(r, s'). r = ?p \<and> registered k ?p False ?s1 s')"
    using b nz by (intro idle_register_ok lk) (simp_all add: boot_def)
  then obtain s2 where s2: "idle_register k ?s1 = Some (?p, s2)" and reg: "registered k ?p False ?s1 s2"
    by (rule returnsE) auto
  let ?s3 = "started k ?p s2"
  have "CurrentProcessor (Processors s2 k) \<noteq> 0"
    using reg nz by (simp add: registered_def)
  then have res: "thread_startup memalign idle k s = Some ?s3"
    using s2 registered_closed [OF reg lk, of k]
    by (simp add: thread_startup_def thread_create_idle_thread_def started_def flip: starting_def)
  have b2: "bare (ThreadPool s2 q) = (if q = ?p then idle_thread k ?p False else bare (ThreadPool s q))"
      "q \<noteq> ?p \<Longrightarrow> NextThread (ThreadPool s2 q) = NextThread (ThreadPool s q)"
      "q \<noteq> ?p \<Longrightarrow> PreviousThread (ThreadPool s2 q) = PreviousThread (ThreadPool s q)"
    for q
    using reg by (simp_all add: registered_def)
  have full: "full_linked (ThreadPool s q) \<or> q = ?p \<Longrightarrow> full_linked (ThreadPool s2 q)" for q
    using reg by (auto simp: registered_def)
  have ready: "sched_ready (ThreadPool ?s3 q)" if "q \<le> ?p" for q
  proof -
    have "sched_ready (bare (ThreadPool s2 q))"
      using b that unfolding b2 by (auto simp: bare_sched_ready boot_def le_Suc_eq)
        (simp add: idle_thread_def fresh_thread_def zero_thread_def sched_ready_def)
    then show ?thesis
      by (simp add: bare_sched_ready)
  qed
  have free: "pool_slot_free ?s3 q" if "q > ?p" for q
  proof -
    have "bare (ThreadPool s2 q) = bare (ThreadPool s q)" "pool_slot_free s q"
      using b that by (auto simp: b2 boot_def)
    then show ?thesis
      using that bare_slot_free [of s2 q s] by (simp add: pool_slot_free_def)
  qed
  have procs: "Processors ?s3 c = Processors s c" if "c \<noteq> k" for c
    using that reg by (simp add: registered_def)
  have old: "sched_ok c (boot_ring c) [] ?s3" if "c < k" for c
  proof -
    have ok: "sched_ok c (boot_ring c) [] s" and q: "\<And>q. q \<in> set (boot_ring c) \<Longrightarrow> q \<noteq> ?p \<and> q \<le> ?p"
      using b that k(1) by (auto simp: boot_def boot_ring_def split: if_splits)
    have "proc_ring c (boot_ring c) ?s3"
      by (subst proc_ring_cong [of ?s3 c s]) (use ok q that b2 procs in \<open>auto simp: sched_ok_def\<close>)
    moreover have "swap_list c [] ?s3"
      using ok that procs [of c] by (simp add: sched_ok_def swap_list_def)
    moreover have "\<exists>q \<in> set (boot_ring c). \<not> reapable (ThreadPool ?s3 q)"
      using q ready ready_not_reapable by (auto simp: boot_ring_def)
    ultimately show ?thesis
      using ok full reg by (simp add: sched_ok_def registered_def)
  qed
  have new: "sched_ok k (boot_ring k) [] ?s3"
  proof -
    have "\<not> reapable (ThreadPool ?s3 ?p)"
      using ready [of ?p] ready_not_reapable by blast
    moreover have "proc_ring k [?p] ?s3"
      using reg by (simp add: proc_ring_def ring_def registered_def)
    moreover have "swap_list k [] ?s3" "\<not> locks ?s3 (SwapProcessLock k)"
      using b sw reg by (simp_all add: swap_list_def boot_def registered_def)
    ultimately show ?thesis
      using k(1) full [of ?p] by (simp add: boot_ring_def sched_ok_def)
  qed
  have "CurrentThread (Processors ?s3 c) = Some (boot_thread c) \<and> Irq (Processors ?s3 c) = 0" if "c \<le> k" for c
    using that b reg k(1) by (cases "c = k") (auto simp: boot_def registered_def boot_thread_def)
  then show ?thesis
    using res b reg ready free old new procs by (simp add: boot_def registered_def less_Suc_eq_le le_eq_less_or_eq)
qed

lemma boot_first:
  assumes cp: "CurrentProcessor (Processors s 0) = 0" and sw: "FirstSwapProcess (Processors s 0) = None"
    and lk: "\<forall>l. \<not> locks s l" and pool: "\<forall>q. pool_slot_free s q"
    and mem: "memalign 16 (round_stack_size 0) = stack" "stack \<noteq> 0"
  shows "returns (thread_startup memalign idle 0 s) (boot 1 s)"
proof -
  let ?s1 = "starting 0 s"
  have lk1: "\<not> locks ?s1 ThreadListLock" "\<not> locks ?s1 (ProcessorLock 0)"
    using lk by simp_all
  have "free_slot ?s1 0"
    using pool by (simp add: free_slot_def pool_slot_free_def MAX_THREAD_COUNT_def)
  then have "returns (idle_register 0 ?s1) (\<lambda>(r, s'). r = 0 \<and> registered 0 0 True ?s1 s')"
    using cp by (intro idle_register_ok lk1) simp_all
  then obtain s2 where s2: "idle_register 0 ?s1 = Some (0, s2)" and reg: "registered 0 0 True ?s1 s2"
    by (rule returnsE) auto
  have b2: "bare (ThreadPool s2 q) = (if q = 0 then idle_thread 0 0 True else bare (ThreadPool s q))" for q
    using reg by (simp add: registered_def)
  have ring2: "proc_ring 0 [0] s2"
    using reg by (simp add: proc_ring_def ring_def registered_def)
  have v2: "Valid (ThreadPool s2 0) \<noteq> 0"
    using arg_cong [OF b2 [of 0], of Valid] by (simp add: bare_def idle_thread_def fresh_thread_def)
  have free2: "pool_slot_free s2 q" if "q \<noteq> 0" for q
    using that pool b2 [of q] bare_slot_free [of s2 q s] by simp
  have "free_slot s2 1"
    using free2 [of 1] v2 by (simp add: free_slot_def MAX_THREAD_COUNT_def pool_slot_free_def)
  moreover have fl: "list_FirstThread (ThreadList s2) = Some 0" "list_LastThread (ThreadList s2) = Some 0"
      and lk2: "\<not> locks s2 ThreadListLock" "\<not> locks s2 (ProcessorLock 0)"
      and "\<forall>q \<in> set [0]. Valid (ThreadPool s2 q) \<noteq> 0"
    using reg lk v2 by (simp_all add: registered_def)
  ultimately have "returns (thread_create memalign 0 idle 0 0 0 s2) (\<lambda>(r, s').
     r = Some 1 \<and> proc_ring 0 [1, 0] s' \<and> create_frame 0 1 [0] s2 s' \<and>
     (\<forall>q. bare (ThreadPool s' q) = (if q = 1 then new_thread 0 1 stack (round_stack_size 0) idle 0 0 s2
         else bare (ThreadPool s2 q))))"
    by (intro thread_create_ok ring2 mem) assumption+
  then obtain s3 where s3: "thread_create memalign 0 idle 0 0 0 s2 = Some (Some 1, s3)"
      and ring3: "proc_ring 0 [1, 0] s3" and fr: "create_frame 0 1 [0] s2 s3"
      and b3: "\<And>q. bare (ThreadPool s3 q) = (if q = 1 then new_thread 0 1 stack (round_stack_size 0) idle 0 0 s2
         else bare (ThreadPool s2 q))"
    by (rule returnsE) blast
  have lk3: "locks s3 = locks s"
    using fr reg by (simp add: create_frame_def registered_def)
  have tp: "ThisProcessor (ThreadPool s3 0) = Some 0" "ThisProcessor (ThreadPool s3 1) = Some 0"
    using arg_cong [OF b3 [of 0], of ThisProcessor] arg_cong [OF b3 [of 1], of ThisProcessor]
      arg_cong [OF b2 [of 0], of ThisProcessor]
    by (simp_all add: bare_def new_thread_def idle_thread_def)
  define s4 where "s4 = tupd 1 (\<lambda>t. t\<lparr>Priority := 0, MaxPriorityBoost := 0, HandleOpen := 0\<rparr>) s3"
  have s4: "thread_set_priority 0 1 0 s3 \<bind> thread_set_priority_boost 0 1 0 \<bind> thread_close 0 1 = Some s4"
  proof -
    let ?a = "tupd 1 (\<lambda>t. t\<lparr>Priority := 0\<rparr>) s3"
    let ?b = "tupd 1 (\<lambda>t. t\<lparr>MaxPriorityBoost := 0\<rparr>) ?a"
    have "thread_set_priority 0 1 0 s3 = Some ?a"
      using tp lk lk3 thread_set_priority_ok [of s3 1 0 0 0] by simp
    moreover have "thread_set_priority_boost 0 1 0 ?a = Some ?b"
      using tp lk lk3 thread_set_priority_boost_ok [of ?a 1 0 0 0] by simp
    moreover have "thread_close 0 1 ?b = Some (tupd 1 (\<lambda>t. t\<lparr>HandleOpen := 0\<rparr>) ?b)"
      using tp lk lk3 by (intro thread_close_ok [where d = 0]) simp_all
    moreover have "tupd 1 (\<lambda>t. t\<lparr>HandleOpen := 0\<rparr>) ?b = s4"
      by (simp add: s4_def tupd_def)
    ultimately show ?thesis
      by simp
  qed
  have cl: "thread_close 0 0 s4 = Some (tupd 0 (\<lambda>t. t\<lparr>HandleOpen := 0\<rparr>) s4)"
    using tp(1) lk lk3 by (intro thread_close_ok [where d = 0]) (simp_all add: s4_def)
  have "CurrentProcessor (Processors s2 0) = 0"
    using reg cp by (simp add: registered_def)
  then have res: "thread_startup memalign idle 0 s = Some (started 0 0 s4)"
    using s2 s3 s4 cl 
    by (simp add: thread_startup_def thread_create_idle_thread_def started_def flip: starting_def)
  let ?s5 = "started 0 0 s4"
  have b4: "bare (ThreadPool s4 q) = (if q = 1 then (new_thread 0 1 stack (round_stack_size 0) idle 0 0 s2)
        \<lparr>Priority := 0, MaxPriorityBoost := 0, HandleOpen := 0\<rparr>
      else if q = 0 then idle_thread 0 0 True else bare (ThreadPool s q))" for q
  proof -
    have "bare (t\<lparr>Priority := 0, MaxPriorityBoost := 0, HandleOpen := 0\<rparr>) =
        (bare t)\<lparr>Priority := 0, MaxPriorityBoost := 0, HandleOpen := 0\<rparr>" for t
      by (simp add: bare_def)
    then show ?thesis
      by (simp add: s4_def tupd_pool b3 b2)
  qed
  have links: "NextThread (ThreadPool s4 q) = NextThread (ThreadPool s3 q)"
      "PreviousThread (ThreadPool s4 q) = PreviousThread (ThreadPool s3 q)"
      "full_linked (ThreadPool s4 q) = full_linked (ThreadPool s3 q)" for q
    by (simp_all add: s4_def tupd_pool full_linked_def)
  have ready: "sched_ready (ThreadPool s4 q)" if "q \<le> 1" for q
  proof -
    have "q = 0 \<or> q = 1"
      using that by arith
    then have "sched_ready (bare (ThreadPool s4 q))"
      by (auto simp: b4 idle_thread_def fresh_thread_def zero_thread_def sched_ready_def new_thread_def)
    then show ?thesis
      by (simp add: bare_sched_ready)
  qed
  have free: "pool_slot_free ?s5 q" if "q > 1" for q
    using that pool b4 [of q] bare_slot_free [of s4 q s] by (simp add: pool_slot_free_def)
  have fr4: "Processors s4 = Processors s3" "ThreadList s4 = ThreadList s3" "locks s4 = locks s3"
     "threads_online s4 = threads_online s3" "threading_init_check s4 = threading_init_check s3"
    by (simp_all add: s4_def)
  have "full_linked (ThreadPool ?s5 0)" "full_linked (ThreadPool ?s5 1)"
    using fr reg by (simp_all add: create_frame_def registered_def links)
  moreover have "\<not> reapable (ThreadPool ?s5 0)"
    using ready [of 0] ready_not_reapable [of "ThreadPool ?s5 0"] by simp
  moreover have "proc_ring 0 [1, 0] ?s5"
    using ring3 proc_ring_cong [of ?s5 0 s3 "[1, 0]"] by (simp add: links fr4)
  moreover have "swap_list 0 [] ?s5" "\<not> locks ?s5 (SwapProcessLock 0)"
    using lk lk3 sw fr reg by (simp_all add: fr4 swap_list_def create_frame_def registered_def)
  ultimately have "sched_ok 0 (boot_ring 0) [] ?s5"
    by (simp add: boot_ring_def sched_ok_def)
  moreover have "CurrentThread (Processors ?s5 0) = Some (boot_thread 0)"
  proof -
    have "pbare (Processors s3 0) = pbare (Processors s2 0)"
      using fr by (simp add: create_frame_def)
    then have "CurrentThread (Processors s3 0) = CurrentThread (Processors s2 0)"
      by (rule pbare_reads)
    then show ?thesis
      using reg by (simp add: boot_thread_def registered_def fr4)
  qed
  ultimately show ?thesis
    using res ready free lk lk3 fr reg by (simp add: boot_def fr4 create_frame_def registered_def)
qed

lemma boot_all:
  assumes "boot k s0 s" "0 < k" "k + length cs = 6" "cs = [k..<6]"
    and "\<forall>c<6. CurrentProcessor (Processors s0 c) = of_nat c \<and> FirstSwapProcess (Processors s0 c) = None"
  shows "returns (startup_all memalign idle cs s) (boot 6 s0)"
  using assms
proof (induction cs arbitrary: k s)
  case (Cons c cs)
  then have c: "c = k" "cs = [Suc k..<6]" "k < 6"
    by (simp_all add: upt_rec [of k] split: if_splits)
  then obtain s' where "thread_startup memalign idle k s = Some s'" "boot (Suc k) s0 s'"
    using Cons.prems boot_step [of k s0 s memalign idle] by (auto elim!: returnsE)
  then show ?case
    using Cons.IH [of "Suc k" s'] Cons.prems(2,3,5) c by simp
qed (simp add: upt_rec)

lemma threading_init_ok:
  assumes "\<not> threading_init_check s" "threads_online s = 0" "\<forall>l. \<not> locks s l"
    and pr: "\<forall>c<6. CurrentProcessor (Processors s c) = of_nat c \<and> FirstSwapProcess (Processors s c) = None"
    and mem: "memalign 16 (round_stack_size 0) \<noteq> 0"
  shows "returns (threading_init memalign idle s) (\<lambda>s'. threading_init_check s' \<and> threads_online s' = 6 \<and>
     (\<forall>l. \<not> locks s' l) \<and> (\<forall>q\<le>6. sched_ready (ThreadPool s' q)) \<and>
     (\<forall>c<6. sched_ok c (boot_ring c) [] s' \<and> CurrentThread (Processors s' c) = Some (boot_thread c) \<and>
        Irq (Processors s' c) = 0))"
proof -
  define s0 where "s0 = s\<lparr>ThreadPool := (\<lambda>_. zero_thread),
      ThreadList := \<lparr>list_FirstThread = None, list_LastThread = None\<rparr>\<rparr>"
  have "returns (thread_startup memalign idle 0 s0) (boot 1 s0)"
    using assms by (intro boot_first) (auto simp: s0_def pool_slot_free_def zero_thread_def)
  then obtain s1 where s1: "thread_startup memalign idle 0 s0 = Some s1" "boot 1 s0 s1"
    by (rule returnsE)
  then have "returns (startup_all memalign idle [1..<6] s1) (boot 6 s0)"
    using pr by (intro boot_all) (auto simp: s0_def)
  then obtain s2 where s2: "startup_all memalign idle [1..<6] s1 = Some s2" "boot 6 s0 s2"
    by (rule returnsE)
  let ?s3 = "(pupd 0 (\<lambda>pr. pr\<lparr>Decrementer := decrementer_ticks s2\<rparr>) s2)\<lparr>threading_init_check := True\<rparr>"
  have res: "threading_init memalign idle s = Some ?s3"
    using s1(1) s2 assms(1,2) by (simp add: threading_init_def s0_def boot_def)
  have "sched_ok c xs [] ?s3 = sched_ok c xs [] s2" for c xs
    using proc_ring_cong [of ?s3 c s2 xs] by (cases "c = 0") (simp_all add: sched_ok_def swap_list_def)
  then show ?thesis
    using res s2(2) assms(2) by (auto simp: boot_def s0_def pupd_def)
qed

end
