(* ===== verification/Threads_Ops_Claims.thy ===== *)
theory Threads_Ops_Claims
  imports Threads_Claims Threads_Sleep Threads_Migrate Threads_Ipi Threads_Boot
begin

text \<open>
  The properties of the operations on threads: start-up, creation, suspension, sleeping, migration,
  and the interrupts between processors.
\<close>

section \<open>Start-up\<close>

text \<open>
  C5: \<open>threading_init\<close> comes back with all six processors online, and every one of them satisfies the
  invariant of the scheduler with its own idle thread (and, on processor 0, the main thread as the
  current one) ready to run, at interrupt level 0, with no lock held.
\<close>

theorem threading_init_establishes:
  assumes "\<not> threading_init_check s" "threads_online s = 0" "\<forall>l. \<not> locks s l"
    and "\<forall>c<6. CurrentProcessor (Processors s c) = of_nat c \<and> FirstSwapProcess (Processors s c) = None"
    and "memalign 16 (round_stack_size 0) \<noteq> 0"
  shows "returns (threading_init memalign idle s) (\<lambda>s'. threading_init_check s' \<and> threads_online s' = 6 \<and>
     (\<forall>l. \<not> locks s' l) \<and> (\<forall>q\<le>6. sched_ready (ThreadPool s' q)) \<and>
     (\<forall>c<6. sched_ok c (if c = 0 then [1, 0] else [Suc c]) [] s' \<and>
        CurrentThread (Processors s' c) = Some (if c = 0 then 0 else Suc c) \<and> Irq (Processors s' c) = 0))"
  using assms threading_init_ok [of s memalign idle, unfolded boot_ring_def boot_thread_def] by blast

definition power_on :: world where
  "power_on = zero_world\<lparr>Processors := (\<lambda>c. zero_processor\<lparr>CurrentProcessor := of_nat c\<rparr>)\<rparr>"

theorem threading_init_establishes_witness:
  "returns (threading_init (\<lambda>_ _. 0x80000) 0x2000 power_on) (\<lambda>s'. threads_online s' = 6 \<and>
     sched_ok 0 [1, 0] [] s' \<and> sched_ok 3 [4] [] s' \<and> sched_ready (ThreadPool s' 0))"
proof -
  have "\<not> threading_init_check power_on" "threads_online power_on = 0" "\<forall>l. \<not> locks power_on l"
      "\<forall>c<6. CurrentProcessor (Processors power_on c) = of_nat c \<and> FirstSwapProcess (Processors power_on c) = None"
    by (simp_all add: power_on_def zero_world_def zero_processor_def)
  note init = threading_init_establishes [OF this, where memalign = "\<lambda>_ _. 0x80000" and idle = "0x2000"]
  show ?thesis
  proof (rule returns_mono [OF init])
    fix s'
    assume s': "threading_init_check s' \<and> threads_online s' = 6 \<and>
     (\<forall>l. \<not> locks s' l) \<and> (\<forall>q\<le>6. sched_ready (ThreadPool s' q)) \<and>
     (\<forall>c<6. sched_ok c (if c = 0 then [1, 0] else [Suc c]) [] s' \<and>
        CurrentThread (Processors s' c) = Some (if c = 0 then 0 else Suc c) \<and> Irq (Processors s' c) = 0)"
    then have "sched_ok c (if c = 0 then [1, 0] else [Suc c]) [] s'" if "c < 6" for c
      using that by blast
    from this [of 0] this [of 3] s'
    show "threads_online s' = 6 \<and> sched_ok 0 [1, 0] [] s' \<and> sched_ok 3 [4] [] s' \<and> sched_ready (ThreadPool s' 0)"
      by simp
  qed simp
qed

section \<open>Creation\<close>

text \<open>
  C6: \<open>thread_create\<close> takes the first free pool slot and links the new thread at the front of its processor's
  list and at the front of the list of all threads, with all four links of each.  The scheduler invariant holds for
  the longer list, and a well-formed list of all threads stays well-formed; the new thread starts with the registers
  its entry point expects, no other thread changes (links apart), and nothing else in the world changes: the
  processors but for the list head, the locks, the deferred procedures and the clocks are as before.
\<close>

theorem thread_create_links:
  assumes "sched_ok c xs ys s" and "\<forall>q \<in> set xs \<union> set ys. Valid (ThreadPool s q) \<noteq> 0"
    and "list_FirstThread (ThreadList s) = Some f" "list_LastThread (ThreadList s) = Some l"
    and "free_slot s p" and "\<not> locks s ThreadListLock" "\<not> locks s (ProcessorLock c)"
    and "memalign 16 (round_stack_size ssize) = stack" "stack \<noteq> 0"
  shows "returns (thread_create memalign c entrypoint ssize argument flags s) (\<lambda>(r, s').
     r = Some p \<and> sched_ok c (p # xs) ys s' \<and>
     s' = s\<lparr>ThreadPool := ThreadPool s', Processors := (Processors s)(c := (Processors s c)\<lparr>FirstThread := Some p\<rparr>),
       ThreadList := (ThreadList s)\<lparr>list_FirstThread := Some p\<rparr>\<rparr> \<and>
     (\<forall>q. bare (ThreadPool s' q) =
        (if q = p then new_thread c p stack (round_stack_size ssize) entrypoint argument flags s
         else bare (ThreadPool s q))) \<and>
     (\<forall>q. q \<notin> insert p (set xs) \<longrightarrow> NextThread (ThreadPool s' q) = NextThread (ThreadPool s q) \<and>
        PreviousThread (ThreadPool s' q) = PreviousThread (ThreadPool s q)) \<and>
     (\<forall>q. NextThreadFull (ThreadPool s' q) =
         (if q = l then Some p else if q = p then Some f else NextThreadFull (ThreadPool s q)) \<and>
       PreviousThreadFull (ThreadPool s' q) =
         (if q = f then Some p else if q = p then Some l else PreviousThreadFull (ThreadPool s q)) \<and>
       NextThreadReady (ThreadPool s' q) = (if q = p then None else NextThreadReady (ThreadPool s q)) \<and>
       PreviousThreadReady (ThreadPool s' q) = (if q = p then None else PreviousThreadReady (ThreadPool s q))) \<and>
     (\<forall>zs. full_ring zs s \<and> p \<notin> set zs \<longrightarrow> full_ring (p # zs) s'))"
proof -
  have ok: "proc_ring c xs s" "swap_list c ys s" "set xs \<inter> set ys = {}"
      "\<forall>q \<in> set xs. full_linked (ThreadPool s q)" "\<not> locks s (SwapProcessLock c)"
    using assms(1) by (simp_all add: sched_ok_def)
  have v: "\<forall>q \<in> set xs. Valid (ThreadPool s q) \<noteq> 0" and py: "p \<notin> set ys"
    using assms(2,5) by (auto simp: free_slot_def pool_slot_free_def)
  obtain s' where res: "thread_create memalign c entrypoint ssize argument flags s = Some (Some p, s')"
    and r: "proc_ring c (p # xs) s'" and fr: "create_frame c p xs s s'"
    and b: "\<forall>q. bare (ThreadPool s' q) = (if q = p
        then new_thread c p stack (round_stack_size ssize) entrypoint argument flags s else bare (ThreadPool s q))"
    by (rule returnsE [OF thread_create_ok [where memalign = memalign, OF ok(1) v assms(3-9)]]) auto
  note w = thread_create_writes [OF assms(3-9) res]
  have "swap_list c ys s'"
    by (subst swap_list_cong [of s' c s]) (use fr ok py in \<open>auto simp: create_frame_def\<close>)
  moreover have "\<not> reapable (ThreadPool s' p)"
  proof -
    have "ThreadTerminated (bare (ThreadPool s' p)) = 0"
      by (simp add: b new_thread_def zero_thread_def)
    then show ?thesis
      by (simp add: reapable_def bare_def)
  qed
  ultimately have sched: "sched_ok c (p # xs) ys s'"
    using r ok py fr by (auto simp: sched_ok_def create_frame_def)
  have "full_ring (p # zs) s'" if z: "full_ring zs s" "p \<notin> set zs" for zs
  proof (rule full_ring_insert [OF z])
    show "list_FirstThread (ThreadList s') = Some p" "list_LastThread (ThreadList s') = Some (last zs)"
      using fr z(1) by (simp_all add: create_frame_def full_ring_def)
  qed (use w z(1) assms(3,4) in \<open>simp_all add: create_writes_def full_ring_def\<close>)
  then show ?thesis
    unfolding res using sched b fr w unfolding create_writes_def create_frame_def by simp
qed

definition demo_linked :: world where
  "demo_linked = demo_world\<lparr>ThreadList := \<lparr>list_FirstThread = Some 0, list_LastThread = Some 3\<rparr>\<rparr>"

theorem thread_create_links_witness:
  "returns (thread_create (\<lambda>_ _. 0x80000) 0 0x2000 0x8000 7 0 demo_linked) (\<lambda>(r, s').
     r = Some 1 \<and> sched_ok 0 [1, 0, 2, 3] [4] s' \<and> full_ring [1, 0, 2, 3] s' \<and>
     list_FirstThread (ThreadList s') = Some 1 \<and> list_LastThread (ThreadList s') = Some 3)"
proof -
  have ok: "sched_ok 0 [0, 2, 3] [4] demo_linked" and full: "full_ring [0, 2, 3] demo_linked"
    by (simp_all add: sched_ok_def proc_ring_def full_ring_def swap_list_def ring_def full_linked_def reapable_def
        demo_defs demo_linked_def)
  have slot: "free_slot demo_linked 1"
    by (simp add: free_slot_def pool_slot_free_def demo_defs demo_linked_def MAX_THREAD_COUNT_def)
  have ends: "list_FirstThread (ThreadList demo_linked) = Some 0" "list_LastThread (ThreadList demo_linked) = Some 3"
    by (simp_all add: demo_linked_def)
  have "\<forall>q \<in> set [0, 2, 3] \<union> set [4]. Valid (ThreadPool demo_linked q) \<noteq> 0"
      "\<not> locks demo_linked ThreadListLock" "\<not> locks demo_linked (ProcessorLock 0)"
    by (simp_all add: demo_linked_def demo_defs)
  note w = thread_create_links [where memalign = "\<lambda>_ _. 0x80000" and stack = "0x80000" and entrypoint = "0x2000"
      and ssize = "0x8000" and argument = 7 and flags = 0, OF ok this(1) ends slot this(2,3) refl]
  show ?thesis
  proof (rule returns_mono [OF w], simp, goal_cases)
    case (1 x)
    then have "full_ring [1, 0, 2, 3] (snd x)" "sched_ok 0 [1, 0, 2, 3] [4] (snd x)" "fst x = Some 1"
      using full by (auto simp: split_beta)
    then show ?case
      by (cases x) (simp add: full_ring_def)
  qed
qed

section \<open>Suspension\<close>

text \<open>
  C11: suspending a thread and resuming it again gives back the world as it was, and the calls report
  the suspend counts before each.
\<close>

theorem suspend_resume_roundtrip:
  assumes "ThisProcessor (ThreadPool s p) = Some d" "\<not> locks s ThreadListLock" "\<not> locks s (ProcessorLock d)"
    and "SuspendCount (ThreadPool s p) < 80"
  shows "\<exists>s'. thread_suspend c p s = Some (uint (SuspendCount (ThreadPool s p)), s') \<and>
     thread_resume c p s' = Some (uint (SuspendCount (ThreadPool s p)) + 1, s)"
proof -
  let ?s = "tupd p (\<lambda>t. t\<lparr>SuspendCount := SuspendCount t + 1\<rparr>) s" and ?n = "SuspendCount (ThreadPool s p)"
  have n: "uint (?n + 1) = uint ?n + 1"
    using assms(4) by (simp add: word_less_def uint_word_ariths)
  have "tupd p (\<lambda>t. t\<lparr>SuspendCount := SuspendCount t - 1\<rparr>) ?s = s"
    by (simp add: tupd_def)
  moreover have "?n + 1 \<noteq> 0"
  proof
    assume "?n + 1 = 0"
    then have "uint ?n + 1 = 0"
      using n by simp
    then show False
      using unsigned_greater_eq [of ?n, where 'a = int] by linarith
  qed
  ultimately show ?thesis
    using thread_suspend_ok(1) [OF assms(1-4)] thread_resume_ok(1) [of ?s p d c] assms(1-3) n by simp
qed

theorem suspend_resume_roundtrip_witness:
  "\<exists>s'. thread_suspend 0 2 (tupd 2 (\<lambda>t. t\<lparr>ThisProcessor := Some 0\<rparr>) demo_world) = Some (0, s') \<and>
     thread_resume 0 2 s' = Some (1, tupd 2 (\<lambda>t. t\<lparr>ThisProcessor := Some 0\<rparr>) demo_world)"
  using suspend_resume_roundtrip [of "tupd 2 (\<lambda>t. t\<lparr>ThisProcessor := Some 0\<rparr>) demo_world" 2 0 0]
  by (simp add: demo_defs)

text \<open>
  C10: a suspended thread is never chosen, however high its priority, as long as anybody else may run.
\<close>

theorem suspended_never_scheduled:
  assumes "sched_ok c xs ys s" and "runnable c s xs ys \<noteq> []" and "SuspendCount (ThreadPool s p) \<noteq> 0"
  shows "returns (thread_schedule_core c s) (\<lambda>(win, s'). win \<noteq> p)"
  using assms by (rule suspended_never_wins)

theorem suspended_never_scheduled_witness:
  "returns (thread_schedule_core 0 (tupd 4 (\<lambda>t. t\<lparr>SuspendCount := 1\<rparr>) demo_world)) (\<lambda>(win, s'). win \<noteq> 4)"
proof -
  let ?s = "tupd 4 (\<lambda>t. t\<lparr>SuspendCount := 1\<rparr>) demo_world"
  have ok: "sched_ok 0 [0, 2, 3] [4] ?s"
    by (simp add: sched_ok_def proc_ring_def swap_list_def ring_def full_linked_def reapable_def demo_defs)
  have "2 \<in> set (runnable 0 ?s [0, 2, 3] [4])"
    by (simp add: runnable_def offered_def survivors_def stepped_def visited_def swept_def wake_def
        reapable_def sched_ready_def demo_defs)
  then have "runnable 0 ?s [0, 2, 3] [4] \<noteq> []"
    by auto
  then show ?thesis
    by (rule suspended_never_scheduled [OF ok]) (simp add: demo_defs)
qed

section \<open>Sleeping\<close>

text \<open>
  C8: a thread that goes to sleep gives the processor to another runnable thread and is resumed with
  the registers it had when it called \<open>thread_sleep\<close>, its timer set to the current time plus the
  requested milliseconds.
\<close>

theorem thread_sleep_yields:
  assumes "sched_ok c xs ys s" and "CurrentThread (Processors s c) = Some cur" "cur \<notin> set ys"
    and "q \<noteq> cur" "q \<in> set (runnable c s xs ys)" and "millisecond_clock_time s + ucast ms \<noteq> 0"
    and "\<not> locks s (ProcessorLock c)"
    and "DPCList (Processors s c) = None" "\<not> locks s (DPCLock c)" "ProcessingDPC (Processors s c) = 0"
  shows "returns (thread_sleep call c ms s) (\<lambda>s'.
     (\<exists>win. CurrentThread (Processors s' c) = Some win \<and> win \<noteq> cur \<and> win \<in> set (runnable c s xs ys)) \<and>
     Context (ThreadPool s' cur) = frame_of (Processors s c) \<and>
     SleepTime (ThreadPool s' cur) = millisecond_clock_time s + ucast ms)"
  using assms by (rule thread_sleep_ok)

theorem thread_sleep_yields_witness:
  "returns (thread_sleep (\<lambda>_ _ _ _ s. Some s) 0 25 demo_world) (\<lambda>s'.
     (\<exists>win. CurrentThread (Processors s' 0) = Some win \<and> win \<noteq> 2) \<and> SleepTime (ThreadPool s' 2) = 25)"
proof -
  have q: "3 \<noteq> (2 :: nat)" "3 \<in> set (runnable 0 demo_world [0, 2, 3] [4])" "2 \<notin> set [4 :: nat]"
    by (simp_all add: demo_runnable)
  have m: "millisecond_clock_time demo_world = 0"
    by (simp add: demo_defs)
  then have "millisecond_clock_time demo_world + ucast (25 :: u32) \<noteq> 0"
    by simp
  note sleep = thread_sleep_yields [OF demo_ok demo_processor(1) q(3) q(1,2) this demo_processor(2,3,2,4)]
  show ?thesis
    by (rule returns_mono [OF sleep]) (auto simp: m)
qed

text \<open>
  C9: the timer is exact and survives the wrap-around of the millisecond clock: when the scheduler
  looks at the thread \<open>k\<close> milliseconds after the call, it still sleeps iff \<open>k\<close> does not exceed the
  requested time.
\<close>

theorem sleep_lasts:
  assumes "SleepTime (ThreadPool s p) = now + ucast (ms :: u32)" "now + ucast ms \<noteq> 0"
    and "k < 2 ^ 63" "millisecond_clock_time s = now + of_nat k"
  shows "SleepTime (ThreadPool (sched_timer p s) p) = (if k \<le> unat ms then now + ucast ms else 0)"
  using assms by (rule sleep_timer_exact)

theorem sleep_lasts_witness:
  "SleepTime (ThreadPool (sched_timer 2 ((tupd 2 (\<lambda>t. t\<lparr>SleepTime := 15\<rparr>) demo_world)
     \<lparr>millisecond_clock_time := 16\<rparr>)) 2) = 0"
  using sleep_lasts [of "(tupd 2 (\<lambda>t. t\<lparr>SleepTime := 15\<rparr>) demo_world)\<lparr>millisecond_clock_time := 16\<rparr>"
      2 "-10" 25 26] by simp

section \<open>Migration\<close>

text \<open>
  C7: moving a thread that is not running here to another processor takes it off its processor's
  list and puts it in front of the target's swap list; both lists stay well formed (the target
  keeps the scheduler invariant), and nothing but the owner and the links changes.
\<close>

theorem set_processor_hands_over:
  assumes "proc_ring old (us @ p # vs) s" and "us @ vs \<noteq> []"
    and "ThisProcessor (ThreadPool s p) = Some old" and "n \<noteq> old"
    and "sched_ok n xs ys s" "LastSwapProcess (Processors s n) = None"
    and "set (us @ p # vs) \<inter> (set xs \<union> set ys) = {}"
    and "\<not> locks s ThreadListLock" "\<not> locks s (ProcessorLock old)" "\<not> locks s (ProcessorLock n)"
      "\<not> locks s (ProcessorLock c)"
    and "CurrentThread (Processors s c) \<noteq> Some p"
  shows "returns (thread_set_processor call c p n s) (\<lambda>s'. proc_ring old (us @ vs) s' \<and>
     sched_ok n xs (p # ys) s' \<and> locks s' = locks s \<and>
     (\<forall>q. bare (ThreadPool s' q) = (if q = p then (bare (ThreadPool s q))\<lparr>ThisProcessor := Some n\<rparr>
        else bare (ThreadPool s q))) \<and>
     (\<forall>d. pbare (Processors s' d) = pbare (Processors s d)))"
  using assms by (rule thread_set_processor_ok)

definition demo_pair :: world where
  "demo_pair = demo_world\<lparr>
     ThreadPool := (ThreadPool demo_world)(5 := demo_thread (Some 5) (Some 5) 3,
       3 := (ThreadPool demo_world 3)\<lparr>ThisProcessor := Some 0\<rparr>),
     Processors := (Processors demo_world)(2 := zero_processor\<lparr>FirstThread := Some 5, LastThread := Some 5\<rparr>)\<rparr>"

theorem set_processor_hands_over_witness:
  "returns (thread_set_processor (\<lambda>_ _ _ _ s. Some s) 0 3 2 demo_pair) (\<lambda>s'.
     proc_ring 0 [0, 2] s' \<and> sched_ok 2 [5] [3] s')"
proof -
  have a: "proc_ring 0 ([0, 2] @ 3 # []) demo_pair" "sched_ok 2 [5] [] demo_pair"
    by (simp_all add: demo_pair_def sched_ok_def proc_ring_def swap_list_def ring_def full_linked_def
        reapable_def demo_defs)
  have b: "ThisProcessor (ThreadPool demo_pair 3) = Some 0" "LastSwapProcess (Processors demo_pair 2) = None"
      "\<And>l. \<not> locks demo_pair l" "CurrentThread (Processors demo_pair 0) \<noteq> Some 3"
    by (simp_all add: demo_pair_def demo_defs)
  show ?thesis
    by (rule returns_mono [OF set_processor_hands_over [OF a(1) _ b(1) _ a(2) b(2) _ b(3,3,3,3,4)]]) auto
qed

section \<open>Interrupts between processors\<close>

text \<open>
  C12: \<open>process_set_quantum_length\<close> reaches all six processors: in whatever order the others answer
  the interrupt, each ends with the new decrementer value, its mailbox empty, and the sender comes
  back with its interrupt level and the locks as they were.
\<close>

theorem quantum_length_everywhere:
  assumes "c < 6" "CurrentProcessor (Processors s c) = of_nat c"
    and "\<not> locks s ipi_lock" "\<forall>i<6. \<not> locks s (IpiLock i)"
    and "distinct answers" "set answers = {0..<6} - {c}"
  shows "returns (process_set_quantum_length answers c ms s) (\<lambda>s'.
     (\<forall>i<6. Decrementer (Processors s' i) = ms * 2500) \<and> decrementer_ticks s' = ms * 2500 \<and>
     Irq (Processors s' c) = Irq (Processors s c) \<and> locks s' = locks s \<and>
     (\<forall>i<6. i \<noteq> c \<longrightarrow> IpiProc (Processors s' i) = None))"
  using assms by (rule quantum_all_ok)

theorem quantum_length_everywhere_witness:
  "returns (process_set_quantum_length [5, 1, 3, 2, 4] 0 20 power_on) (\<lambda>s'.
     Decrementer (Processors s' 4) = 50000 \<and> Decrementer (Processors s' 0) = 50000)"
proof -
  have a: "distinct [5, 1, 3, 2, 4 :: nat]" "set [5, 1, 3, 2, 4 :: nat] = {0..<6} - {0}"
    by auto
  show ?thesis
    by (rule returns_mono [OF quantum_length_everywhere [OF _ _ _ _ a, where ms = 20]])
      (simp_all add: power_on_def zero_world_def zero_processor_def)
qed



section \<open>Bounds and errors of creation\<close>

text \<open>
  the stack a thread gets is at least the 16K minimum and at least what was asked for, exceeds
  that by less than 4K, and is a multiple of 1K; a request of at least 16K that is a multiple of 1K
  is granted as it is.
\<close>

theorem stack_size_bounds:
  assumes "unat n \<le> 0xFFFFF000"
  defines "m \<equiv> max (unat n) 16384"
  shows "m \<le> unat (round_stack_size n) \<and> unat (round_stack_size n) < m + 4096 \<and>
     unat (round_stack_size n) mod 1024 = 0 \<and> (m mod 1024 = 0 \<longrightarrow> unat (round_stack_size n) = m)"
proof -
  have r: "unat (round_stack_size n) = (if m mod 1024 = 0 then m else m - m mod 1024 + 4096)"
    using round_stack_unat [OF assms(1)] by (simp add: Let_def m_def)
  have "m - m mod 1024 = 1024 * (m div 1024)"
    by (simp add: minus_mod_eq_mult_div)
  then show ?thesis
    using mod_less_divisor [of 1024 m] mod_less_eq_dividend [of m 1024] unfolding r by auto
qed

theorem stack_size_bounds_witness:
  "16384 \<le> unat (round_stack_size 100) \<and> unat (round_stack_size 0x4400) = 0x4400"
  using stack_size_bounds [of 100] stack_size_bounds [of "0x4400"] by simp

text \<open>
  when memory or the pool is exhausted, \<open>thread_create\<close> returns no thread and leaves everything
  as it was, locks and interrupt level included.
\<close>

theorem thread_create_exhausted:
  assumes "\<not> locks s (ProcessorLock c)"
    and "memalign 16 (round_stack_size ssize) = 0 \<or> (\<forall>i<MAX_THREAD_COUNT. \<not> pool_slot_free s i)"
  shows "thread_create memalign c entrypoint ssize argument flags s = Some (None, s)"
  using assms by (rule thread_create_fails)

theorem thread_create_exhausted_witness:
  "thread_create (\<lambda>_ _. 0x80000) 0 0x2000 0 0 0 (demo_world\<lparr>ThreadPool := (\<lambda>_. demo_thread None None 1)\<rparr>) =
     Some (None, demo_world\<lparr>ThreadPool := (\<lambda>_. demo_thread None None 1)\<rparr>)"
  by (rule thread_create_exhausted) (simp_all add: demo_defs pool_slot_free_def)

end
