(* ===== verification/Lib_Queue.thy ===== *)
theory Lib_Queue
  imports Xenon_Prelude
begin

text \<open>
  The intrusive queues of \<open>nocfe/lib_queue.c\<close> (used by the USB stack for its request, buffer
  and device lists).  A queue is a header node and its items, linked in a ring through
  \<open>q_next\<close> and \<open>q_prev\<close>.

  The heap of \<open>queue_t\<close> nodes is a function from addresses to records; every operation is
  the sequence of assignments of the source, so aliasing between the header and its neighbours
  is kept.  \<open>queue_at qb xs h\<close> says that the ring through the header \<open>qb\<close> holds the items
  \<open>xs\<close>; the operations refine list operations on \<open>xs\<close>.
\<close>

section \<open>Model\<close>

record queue_t =
  q_next :: "nat option"
  q_prev :: "nat option"

type_synonym qheap = "nat \<Rightarrow> queue_t"

definition q_init :: "nat \<Rightarrow> qheap \<Rightarrow> qheap" where
  "q_init q h =
     (let h1 = h(q := (h q)\<lparr>q_prev := Some q\<rparr>)
      in h1(q := (h1 q)\<lparr>q_next := Some q\<rparr>))"

definition q_isempty :: "nat \<Rightarrow> qheap \<Rightarrow> bool" where
  "q_isempty q h \<longleftrightarrow> q_next (h q) = Some q"

definition q_getfirst :: "nat \<Rightarrow> qheap \<Rightarrow> nat option" where
  "q_getfirst q h = q_next (h q)"

definition q_getlast :: "nat \<Rightarrow> qheap \<Rightarrow> nat option" where
  "q_getlast q h = q_prev (h q)"

definition q_enqueue :: "nat \<Rightarrow> nat \<Rightarrow> qheap \<Rightarrow> qheap option" where
  "q_enqueue qb item h = do {
     pv \<leftarrow> q_prev (h qb);
     let h1 = h(pv := (h pv)\<lparr>q_next := Some item\<rparr>);
     let h2 = h1(item := (h1 item)\<lparr>q_next := Some qb\<rparr>);
     let h3 = h2(item := (h2 item)\<lparr>q_prev := q_prev (h2 qb)\<rparr>);
     let h4 = h3(qb := (h3 qb)\<lparr>q_prev := Some item\<rparr>);
     Some h4 }"

definition q_dequeue :: "nat \<Rightarrow> qheap \<Rightarrow> qheap option" where
  "q_dequeue item h = do {
     pv \<leftarrow> q_prev (h item);
     let h1 = h(pv := (h pv)\<lparr>q_next := q_next (h item)\<rparr>);
     nx \<leftarrow> q_next (h1 item);
     let h2 = h1(nx := (h1 nx)\<lparr>q_prev := q_prev (h1 item)\<rparr>);
     Some h2 }"

definition q_deqnext :: "nat \<Rightarrow> qheap \<Rightarrow> (nat option \<times> qheap) option" where
  "q_deqnext qb h =
     (if q_next (h qb) = Some qb then Some (None, h)
      else do {
        qe \<leftarrow> q_next (h qb);
        h' \<leftarrow> q_dequeue qe h;
        Some (Some qe, h') })"

text \<open>
  The callback of \<open>q_map\<close> is an argument: it may change the heap, and a nonzero result stops
  the walk.  The successor is read before the callback runs, as in the source.
\<close>

partial_function (option) q_map_loop ::
    "nat \<Rightarrow> (nat \<Rightarrow> u32 \<Rightarrow> u32 \<Rightarrow> qheap \<Rightarrow> int \<times> qheap) \<Rightarrow> u32 \<Rightarrow> u32 \<Rightarrow> nat option \<Rightarrow> qheap
       \<Rightarrow> (int \<times> qheap) option" where
  "q_map_loop qb func a b qe h =
     (if qe = Some qb then Some (0, h)
      else Option.bind qe (\<lambda>q.
        let nextq = q_next (h q); (res, h') = func q a b h
        in if res \<noteq> 0 then Some (res, h') else q_map_loop qb func a b nextq h'))"

definition q_map ::
    "nat \<Rightarrow> (nat \<Rightarrow> u32 \<Rightarrow> u32 \<Rightarrow> qheap \<Rightarrow> int \<times> qheap) \<Rightarrow> u32 \<Rightarrow> u32 \<Rightarrow> qheap
       \<Rightarrow> (int \<times> qheap) option" where
  "q_map qb func a b h = q_map_loop qb func a b (q_next (h qb)) h"

partial_function (option) q_count_loop :: "nat \<Rightarrow> nat \<Rightarrow> int \<Rightarrow> qheap \<Rightarrow> int option" where
  "q_count_loop qb qe res h =
     (if q_next (h qe) = Some qb then Some res
      else Option.bind (q_next (h qe)) (\<lambda>q. q_count_loop qb q (res + 1) h))"

definition q_count :: "nat \<Rightarrow> qheap \<Rightarrow> int option" where
  "q_count qb h = q_count_loop qb qb 0 h"

partial_function (option) q_find_loop ::
    "nat \<Rightarrow> nat \<Rightarrow> nat option \<Rightarrow> int \<Rightarrow> qheap \<Rightarrow> int option" where
  "q_find_loop qb item q res h =
     (if q = Some item then Some res
      else if q = Some qb then Some 0
      else Option.bind q (\<lambda>e. q_find_loop qb item (q_next (h e)) (res + 1) h))"

definition q_find :: "nat \<Rightarrow> nat \<Rightarrow> qheap \<Rightarrow> int option" where
  "q_find qb item h = q_find_loop qb item (q_next (h qb)) 1 h"

section \<open>Abstraction\<close>

definition queue_at :: "nat \<Rightarrow> nat list \<Rightarrow> qheap \<Rightarrow> bool" where
  "queue_at qb xs h \<longleftrightarrow> ring (q_next \<circ> h) (q_prev \<circ> h) (qb # xs)"

lemma queue_at_distinct: "queue_at qb xs h \<Longrightarrow> distinct (qb # xs)"
  unfolding queue_at_def by (rule ring_distinct)

lemma queue_at_getfirst:
  "queue_at qb xs h \<Longrightarrow> q_next (h qb) = Some (hd (xs @ [qb]))"
  unfolding queue_at_def by (cases xs) (auto simp: ring_def)

lemma queue_at_getlast:
  "queue_at qb xs h \<Longrightarrow> q_prev (h qb) = Some (last (qb # xs))"
  using ring_prev_hd [of "q_next \<circ> h" "q_prev \<circ> h" qb xs] by (simp add: queue_at_def)

lemma queue_at_next:
  "queue_at qb (xs @ x # ys) h \<Longrightarrow> q_next (h x) = Some (hd (ys @ [qb]))"
proof (cases ys)
  case Nil
  moreover assume "queue_at qb (xs @ x # ys) h"
  ultimately show ?thesis
    using ring_next_last [of "q_next \<circ> h" "q_prev \<circ> h" qb "xs @ [x]"] by (simp add: queue_at_def)
next
  case (Cons y zs)
  moreover assume "queue_at qb (xs @ x # ys) h"
  ultimately show ?thesis
    using ring_next_mid [of "q_next \<circ> h" "q_prev \<circ> h" "qb # xs" x y zs] by (simp add: queue_at_def)
qed

lemma queue_at_next_last:
  assumes "queue_at qb (xs @ y # ys) h"
  shows "q_next (h (last (qb # xs))) = Some y"
proof (cases xs rule: rev_cases)
  case Nil
  then show ?thesis using queue_at_getfirst [OF assms] by simp
next
  case (snoc zs z)
  then show ?thesis using queue_at_next [of qb zs z "y # ys" h] assms by simp
qed

lemma queue_at_init: "queue_at qb [] (q_init qb h)"
  by (simp add: queue_at_def q_init_def Let_def)

lemma q_isempty_iff: "queue_at qb xs h \<Longrightarrow> q_isempty qb h \<longleftrightarrow> xs = []"
  by (cases xs) (auto simp: q_isempty_def queue_at_getfirst dest: queue_at_distinct)

text \<open>The effect of the assignments on the two field maps.\<close>

lemma q_enqueue_maps:
  assumes "q_prev (h qb) = Some l" and "l \<noteq> item" and "qb \<noteq> item"
  shows "returns (q_enqueue qb item h) (\<lambda>h'.
           q_next \<circ> h' = (q_next \<circ> h)(l := Some item, item := Some qb) \<and>
           q_prev \<circ> h' = (q_prev \<circ> h)(qb := Some item, item := Some l))"
  using assms by (auto simp: q_enqueue_def Let_def fun_eq_iff)

lemma q_dequeue_maps:
  assumes "q_prev (h item) = Some a" and "q_next (h item) = Some b" and "a \<noteq> item"
  shows "returns (q_dequeue item h) (\<lambda>h'.
           q_next \<circ> h' = (q_next \<circ> h)(a := Some b) \<and>
           q_prev \<circ> h' = (q_prev \<circ> h)(b := Some a))"
  using assms by (simp add: q_dequeue_def Let_def fun_eq_iff)

lemma q_enqueue_ok:
  assumes "queue_at qb xs h" and "item \<notin> set (qb # xs)"
  shows "returns (q_enqueue qb item h) (queue_at qb (xs @ [item]))"
proof -
  let ?l = "last (qb # xs)"
  have "?l \<in> set (qb # xs)"
    by (rule last_in_set) simp
  then have "?l \<noteq> item" "qb \<noteq> item"
    using assms(2) by (metis, simp)
  then have "returns (q_enqueue qb item h) (\<lambda>h'.
      q_next \<circ> h' = (q_next \<circ> h)(?l := Some item, item := Some qb) \<and>
      q_prev \<circ> h' = (q_prev \<circ> h)(qb := Some item, item := Some ?l))"
    using queue_at_getlast [OF assms(1)] by (intro q_enqueue_maps)
  moreover have "ring ((q_next \<circ> h)(?l := Some item, item := Some qb))
      ((q_prev \<circ> h)(qb := Some item, item := Some ?l)) (qb # xs @ [item])"
    using assms unfolding queue_at_def by (rule ring_insert_last)
  ultimately show ?thesis
    by (elim returns_mono) (simp add: queue_at_def del: last.simps)
qed

lemma q_dequeue_ok:
  assumes "queue_at qb (xs @ item # ys) h"
  shows "returns (q_dequeue item h) (queue_at qb (xs @ ys))"
proof -
  let ?n = "q_next \<circ> h" and ?p = "q_prev \<circ> h"
  have r: "ring ?n ?p ((qb # xs) @ item # ys)"
    using assms by (simp add: queue_at_def)
  obtain a b where nb: "?n item = Some b" "?p item = Some a"
    using r by (rule ring_neighbours [where y = item]) simp_all
  have "a \<noteq> item"
    using ring_neighbours_neq(1) [of ?n ?p "qb # xs" item ys b a] r nb by simp
  then have "returns (q_dequeue item h) (\<lambda>h'.
      q_next \<circ> h' = ?n(a := Some b) \<and> q_prev \<circ> h' = ?p(b := Some a))"
    using nb by (intro q_dequeue_maps) auto
  moreover have "ring (?n(a := Some b)) (?p(b := Some a)) (qb # xs @ ys)"
    using ring_unlink [of ?n ?p "qb # xs" item ys b a] r nb by simp
  ultimately show ?thesis
    by (elim returns_mono) (auto simp: queue_at_def)
qed

lemma q_deqnext_empty: "queue_at qb [] h \<Longrightarrow> q_deqnext qb h = Some (None, h)"
  by (simp add: q_deqnext_def queue_at_def)

lemma q_deqnext_ok:
  assumes "queue_at qb (x # xs) h"
  shows "returns (q_deqnext qb h) (\<lambda>(r, h'). r = Some x \<and> queue_at qb xs h')"
proof -
  have "q_next (h qb) = Some x" "x \<noteq> qb"
    using queue_at_getfirst [OF assms] queue_at_distinct [OF assms] by auto
  then show ?thesis
    using q_dequeue_ok [of qb "[]" x xs h] assms by (simp add: q_deqnext_def)
qed

section \<open>Walks\<close>

text \<open>
  \<open>q_count\<close> and \<open>q_find\<close> stop on every well-formed queue, with the length and the
  position (counted from one, zero for an absent item).
\<close>

lemma q_count_loop_ok:
  "queue_at qb (xs @ ys) h \<Longrightarrow>
     q_count_loop qb (last (qb # xs)) res h = Some (res + int (length ys))"
proof (induction ys arbitrary: xs res)
  case Nil
  have "q_next (h (last (qb # xs))) = Some qb"
    using ring_next_last [of "q_next \<circ> h" "q_prev \<circ> h" qb xs] Nil by (simp add: queue_at_def)
  then show ?case
    by (simp add: q_count_loop.simps)
next
  case (Cons y ys)
  have nx: "q_next (h (last (qb # xs))) = Some y"
    using Cons.prems by (rule queue_at_next_last)
  have "y \<noteq> qb"
    using queue_at_distinct [OF Cons.prems] by auto
  then show ?case
    using nx Cons.IH [of "xs @ [y]" "res + 1"] Cons.prems
    by (subst q_count_loop.simps) simp
qed

lemma q_find_loop_ok:
  "queue_at qb (xs @ ys) h \<Longrightarrow> item \<notin> set (qb # xs) \<Longrightarrow>
     q_find_loop qb item (Some (hd (ys @ [qb]))) res h =
       Some (if item \<in> set ys then res + int (length (takeWhile (\<lambda>y. y \<noteq> item) ys)) else 0)"
proof (induction ys arbitrary: xs res)
  case Nil
  then show ?case
    by (auto simp: q_find_loop.simps)
next
  case (Cons y ys)
  have nx: "q_next (h y) = Some (hd (ys @ [qb]))"
    using queue_at_next [OF Cons.prems(1)] .
  have "y \<noteq> qb"
    using queue_at_distinct [OF Cons.prems(1)] by auto
  show ?case
  proof (cases "y = item")
    case True
    then show ?thesis by (simp add: q_find_loop.simps)
  next
    case False
    then have "q_find_loop qb item (Some (hd ((y # ys) @ [qb]))) res h
        = q_find_loop qb item (Some (hd (ys @ [qb]))) (res + 1) h"
      using nx \<open>y \<noteq> qb\<close> by (subst q_find_loop.simps) simp
    then show ?thesis
      using Cons.IH [of "xs @ [y]" "res + 1"] Cons.prems False by auto
  qed
qed

text \<open>
  \<open>q_map\<close> with a callback that leaves the heap alone is a search for the first nonzero result.
\<close>

fun first_nonzero :: "(nat \<Rightarrow> int) \<Rightarrow> nat list \<Rightarrow> int" where
  "first_nonzero f [] = 0"
| "first_nonzero f (x # xs) = (if f x \<noteq> 0 then f x else first_nonzero f xs)"

lemma q_map_loop_ok:
  "queue_at qb (xs @ ys) h \<Longrightarrow> (\<And>q h. func q a b h = (f q, h)) \<Longrightarrow>
     q_map_loop qb func a b (Some (hd (ys @ [qb]))) h = Some (first_nonzero f ys, h)"
proof (induction ys arbitrary: xs)
  case Nil
  then show ?case by (simp add: q_map_loop.simps)
next
  case (Cons y ys)
  have "q_next (h y) = Some (hd (ys @ [qb]))"
    using queue_at_next [OF Cons.prems(1)] .
  moreover have "y \<noteq> qb"
    using queue_at_distinct [OF Cons.prems(1)] by auto
  ultimately show ?case
    using Cons.IH [of "xs @ [y]"] Cons.prems
    by (subst q_map_loop.simps) simp
qed

section \<open>The interface: a first-in first-out queue\<close>

text \<open>
  What the clients of \<open>lib_queue.c\<close> rely on: an enqueue appends, a dequeue takes the front.
  \<open>holds xs h\<close> relates a state to its contents, \<open>fresh xs x\<close> says that \<open>x\<close> may be added.
\<close>

primrec enq_all :: "('a \<Rightarrow> 'h \<Rightarrow> 'h option) \<Rightarrow> 'a list \<Rightarrow> 'h \<Rightarrow> 'h option" where
  "enq_all enq [] h = Some h"
| "enq_all enq (x # xs) h = Option.bind (enq x h) (enq_all enq xs)"

primrec deq_many :: "('h \<Rightarrow> ('a option \<times> 'h) option) \<Rightarrow> nat \<Rightarrow> 'h \<Rightarrow> ('a list \<times> 'h) option" where
  "deq_many deq 0 h = Some ([], h)"
| "deq_many deq (Suc k) h = Option.bind (deq h) (\<lambda>(r, h').
     case r of None \<Rightarrow> Some ([], h')
     | Some x \<Rightarrow> Option.bind (deq_many deq k h') (\<lambda>(ys, h''). Some (x # ys, h'')))"

locale fifo =
  fixes holds :: "'a list \<Rightarrow> 'h \<Rightarrow> bool"
    and fresh :: "'a list \<Rightarrow> 'a \<Rightarrow> bool"
    and enq :: "'a \<Rightarrow> 'h \<Rightarrow> 'h option"
    and deq :: "'h \<Rightarrow> ('a option \<times> 'h) option"
  assumes enq_ok: "holds xs h \<Longrightarrow> fresh xs x \<Longrightarrow> returns (enq x h) (holds (xs @ [x]))"
    and deq_empty: "holds [] h \<Longrightarrow> returns (deq h) (\<lambda>(r, h'). r = None \<and> holds [] h')"
    and deq_ok: "holds (x # xs) h \<Longrightarrow> returns (deq h) (\<lambda>(r, h'). r = Some x \<and> holds xs h')"
begin

lemma enq_all_ok:
  "holds xs h \<Longrightarrow> (\<And>us y vs. ys = us @ y # vs \<Longrightarrow> fresh (xs @ us) y) \<Longrightarrow>
     returns (enq_all enq ys h) (holds (xs @ ys))"
proof (induction ys arbitrary: xs h)
  case (Cons y ys)
  have "returns (enq y h) (holds (xs @ [y]))"
    using Cons.prems(1) Cons.prems(2) [of "[]" y ys] by (simp add: enq_ok)
  moreover have "returns (enq_all enq ys h') (holds (xs @ y # ys))" if "holds (xs @ [y]) h'" for h'
    using Cons.IH [OF that] Cons.prems(2) [of "y # us" for us] by simp
  ultimately show ?case
    by (auto elim: returns_mono)
qed simp

lemma deq_many_ok:
  "holds xs h \<Longrightarrow> returns (deq_many deq k h) (\<lambda>(ys, h'). ys = take k xs \<and> holds (drop k xs) h')"
proof (induction k arbitrary: xs h)
  case (Suc k)
  show ?case
  proof (cases xs)
    case Nil
    then show ?thesis
      using deq_empty [of h] Suc.prems by (auto elim!: returnsE)
  next
    case (Cons x zs)
    then have "returns (deq h) (\<lambda>(r, h'). r = Some x \<and> holds zs h')"
      using Suc.prems deq_ok by simp
    then show ?thesis
      using Suc.IH Cons by (fastforce elim!: returnsE)
  qed
qed simp

text \<open>Items leave in the order in which they came.\<close>

lemma enq_all_deq_many:
  assumes "holds xs h" and "\<And>us y vs. ys = us @ y # vs \<Longrightarrow> fresh (xs @ us) y"
  shows "returns (Option.bind (enq_all enq ys h) (deq_many deq (length (xs @ ys))))
           (\<lambda>(zs, h'). zs = xs @ ys \<and> holds [] h')"
proof -
  have "returns (enq_all enq ys h) (holds (xs @ ys))"
    using assms by (rule enq_all_ok)
  moreover have "returns (deq_many deq (length (xs @ ys)) h')
      (\<lambda>(zs, h''). zs = xs @ ys \<and> holds [] h'')" if "holds (xs @ ys) h'" for h'
    using deq_many_ok [OF that, of "length (xs @ ys)"] by simp
  ultimately show ?thesis
    by (auto elim: returns_mono)
qed

end

interpretation libq: fifo "queue_at qb" "\<lambda>xs x. x \<notin> set (qb # xs)" "q_enqueue qb" "q_deqnext qb"
  for qb
proof unfold_locales
  fix xs h x
  assume "queue_at qb xs h" and "x \<notin> set (qb # xs)"
  then show "returns (q_enqueue qb x h) (queue_at qb (xs @ [x]))"
    by (rule q_enqueue_ok)
next
  fix h
  assume "queue_at qb [] h"
  then show "returns (q_deqnext qb h) (\<lambda>(r, h'). r = None \<and> queue_at qb [] h')"
    by (simp add: q_deqnext_empty)
next
  fix x xs h
  assume "queue_at qb (x # xs) h"
  then show "returns (q_deqnext qb h) (\<lambda>(r, h'). r = Some x \<and> queue_at qb xs h')"
    by (rule q_deqnext_ok)
qed

section \<open>Properties\<close>

text \<open>
  C34: a queue is first in, first out: items enqueued on a freshly initialised queue leave it in the
  same order, no pointer on the way is NULL, and the queue is empty again.
\<close>

theorem queue_fifo:
  assumes "distinct (qb # xs)"
  shows "returns (Option.bind (enq_all (q_enqueue qb) xs (q_init qb h)) (deq_many (q_deqnext qb) (length xs)))
           (\<lambda>(zs, h'). zs = xs \<and> queue_at qb [] h')"
proof -
  have "y \<notin> set (qb # us)" if "xs = us @ y # vs" for us y vs
    using assms that by auto
  then show ?thesis
    using libq.enq_all_deq_many [of qb "[]" "q_init qb h" xs] queue_at_init by simp
qed

theorem queue_fifo_witness:
  "returns (Option.bind (enq_all (q_enqueue 10) [5, 7, 2] (q_init 10 (\<lambda>_. \<lparr>q_next = None, q_prev = None\<rparr>)))
     (deq_many (q_deqnext 10) (length [5, 7, 2 :: nat]))) (\<lambda>(zs, h'). zs = [5, 7, 2] \<and> queue_at 10 [] h')"
  by (rule queue_fifo) simp

text \<open>
  removing an item from anywhere in a queue leaves the others in order; \<open>q_count\<close> and
  \<open>q_find\<close> come back on the result with the number of items and, for each, its position
  counted from one, and the removed item is not found.
\<close>

theorem queue_remove_count_find:
  assumes "queue_at qb (xs @ item # ys) h"
  shows "returns (q_dequeue item h) (\<lambda>h'. queue_at qb (xs @ ys) h' \<and>
           q_count qb h' = Some (int (length (xs @ ys))) \<and> q_find qb item h' = Some 0 \<and>
           (\<forall>i < length (xs @ ys). q_find qb ((xs @ ys) ! i) h' = Some (int i + 1)))"
proof (rule returns_mono [OF q_dequeue_ok [OF assms]])
  fix h'
  assume q: "queue_at qb (xs @ ys) h'"
  have d: "distinct (qb # xs @ item # ys)"
    using assms by (rule queue_at_distinct)
  have cnt: "q_count qb h' = Some (int (length (xs @ ys)))"
    using q_count_loop_ok [of qb "[]" "xs @ ys" h' 0] q by (simp add: q_count_def)
  have find: "q_find qb x h' = Some (if x \<in> set (xs @ ys)
      then 1 + int (length (takeWhile (\<lambda>y. y \<noteq> x) (xs @ ys))) else 0)" if "x \<noteq> qb" for x
    using q_find_loop_ok [of qb "[]" "xs @ ys" h' x 1] q that queue_at_getfirst [OF q]
    by (simp add: q_find_def)
  have "q_find qb ((xs @ ys) ! i) h' = Some (int i + 1)" if "i < length (xs @ ys)" for i
  proof -
    define zs where "zs = xs @ ys"
    have zs: "distinct zs" "qb \<notin> set zs" "i < length zs"
      using d that by (auto simp: zs_def)
    then have "takeWhile (\<lambda>y. y \<noteq> zs ! i) zs = take i zs"
      by (intro takeWhile_eq_take_P_nth) (auto simp: nth_eq_iff_index_eq)
    moreover have "zs ! i \<in> set zs" "zs ! i \<noteq> qb"
      using zs nth_mem [of i zs] by auto
    ultimately show ?thesis
      using find [of "zs ! i"] zs(3) unfolding zs_def [symmetric] by simp
  qed
  then show "queue_at qb (xs @ ys) h' \<and> q_count qb h' = Some (int (length (xs @ ys))) \<and>
      q_find qb item h' = Some 0 \<and>
      (\<forall>i < length (xs @ ys). q_find qb ((xs @ ys) ! i) h' = Some (int i + 1))"
    using q cnt find [of item] d by auto
qed

theorem queue_remove_count_find_witness:
  "returns (q_dequeue 7 ((\<lambda>_. \<lparr>q_next = None, q_prev = None\<rparr>)(10 := \<lparr>q_next = Some 5, q_prev = Some 7\<rparr>,
       5 := \<lparr>q_next = Some 7, q_prev = Some 10\<rparr>, 7 := \<lparr>q_next = Some 10, q_prev = Some 5\<rparr>)))
     (\<lambda>h'. q_count 10 h' = Some 1 \<and> q_find 10 7 h' = Some 0 \<and> q_find 10 5 h' = Some 1)"
proof -
  let ?h = "(\<lambda>_. \<lparr>q_next = None, q_prev = None\<rparr>)(10 := \<lparr>q_next = Some 5, q_prev = Some 7\<rparr>,
       5 := \<lparr>q_next = Some 7, q_prev = Some 10\<rparr>, 7 := \<lparr>q_next = Some (10 :: nat), q_prev = Some 5\<rparr>)"
  have "queue_at 10 ([5] @ 7 # []) ?h"
    by (simp add: queue_at_def ring_def)
  note rm = queue_remove_count_find [OF this]
  show ?thesis
    by (rule returns_mono [OF rm]) simp
qed

text \<open>
  \<open>q_map\<close> with a callback that leaves the queue alone visits the items in order up to the
  first for which the callback is nonzero, and returns that value (zero when there is none).
\<close>

theorem queue_map_stops:
  assumes "queue_at qb xs h" and "\<And>q h. func q a b h = (f q, h)"
  shows "q_map qb func a b h = Some (first_nonzero f xs, h)"
  using q_map_loop_ok [of qb "[]" xs h func a b f] assms queue_at_getfirst [OF assms(1)]
  by (simp add: q_map_def)

theorem queue_map_stops_witness:
  "q_map 10 (\<lambda>q a b h. (if q = 5 then 3 else 0, h)) 0 0
     ((\<lambda>_. \<lparr>q_next = None, q_prev = None\<rparr>)(10 := \<lparr>q_next = Some 7, q_prev = Some 5\<rparr>,
       7 := \<lparr>q_next = Some 5, q_prev = Some 10\<rparr>, 5 := \<lparr>q_next = Some 10, q_prev = Some 7\<rparr>)) =
   Some (3, (\<lambda>_. \<lparr>q_next = None, q_prev = None\<rparr>)(10 := \<lparr>q_next = Some 7, q_prev = Some 5\<rparr>,
       7 := \<lparr>q_next = Some 5, q_prev = Some 10\<rparr>, 5 := \<lparr>q_next = Some 10, q_prev = Some 7\<rparr>))"
proof -
  let ?h = "(\<lambda>_. \<lparr>q_next = None, q_prev = None\<rparr>)(10 := \<lparr>q_next = Some 7, q_prev = Some 5\<rparr>,
       7 := \<lparr>q_next = Some 5, q_prev = Some 10\<rparr>, 5 := \<lparr>q_next = Some (10 :: nat), q_prev = Some 7\<rparr>)"
  have "queue_at 10 [7, 5] ?h"
    by (simp add: queue_at_def ring_def)
  from queue_map_stops [OF this, of "\<lambda>q a b h. (if q = 5 then 3 else 0, h)" 0 0
      "\<lambda>q. if q = 5 then 3 else 0"] show ?thesis
    by simp
qed

end
