(* ===== verification/Des.thy ===== *)
theory Des
  imports Xenon_Prelude
begin

text \<open>
  DES and triple DES, \<^verbatim>\<open>crypt/des.c\<close>.  The library is compiled for a 32-bit ABI, so
  \<open>unsigned long\<close> is \<open>u32\<close>.  A context is its list of subkeys (32 words for DES, 96 for triple
  DES), a block is a list of eight bytes.
\<close>

unbundle bit_operations_syntax

section \<open>Tables\<close>

definition SB1 :: "u32 list" where
  "SB1 = [
     0x01010400, 0x00000000, 0x00010000, 0x01010404,
     0x01010004, 0x00010404, 0x00000004, 0x00010000,
     0x00000400, 0x01010400, 0x01010404, 0x00000400,
     0x01000404, 0x01010004, 0x01000000, 0x00000004,
     0x00000404, 0x01000400, 0x01000400, 0x00010400,
     0x00010400, 0x01010000, 0x01010000, 0x01000404,
     0x00010004, 0x01000004, 0x01000004, 0x00010004,
     0x00000000, 0x00000404, 0x00010404, 0x01000000,
     0x00010000, 0x01010404, 0x00000004, 0x01010000,
     0x01010400, 0x01000000, 0x01000000, 0x00000400,
     0x01010004, 0x00010000, 0x00010400, 0x01000004,
     0x00000400, 0x00000004, 0x01000404, 0x00010404,
     0x01010404, 0x00010004, 0x01010000, 0x01000404,
     0x01000004, 0x00000404, 0x00010404, 0x01010400,
     0x00000404, 0x01000400, 0x01000400, 0x00000000,
     0x00010004, 0x00010400, 0x00000000, 0x01010004]"

definition SB2 :: "u32 list" where
  "SB2 = [
     0x80108020, 0x80008000, 0x00008000, 0x00108020,
     0x00100000, 0x00000020, 0x80100020, 0x80008020,
     0x80000020, 0x80108020, 0x80108000, 0x80000000,
     0x80008000, 0x00100000, 0x00000020, 0x80100020,
     0x00108000, 0x00100020, 0x80008020, 0x00000000,
     0x80000000, 0x00008000, 0x00108020, 0x80100000,
     0x00100020, 0x80000020, 0x00000000, 0x00108000,
     0x00008020, 0x80108000, 0x80100000, 0x00008020,
     0x00000000, 0x00108020, 0x80100020, 0x00100000,
     0x80008020, 0x80100000, 0x80108000, 0x00008000,
     0x80100000, 0x80008000, 0x00000020, 0x80108020,
     0x00108020, 0x00000020, 0x00008000, 0x80000000,
     0x00008020, 0x80108000, 0x00100000, 0x80000020,
     0x00100020, 0x80008020, 0x80000020, 0x00100020,
     0x00108000, 0x00000000, 0x80008000, 0x00008020,
     0x80000000, 0x80100020, 0x80108020, 0x00108000]"

definition SB3 :: "u32 list" where
  "SB3 = [
     0x00000208, 0x08020200, 0x00000000, 0x08020008,
     0x08000200, 0x00000000, 0x00020208, 0x08000200,
     0x00020008, 0x08000008, 0x08000008, 0x00020000,
     0x08020208, 0x00020008, 0x08020000, 0x00000208,
     0x08000000, 0x00000008, 0x08020200, 0x00000200,
     0x00020200, 0x08020000, 0x08020008, 0x00020208,
     0x08000208, 0x00020200, 0x00020000, 0x08000208,
     0x00000008, 0x08020208, 0x00000200, 0x08000000,
     0x08020200, 0x08000000, 0x00020008, 0x00000208,
     0x00020000, 0x08020200, 0x08000200, 0x00000000,
     0x00000200, 0x00020008, 0x08020208, 0x08000200,
     0x08000008, 0x00000200, 0x00000000, 0x08020008,
     0x08000208, 0x00020000, 0x08000000, 0x08020208,
     0x00000008, 0x00020208, 0x00020200, 0x08000008,
     0x08020000, 0x08000208, 0x00000208, 0x08020000,
     0x00020208, 0x00000008, 0x08020008, 0x00020200]"

definition SB4 :: "u32 list" where
  "SB4 = [
     0x00802001, 0x00002081, 0x00002081, 0x00000080,
     0x00802080, 0x00800081, 0x00800001, 0x00002001,
     0x00000000, 0x00802000, 0x00802000, 0x00802081,
     0x00000081, 0x00000000, 0x00800080, 0x00800001,
     0x00000001, 0x00002000, 0x00800000, 0x00802001,
     0x00000080, 0x00800000, 0x00002001, 0x00002080,
     0x00800081, 0x00000001, 0x00002080, 0x00800080,
     0x00002000, 0x00802080, 0x00802081, 0x00000081,
     0x00800080, 0x00800001, 0x00802000, 0x00802081,
     0x00000081, 0x00000000, 0x00000000, 0x00802000,
     0x00002080, 0x00800080, 0x00800081, 0x00000001,
     0x00802001, 0x00002081, 0x00002081, 0x00000080,
     0x00802081, 0x00000081, 0x00000001, 0x00002000,
     0x00800001, 0x00002001, 0x00802080, 0x00800081,
     0x00002001, 0x00002080, 0x00800000, 0x00802001,
     0x00000080, 0x00800000, 0x00002000, 0x00802080]"

definition SB5 :: "u32 list" where
  "SB5 = [
     0x00000100, 0x02080100, 0x02080000, 0x42000100,
     0x00080000, 0x00000100, 0x40000000, 0x02080000,
     0x40080100, 0x00080000, 0x02000100, 0x40080100,
     0x42000100, 0x42080000, 0x00080100, 0x40000000,
     0x02000000, 0x40080000, 0x40080000, 0x00000000,
     0x40000100, 0x42080100, 0x42080100, 0x02000100,
     0x42080000, 0x40000100, 0x00000000, 0x42000000,
     0x02080100, 0x02000000, 0x42000000, 0x00080100,
     0x00080000, 0x42000100, 0x00000100, 0x02000000,
     0x40000000, 0x02080000, 0x42000100, 0x40080100,
     0x02000100, 0x40000000, 0x42080000, 0x02080100,
     0x40080100, 0x00000100, 0x02000000, 0x42080000,
     0x42080100, 0x00080100, 0x42000000, 0x42080100,
     0x02080000, 0x00000000, 0x40080000, 0x42000000,
     0x00080100, 0x02000100, 0x40000100, 0x00080000,
     0x00000000, 0x40080000, 0x02080100, 0x40000100]"

definition SB6 :: "u32 list" where
  "SB6 = [
     0x20000010, 0x20400000, 0x00004000, 0x20404010,
     0x20400000, 0x00000010, 0x20404010, 0x00400000,
     0x20004000, 0x00404010, 0x00400000, 0x20000010,
     0x00400010, 0x20004000, 0x20000000, 0x00004010,
     0x00000000, 0x00400010, 0x20004010, 0x00004000,
     0x00404000, 0x20004010, 0x00000010, 0x20400010,
     0x20400010, 0x00000000, 0x00404010, 0x20404000,
     0x00004010, 0x00404000, 0x20404000, 0x20000000,
     0x20004000, 0x00000010, 0x20400010, 0x00404000,
     0x20404010, 0x00400000, 0x00004010, 0x20000010,
     0x00400000, 0x20004000, 0x20000000, 0x00004010,
     0x20000010, 0x20404010, 0x00404000, 0x20400000,
     0x00404010, 0x20404000, 0x00000000, 0x20400010,
     0x00000010, 0x00004000, 0x20400000, 0x00404010,
     0x00004000, 0x00400010, 0x20004010, 0x00000000,
     0x20404000, 0x20000000, 0x00400010, 0x20004010]"

definition SB7 :: "u32 list" where
  "SB7 = [
     0x00200000, 0x04200002, 0x04000802, 0x00000000,
     0x00000800, 0x04000802, 0x00200802, 0x04200800,
     0x04200802, 0x00200000, 0x00000000, 0x04000002,
     0x00000002, 0x04000000, 0x04200002, 0x00000802,
     0x04000800, 0x00200802, 0x00200002, 0x04000800,
     0x04000002, 0x04200000, 0x04200800, 0x00200002,
     0x04200000, 0x00000800, 0x00000802, 0x04200802,
     0x00200800, 0x00000002, 0x04000000, 0x00200800,
     0x04000000, 0x00200800, 0x00200000, 0x04000802,
     0x04000802, 0x04200002, 0x04200002, 0x00000002,
     0x00200002, 0x04000000, 0x04000800, 0x00200000,
     0x04200800, 0x00000802, 0x00200802, 0x04200800,
     0x00000802, 0x04000002, 0x04200802, 0x04200000,
     0x00200800, 0x00000000, 0x00000002, 0x04200802,
     0x00000000, 0x00200802, 0x04200000, 0x00000800,
     0x04000002, 0x04000800, 0x00000800, 0x00200002]"

definition SB8 :: "u32 list" where
  "SB8 = [
     0x10001040, 0x00001000, 0x00040000, 0x10041040,
     0x10000000, 0x10001040, 0x00000040, 0x10000000,
     0x00040040, 0x10040000, 0x10041040, 0x00041000,
     0x10041000, 0x00041040, 0x00001000, 0x00000040,
     0x10040000, 0x10000040, 0x10001000, 0x00001040,
     0x00041000, 0x00040040, 0x10040040, 0x10041000,
     0x00001040, 0x00000000, 0x00000000, 0x10040040,
     0x10000040, 0x10001000, 0x00041040, 0x00040000,
     0x00041040, 0x00040000, 0x10041000, 0x00001000,
     0x00000040, 0x10040040, 0x00001000, 0x00041040,
     0x10001000, 0x00000040, 0x10000040, 0x10040000,
     0x10040040, 0x10000000, 0x00040000, 0x10001040,
     0x00000000, 0x10041040, 0x00040040, 0x10000040,
     0x10040000, 0x10001000, 0x10001040, 0x00000000,
     0x10041040, 0x00041000, 0x00041000, 0x00001040,
     0x00001040, 0x00040040, 0x10000000, 0x10041000]"

definition LHs :: "u32 list" where
  "LHs = [
     0x00000000, 0x00000001, 0x00000100, 0x00000101,
     0x00010000, 0x00010001, 0x00010100, 0x00010101,
     0x01000000, 0x01000001, 0x01000100, 0x01000101,
     0x01010000, 0x01010001, 0x01010100, 0x01010101]"

definition RHs :: "u32 list" where
  "RHs = [
     0x00000000, 0x01000000, 0x00010000, 0x01010000,
     0x00000100, 0x01000100, 0x00010100, 0x01010100,
     0x00000001, 0x01000001, 0x00010001, 0x01010001,
     0x00000101, 0x01000101, 0x00010101, 0x01010101]"

section \<open>Words and bytes\<close>

definition GET_ULONG_BE :: "u8 list \<Rightarrow> nat \<Rightarrow> u32" where
  "GET_ULONG_BE b i =
     push_bit 24 (ucast (b ! i)) OR push_bit 16 (ucast (b ! (i + 1))) OR
     push_bit 8 (ucast (b ! (i + 2))) OR ucast (b ! (i + 3))"

definition PUT_ULONG_BE :: "u32 \<Rightarrow> u8 list" where
  "PUT_ULONG_BE n = [ucast (drop_bit 24 n), ucast (drop_bit 16 n), ucast (drop_bit 8 n), ucast n]"

section \<open>Permutations and the round\<close>

text \<open>The exchange step of the two permutation macros: \<open>T = ((X >> n) ^ Y) & m; Y ^= T; X ^= T << n\<close>.\<close>

definition exchange :: "nat \<Rightarrow> u32 \<Rightarrow> u32 \<Rightarrow> u32 \<Rightarrow> u32 \<times> u32" where
  "exchange n m X Y = (let T = (drop_bit n X XOR Y) AND m in (X XOR push_bit n T, Y XOR T))"

definition DES_IP :: "u32 \<Rightarrow> u32 \<Rightarrow> u32 \<times> u32" where
  "DES_IP X Y = (let
     (X, Y) = exchange 4 0x0F0F0F0F X Y;
     (X, Y) = exchange 16 0x0000FFFF X Y;
     (Y, X) = exchange 2 0x33333333 Y X;
     (Y, X) = exchange 8 0x00FF00FF Y X;
     Y = (push_bit 1 Y OR drop_bit 31 Y) AND 0xFFFFFFFF;
     T = (X XOR Y) AND 0xAAAAAAAA;
     Y = Y XOR T;
     X = X XOR T;
     X = (push_bit 1 X OR drop_bit 31 X) AND 0xFFFFFFFF
   in (X, Y))"

definition DES_FP :: "u32 \<Rightarrow> u32 \<Rightarrow> u32 \<times> u32" where
  "DES_FP X Y = (let
     X = (push_bit 31 X OR drop_bit 1 X) AND 0xFFFFFFFF;
     T = (X XOR Y) AND 0xAAAAAAAA;
     X = X XOR T;
     Y = Y XOR T;
     Y = (push_bit 31 Y OR drop_bit 1 Y) AND 0xFFFFFFFF;
     (Y, X) = exchange 8 0x00FF00FF Y X;
     (Y, X) = exchange 2 0x33333333 Y X;
     (X, Y) = exchange 16 0x0000FFFF X Y;
     (X, Y) = exchange 4 0x0F0F0F0F X Y
   in (X, Y))"

definition DES_ROUND :: "u32 \<Rightarrow> u32 \<Rightarrow> u32 \<Rightarrow> u32 \<Rightarrow> u32" where
  "DES_ROUND k1 k2 X Y = (let
     T = k1 XOR X;
     Y = Y XOR (SB8 ! unat (T AND 0x3F) XOR SB6 ! unat (drop_bit 8 T AND 0x3F) XOR
                SB4 ! unat (drop_bit 16 T AND 0x3F) XOR SB2 ! unat (drop_bit 24 T AND 0x3F));
     T = k2 XOR (push_bit 28 X OR drop_bit 4 X);
     Y = Y XOR (SB7 ! unat (T AND 0x3F) XOR SB5 ! unat (drop_bit 8 T AND 0x3F) XOR
                SB3 ! unat (drop_bit 16 T AND 0x3F) XOR SB1 ! unat (drop_bit 24 T AND 0x3F))
   in Y)"

section \<open>Key schedule\<close>

definition permuted_choice_1 :: "u32 \<Rightarrow> u32 \<Rightarrow> u32 \<times> u32" where
  "permuted_choice_1 X Y = (let
     (Y, X) = exchange 4 0x0F0F0F0F Y X;
     (Y, X) = exchange 0 0x10101010 Y X;
     X = push_bit 3 (LHs ! unat (X AND 0xF)) OR push_bit 2 (LHs ! unat (drop_bit 8 X AND 0xF)) OR
         push_bit 1 (LHs ! unat (drop_bit 16 X AND 0xF)) OR LHs ! unat (drop_bit 24 X AND 0xF) OR
         push_bit 7 (LHs ! unat (drop_bit 5 X AND 0xF)) OR push_bit 6 (LHs ! unat (drop_bit 13 X AND 0xF)) OR
         push_bit 5 (LHs ! unat (drop_bit 21 X AND 0xF)) OR push_bit 4 (LHs ! unat (drop_bit 29 X AND 0xF));
     Y = push_bit 3 (RHs ! unat (drop_bit 1 Y AND 0xF)) OR push_bit 2 (RHs ! unat (drop_bit 9 Y AND 0xF)) OR
         push_bit 1 (RHs ! unat (drop_bit 17 Y AND 0xF)) OR RHs ! unat (drop_bit 25 Y AND 0xF) OR
         push_bit 7 (RHs ! unat (drop_bit 4 Y AND 0xF)) OR push_bit 6 (RHs ! unat (drop_bit 12 Y AND 0xF)) OR
         push_bit 5 (RHs ! unat (drop_bit 20 Y AND 0xF)) OR push_bit 4 (RHs ! unat (drop_bit 28 Y AND 0xF))
   in (X AND 0x0FFFFFFF, Y AND 0x0FFFFFFF))"

definition rotate_halves :: "nat \<Rightarrow> u32 \<Rightarrow> u32" where
  "rotate_halves i X =
     (if i < 2 \<or> i = 8 \<or> i = 15 then (push_bit 1 X OR drop_bit 27 X) AND 0x0FFFFFFF
      else (push_bit 2 X OR drop_bit 26 X) AND 0x0FFFFFFF)"

definition subkey_1 :: "u32 \<Rightarrow> u32 \<Rightarrow> u32" where
  "subkey_1 X Y =
     (push_bit 4 X AND 0x24000000) OR (push_bit 28 X AND 0x10000000) OR
     (push_bit 14 X AND 0x08000000) OR (push_bit 18 X AND 0x02080000) OR
     (push_bit 6 X AND 0x01000000) OR (push_bit 9 X AND 0x00200000) OR
     (drop_bit 1 X AND 0x00100000) OR (push_bit 10 X AND 0x00040000) OR
     (push_bit 2 X AND 0x00020000) OR (drop_bit 10 X AND 0x00010000) OR
     (drop_bit 13 Y AND 0x00002000) OR (drop_bit 4 Y AND 0x00001000) OR
     (push_bit 6 Y AND 0x00000800) OR (drop_bit 1 Y AND 0x00000400) OR
     (drop_bit 14 Y AND 0x00000200) OR (Y AND 0x00000100) OR
     (drop_bit 5 Y AND 0x00000020) OR (drop_bit 10 Y AND 0x00000010) OR
     (drop_bit 3 Y AND 0x00000008) OR (drop_bit 18 Y AND 0x00000004) OR
     (drop_bit 26 Y AND 0x00000002) OR (drop_bit 24 Y AND 0x00000001)"

definition subkey_2 :: "u32 \<Rightarrow> u32 \<Rightarrow> u32" where
  "subkey_2 X Y =
     (push_bit 15 X AND 0x20000000) OR (push_bit 17 X AND 0x10000000) OR
     (push_bit 10 X AND 0x08000000) OR (push_bit 22 X AND 0x04000000) OR
     (drop_bit 2 X AND 0x02000000) OR (push_bit 1 X AND 0x01000000) OR
     (push_bit 16 X AND 0x00200000) OR (push_bit 11 X AND 0x00100000) OR
     (push_bit 3 X AND 0x00080000) OR (drop_bit 6 X AND 0x00040000) OR
     (push_bit 15 X AND 0x00020000) OR (drop_bit 4 X AND 0x00010000) OR
     (drop_bit 2 Y AND 0x00002000) OR (push_bit 8 Y AND 0x00001000) OR
     (drop_bit 14 Y AND 0x00000808) OR (drop_bit 9 Y AND 0x00000400) OR
     (Y AND 0x00000200) OR (push_bit 7 Y AND 0x00000100) OR
     (drop_bit 7 Y AND 0x00000020) OR (drop_bit 3 Y AND 0x00000011) OR
     (push_bit 2 Y AND 0x00000004) OR (drop_bit 21 Y AND 0x00000002)"

fun des_subkeys :: "nat list \<Rightarrow> u32 \<Rightarrow> u32 \<Rightarrow> u32 list" where
  "des_subkeys [] X Y = []"
| "des_subkeys (i # is) X Y =
     (let X = rotate_halves i X; Y = rotate_halves i Y
      in subkey_1 X Y # subkey_2 X Y # des_subkeys is X Y)"

definition des_setkey :: "u8 list \<Rightarrow> u32 list" where
  "des_setkey key = (let
     X = GET_ULONG_BE key 0;
     Y = GET_ULONG_BE key 4;
     (X, Y) = permuted_choice_1 X Y
   in des_subkeys [0..<16] X Y)"

definition des_setkey_enc :: "u8 list \<Rightarrow> u32 list" where
  "des_setkey_enc key = des_setkey key"

definition SWAP :: "nat \<Rightarrow> nat \<Rightarrow> u32 list \<Rightarrow> u32 list" where
  "SWAP a b sk = (let t = sk ! a in sk[a := sk ! b, b := t])"

definition des_setkey_dec :: "u8 list \<Rightarrow> u32 list" where
  "des_setkey_dec key =
     fold (\<lambda>i sk. SWAP (2 * i + 1) (31 - 2 * i) (SWAP (2 * i) (30 - 2 * i) sk)) [0..<8] (des_setkey key)"

text \<open>The pairs of arrays \<open>(esk, dsk)\<close> of the triple-DES schedules; the arrays start out with any content.\<close>

definition blit :: "nat \<Rightarrow> 'a list \<Rightarrow> 'a list \<Rightarrow> 'a list" where
  "blit off ys xs = take off xs @ ys @ drop (off + length ys) xs"

definition set2key_step :: "nat \<Rightarrow> u32 list \<times> u32 list \<Rightarrow> u32 list \<times> u32 list" where
  "set2key_step i = (\<lambda>(esk, dsk). let
     dsk = dsk[i := esk ! (30 - i)];
     dsk = dsk[i + 1 := esk ! (31 - i)];
     esk = esk[i + 32 := dsk ! (62 - i)];
     esk = esk[i + 33 := dsk ! (63 - i)];
     esk = esk[i + 64 := esk ! i];
     esk = esk[i + 65 := esk ! (i + 1)];
     dsk = dsk[i + 64 := dsk ! i];
     dsk = dsk[i + 65 := dsk ! (i + 1)]
   in (esk, dsk))"

definition des3_set2key :: "u8 list \<Rightarrow> u32 list \<times> u32 list \<Rightarrow> u32 list \<times> u32 list" where
  "des3_set2key key = (\<lambda>(esk, dsk). let
     esk = blit 0 (des_setkey (take 8 key)) esk;
     dsk = blit 32 (des_setkey (take 8 (drop 8 key))) dsk
   in fold (\<lambda>i. set2key_step (2 * i)) [0..<16] (esk, dsk))"

definition des3_set2key_enc :: "u8 list \<Rightarrow> u32 list" where
  "des3_set2key_enc key = fst (des3_set2key key (replicate 96 0, replicate 96 0))"

definition des3_set2key_dec :: "u8 list \<Rightarrow> u32 list" where
  "des3_set2key_dec key = snd (des3_set2key key (replicate 96 0, replicate 96 0))"

definition set3key_step :: "nat \<Rightarrow> u32 list \<times> u32 list \<Rightarrow> u32 list \<times> u32 list" where
  "set3key_step i = (\<lambda>(esk, dsk). let
     dsk = dsk[i := esk ! (94 - i)];
     dsk = dsk[i + 1 := esk ! (95 - i)];
     esk = esk[i + 32 := dsk ! (62 - i)];
     esk = esk[i + 33 := dsk ! (63 - i)];
     dsk = dsk[i + 64 := esk ! (30 - i)];
     dsk = dsk[i + 65 := esk ! (31 - i)]
   in (esk, dsk))"

definition des3_set3key :: "u8 list \<Rightarrow> u32 list \<times> u32 list \<Rightarrow> u32 list \<times> u32 list" where
  "des3_set3key key = (\<lambda>(esk, dsk). let
     esk = blit 0 (des_setkey (take 8 key)) esk;
     dsk = blit 32 (des_setkey (take 8 (drop 8 key))) dsk;
     esk = blit 64 (des_setkey (take 8 (drop 16 key))) esk
   in fold (\<lambda>i. set3key_step (2 * i)) [0..<16] (esk, dsk))"

definition des3_set3key_enc :: "u8 list \<Rightarrow> u32 list" where
  "des3_set3key_enc key = fst (des3_set3key key (replicate 96 0, replicate 96 0))"

definition des3_set3key_dec :: "u8 list \<Rightarrow> u32 list" where
  "des3_set3key_dec key = snd (des3_set3key key (replicate 96 0, replicate 96 0))"

section \<open>Blocks\<close>

text \<open>One turn of the loop: \<open>DES_ROUND (Y, X); DES_ROUND (X, Y)\<close> with the four subkeys from \<open>n\<close> on.\<close>

definition des_turn :: "u32 list \<Rightarrow> nat \<Rightarrow> u32 \<times> u32 \<Rightarrow> u32 \<times> u32" where
  "des_turn sk n = (\<lambda>(X, Y). let
     X = DES_ROUND (sk ! n) (sk ! (n + 1)) Y X;
     Y = DES_ROUND (sk ! (n + 2)) (sk ! (n + 3)) X Y
   in (X, Y))"

definition des_crypt_ecb :: "u32 list \<Rightarrow> u8 list \<Rightarrow> u8 list" where
  "des_crypt_ecb sk input = (let
     X = GET_ULONG_BE input 0;
     Y = GET_ULONG_BE input 4;
     (X, Y) = DES_IP X Y;
     (X, Y) = fold (\<lambda>i. des_turn sk (4 * i)) [0..<8] (X, Y);
     (Y, X) = DES_FP Y X
   in PUT_ULONG_BE Y @ PUT_ULONG_BE X)"

definition des3_crypt_ecb :: "u32 list \<Rightarrow> u8 list \<Rightarrow> u8 list" where
  "des3_crypt_ecb sk input = (let
     X = GET_ULONG_BE input 0;
     Y = GET_ULONG_BE input 4;
     (X, Y) = DES_IP X Y;
     (X, Y) = fold (\<lambda>i. des_turn sk (4 * i)) [0..<8] (X, Y);
     (Y, X) = fold (\<lambda>i. des_turn sk (32 + 4 * i)) [0..<8] (Y, X);
     (X, Y) = fold (\<lambda>i. des_turn sk (64 + 4 * i)) [0..<8] (X, Y);
     (Y, X) = DES_FP Y X
   in PUT_ULONG_BE Y @ PUT_ULONG_BE X)"

section \<open>Buffers\<close>

text \<open>
  Cipher block chaining over a buffer, with the two branches of the mode; a last block shorter than
  eight bytes makes the code run over the end of the buffer.  The result is the output and the
  vector left in \<open>iv\<close>.
\<close>

definition xor_block :: "u8 list \<Rightarrow> u8 list \<Rightarrow> u8 list" where
  "xor_block a b = map2 (XOR) a b"

function cbc_encrypt :: "(u8 list \<Rightarrow> u8 list) \<Rightarrow> u8 list \<Rightarrow> u8 list \<Rightarrow> (u8 list \<times> u8 list) option" where
  "cbc_encrypt crypt iv input =
     (if input = [] then Some ([], iv)
      else if length input < 8 then None
      else do {
        let output = crypt (xor_block (take 8 input) iv);
        (rest, iv) \<leftarrow> cbc_encrypt crypt output (drop 8 input);
        Some (output @ rest, iv) })"
  by pat_completeness auto
termination
  by (relation "measure (\<lambda>(_, _, input). length input)") auto

function cbc_decrypt :: "(u8 list \<Rightarrow> u8 list) \<Rightarrow> u8 list \<Rightarrow> u8 list \<Rightarrow> (u8 list \<times> u8 list) option" where
  "cbc_decrypt crypt iv input =
     (if input = [] then Some ([], iv)
      else if length input < 8 then None
      else do {
        let temp = take 8 input;
        let output = xor_block (crypt temp) iv;
        (rest, iv) \<leftarrow> cbc_decrypt crypt temp (drop 8 input);
        Some (output @ rest, iv) })"
  by pat_completeness auto
termination
  by (relation "measure (\<lambda>(_, _, input). length input)") auto

datatype des_mode = DES_ENCRYPT | DES_DECRYPT

definition des_crypt_cbc :: "u32 list \<Rightarrow> des_mode \<Rightarrow> u8 list \<Rightarrow> u8 list \<Rightarrow> (u8 list \<times> u8 list) option" where
  "des_crypt_cbc sk mode iv input =
     (if mode = DES_ENCRYPT then cbc_encrypt (des_crypt_ecb sk) iv input
      else cbc_decrypt (des_crypt_ecb sk) iv input)"

definition des3_crypt_cbc :: "u32 list \<Rightarrow> des_mode \<Rightarrow> u8 list \<Rightarrow> u8 list \<Rightarrow> (u8 list \<times> u8 list) option" where
  "des3_crypt_cbc sk mode iv input =
     (if mode = DES_ENCRYPT then cbc_encrypt (des3_crypt_ecb sk) iv input
      else cbc_decrypt (des3_crypt_ecb sk) iv input)"

declare cbc_encrypt.simps [simp del] cbc_decrypt.simps [simp del]

end
