(* ===== verification/Des_Cipher.thy ===== *)
theory Des_Cipher
  imports Des
begin

text \<open>
  Decryption undoes encryption: the permutations of \<^verbatim>\<open>crypt/des.c\<close> are inverse to each other, a
  Feistel round undoes itself, and the decryption schedules run the subkeys of the encryption
  schedules backwards.  Cipher block chaining is verified once for every block cipher, in the
  locale \<open>block_cipher\<close>, and interpreted for DES and for triple DES with two and three keys.
\<close>

unbundle bit_operations_syntax

section \<open>Bytes and words\<close>

lemma PUT_length [simp]: "length (PUT_ULONG_BE w) = 4"
  by (simp add: PUT_ULONG_BE_def)

lemma join_bytes:
  "push_bit 24 (ucast (ucast (drop_bit 24 a) :: u8)) OR push_bit 16 (ucast (ucast (drop_bit 16 a) :: u8)) OR
     push_bit 8 (ucast (ucast (drop_bit 8 a) :: u8)) OR ucast (ucast a :: u8) = (a :: u32)"
  (is "?l = a")
proof (rule bit_word_eqI)
  fix n
  assume "n < LENGTH(32)"
  then consider "n < 8" | "8 \<le> n" "n < 16" | "16 \<le> n" "n < 24" | "24 \<le> n" "n < 32"
    by force
  then show "bit ?l n = bit a n"
    by cases (auto simp: bit_simps)
qed

lemma GET_PUT: "GET_ULONG_BE (PUT_ULONG_BE a @ PUT_ULONG_BE b) 0 = a"
    "GET_ULONG_BE (PUT_ULONG_BE a @ PUT_ULONG_BE b) 4 = b"
  using join_bytes by (simp_all add: GET_ULONG_BE_def PUT_ULONG_BE_def)

lemma PUT_GET:
  assumes "length b = 8"
  shows "PUT_ULONG_BE (GET_ULONG_BE b 0) @ PUT_ULONG_BE (GET_ULONG_BE b 4) = b"
proof -
  have g: "PUT_ULONG_BE (GET_ULONG_BE b i) = [b ! i, b ! (i + 1), b ! (i + 2), b ! (i + 3)]" for i
    by (auto simp: GET_ULONG_BE_def PUT_ULONG_BE_def intro!: bit_word_eqI)
      (auto simp: bit_simps dest: bit_imp_le_length)
  show ?thesis
    using assms by (simp add: g) (auto simp: list_eq_iff_nth_eq less_Suc_eq numeral_eq_Suc)
qed

section \<open>The permutations\<close>

lemma drop_push:
  assumes "n < 32" and "t AND m = t" and "m AND mask (32 - n) = m"
  shows "drop_bit n (push_bit n (t :: u32)) = t"
proof -
  have "t AND mask (32 - n) = t"
    using assms by (metis and.assoc)
  then have "take_bit (32 - n) t = t"
    by (simp add: take_bit_eq_mask)
  then show ?thesis
    using assms(1) by (auto simp: bit_eq_iff bit_simps)
qed

lemma exchange_exchange:
  assumes "n < 32" and "m AND mask (32 - n) = m"
  shows "(case exchange n m X Y of (X, Y) \<Rightarrow> exchange n m X Y) = (X, Y)"
proof -
  define T where "T = (drop_bit n X XOR Y) AND m"
  have "drop_bit n (push_bit n T) = T"
    by (rule drop_push [OF assms(1) _ assms(2)]) (simp add: T_def and.assoc)
  then have "drop_bit n (X XOR push_bit n T) XOR (Y XOR T) = (drop_bit n X XOR T) XOR (Y XOR T)"
    by (simp add: drop_bit_xor)
  also have "\<dots> = drop_bit n X XOR Y"
    by (rule bit_word_eqI) (auto simp: bit_xor_iff)
  finally have T': "(drop_bit n (X XOR push_bit n T) XOR (Y XOR T)) AND m = T"
    by (simp only: T_def)
  have "exchange n m X Y = (X XOR push_bit n T, Y XOR T)"
    by (simp add: exchange_def T_def Let_def)
  moreover have "exchange n m (X XOR push_bit n T) (Y XOR T) = (X, Y)"
    unfolding exchange_def Let_def T' by (simp add: xor.assoc)
  ultimately show ?thesis
    by simp
qed

lemma rotate_back:
  fixes X :: u32
  assumes "0 < n" "n < 32" "m = 32 - n"
  shows "push_bit m (push_bit n X OR drop_bit m X) OR drop_bit n (push_bit n X OR drop_bit m X) = X"
proof (rule bit_word_eqI)
  fix i
  assume "i < LENGTH(32)"
  then show "bit (push_bit m (push_bit n X OR drop_bit m X) OR drop_bit n (push_bit n X OR drop_bit m X)) i = bit X i"
    using assms by (cases "i < m") (auto simp: bit_simps dest: bit_imp_le_length)
qed

text \<open>The steps of the permutation macros as functions on the pair \<open>(X, Y)\<close>.\<close>

definition xch :: "nat \<Rightarrow> u32 \<Rightarrow> u32 \<times> u32 \<Rightarrow> u32 \<times> u32" where
  "xch n m p = (case p of (X, Y) \<Rightarrow> exchange n m X Y)"

definition rot :: "nat \<Rightarrow> u32 \<Rightarrow> u32" where
  "rot n X = push_bit n X OR drop_bit (32 - n) X"

definition mix :: "u32 \<Rightarrow> u32 \<times> u32 \<Rightarrow> u32 \<times> u32" where
  "mix m p = (case p of (X, Y) \<Rightarrow> let T = (X XOR Y) AND m in (X XOR T, Y XOR T))"

lemma rot_rot: "0 < n \<Longrightarrow> n < 32 \<Longrightarrow> rot (32 - n) (rot n X) = X"
  using rotate_back [of n "32 - n" X] by (simp add: rot_def)

lemma mix_mix: "mix m (mix m p) = p"
proof -
  obtain X Y where p: "p = (X, Y)"
    by (cases p)
  define T where "T = (X XOR Y) AND m"
  have "(X XOR T) XOR (Y XOR T) = X XOR Y"
    by (rule bit_word_eqI) (auto simp: bit_xor_iff)
  then have "mix m (X XOR T, Y XOR T) = (X, Y)"
    by (simp add: mix_def Let_def xor.assoc T_def [symmetric])
  then show ?thesis
    by (simp add: p mix_def [of m "(X, Y)"] Let_def T_def)
qed

lemma xch_xch:
  "xch 4 0x0F0F0F0F (xch 4 0x0F0F0F0F p) = p" "xch 16 0x0000FFFF (xch 16 0x0000FFFF p) = p"
  "xch 2 0x33333333 (xch 2 0x33333333 p) = p" "xch 8 0x00FF00FF (xch 8 0x00FF00FF p) = p"
  by (cases p; simp add: xch_def exchange_exchange mask_eq_exp_minus_1)+

lemma rot_all:
  "(push_bit 1 X OR drop_bit 31 X) AND 0xFFFFFFFF = rot 1 X"
  "(push_bit 31 X OR drop_bit 1 X) AND 0xFFFFFFFF = rot 31 X"
proof -
  have "(0xFFFFFFFF :: u32) = - 1"
    by simp
  then show "(push_bit 1 X OR drop_bit 31 X) AND 0xFFFFFFFF = rot 1 X"
      "(push_bit 31 X OR drop_bit 1 X) AND 0xFFFFFFFF = rot 31 X"
    by (simp_all only: and.right_neutral rot_def) simp_all
qed

lemma IP_steps:
  "DES_IP X Y = map_prod (rot 1) id (mix 0xAAAAAAAA (map_prod id (rot 1) (prod.swap (xch 8 0x00FF00FF
     (xch 2 0x33333333 (prod.swap (xch 16 0x0000FFFF (xch 4 0x0F0F0F0F (X, Y)))))))))"
  unfolding DES_IP_def rot_all by (simp add: xch_def mix_def Let_def split: prod.splits)

lemma FP_steps:
  "DES_FP X Y = xch 4 0x0F0F0F0F (xch 16 0x0000FFFF (prod.swap (xch 2 0x33333333 (xch 8 0x00FF00FF
     (prod.swap (map_prod id (rot 31) (mix 0xAAAAAAAA (map_prod (rot 31) id (X, Y)))))))))"
  unfolding DES_FP_def rot_all by (simp add: xch_def mix_def Let_def split: prod.splits)

lemma rot_pair:
  "map_prod (rot 31) id (map_prod (rot 1) id p) = p" "map_prod (rot 1) id (map_prod (rot 31) id p) = p"
  "map_prod id (rot 31) (map_prod id (rot 1) p) = p" "map_prod id (rot 1) (map_prod id (rot 31) p) = p"
  using rot_rot [of 1] rot_rot [of 31] by (cases p; simp)+

lemma FP_IP: "(case DES_IP X Y of (X, Y) \<Rightarrow> DES_FP X Y) = (X, Y)"
proof -
  have "case_prod DES_FP p = xch 4 0x0F0F0F0F (xch 16 0x0000FFFF (prod.swap (xch 2 0x33333333 (xch 8 0x00FF00FF
     (prod.swap (map_prod id (rot 31) (mix 0xAAAAAAAA (map_prod (rot 31) id p))))))))" for p
    by (cases p) (simp only: FP_steps prod.case)
  then show ?thesis
    by (simp only: IP_steps rot_pair mix_mix swap_swap xch_xch)
qed

lemma IP_FP: "(case DES_FP X Y of (X, Y) \<Rightarrow> DES_IP X Y) = (X, Y)"
proof -
  have "case_prod DES_IP p = map_prod (rot 1) id (mix 0xAAAAAAAA (map_prod id (rot 1) (prod.swap (xch 8 0x00FF00FF
     (xch 2 0x33333333 (prod.swap (xch 16 0x0000FFFF (xch 4 0x0F0F0F0F p))))))))" for p
    by (cases p) (simp only: IP_steps prod.case)
  then show ?thesis
    by (simp only: FP_steps rot_pair mix_mix swap_swap xch_xch)
qed

section \<open>Feistel rounds\<close>

definition des_f :: "u32 \<times> u32 \<Rightarrow> u32 \<Rightarrow> u32" where
  "des_f k X = DES_ROUND (fst k) (snd k) X 0"

lemma DES_ROUND_xor: "DES_ROUND k1 k2 X Y = Y XOR des_f (k1, k2) X"
  by (simp add: DES_ROUND_def des_f_def xor.assoc)

definition half_round :: "u32 \<times> u32 \<Rightarrow> u32 \<times> u32 \<Rightarrow> u32 \<times> u32" where
  "half_round k p = (snd p, fst p XOR des_f k (snd p))"

lemma half_round_undo: "half_round k (prod.swap (half_round k p)) = prod.swap p"
  by (cases p) (simp add: half_round_def xor.assoc)

lemma rounds_undo: "fold half_round (rev ks) (prod.swap (fold half_round ks p)) = prod.swap p"
proof (induction ks arbitrary: p)
  case (Cons k ks)
  then show ?case
    by (simp add: half_round_undo)
qed simp

definition key_pairs :: "u32 list \<Rightarrow> nat \<Rightarrow> (u32 \<times> u32) list" where
  "key_pairs sk off = map (\<lambda>i. (sk ! (off + 2 * i), sk ! (off + 2 * i + 1))) [0..<16]"

lemma des_turn_half: "des_turn sk n p =
    half_round (sk ! (n + 2), sk ! (n + 3)) (half_round (sk ! n, sk ! (n + 1)) p)"
  by (cases p) (simp add: des_turn_def half_round_def DES_ROUND_xor Let_def)

lemma upt_8: "[0..<8] = [0, 1, 2, 3, 4, 5, 6, 7]"
  by (simp add: upt_rec)

lemma upt_16: "[0..<16] = [0, 1, 2, 3, 4, 5, 6, 7, 8, 9, 10, 11, 12, 13, 14, 15]"
  by (simp add: upt_rec)

lemma turns_rounds: "fold (\<lambda>i. des_turn sk (off + 4 * i)) [0..<8] p = fold half_round (key_pairs sk off) p"
  by (simp add: upt_8 upt_16 key_pairs_def des_turn_half add.commute [of _ off]) (simp add: numeral_3_eq_3)

lemma des_subkeys_length: "length (des_subkeys is X Y) = 2 * length is"
  by (induction "is" arbitrary: X Y) (simp_all add: Let_def)

lemma des_setkey_length [simp]: "length (des_setkey key) = 32"
  by (simp add: des_setkey_def des_subkeys_length split: prod.splits)

lemma setkey_dec_pairs: "key_pairs (des_setkey_dec key) 0 = rev (key_pairs (des_setkey_enc key) 0)"
  by (simp add: des_setkey_dec_def des_setkey_enc_def key_pairs_def upt_8 upt_16 SWAP_def Let_def nth_list_update)

section \<open>Blocks\<close>

text \<open>The permutations around a transformation of the pair of halves.\<close>

definition on_block :: "(u32 \<times> u32 \<Rightarrow> u32 \<times> u32) \<Rightarrow> u8 list \<Rightarrow> u8 list" where
  "on_block g input =
     (case case_prod DES_FP (prod.swap (g (DES_IP (GET_ULONG_BE input 0) (GET_ULONG_BE input 4)))) of
        (a, b) \<Rightarrow> PUT_ULONG_BE a @ PUT_ULONG_BE b)"

lemma on_block_length [simp]: "length (on_block g input) = 8"
  by (simp add: on_block_def split: prod.splits)

lemma on_block_undo:
  assumes "length b = 8" and "\<And>p. h (prod.swap (g p)) = prod.swap p"
  shows "on_block h (on_block g b) = b"
proof -
  let ?p = "DES_IP (GET_ULONG_BE b 0) (GET_ULONG_BE b 4)"
  obtain x y where xy: "prod.swap (g ?p) = (x, y)"
    by (cases "prod.swap (g ?p)")
  obtain u v where uv: "DES_FP x y = (u, v)"
    by (cases "DES_FP x y")
  then have "DES_IP u v = prod.swap (g ?p)"
    using IP_FP [of x y] xy by simp
  then have "prod.swap (h (DES_IP u v)) = ?p"
    using assms(2) by simp
  then have "case_prod DES_FP (prod.swap (h (DES_IP u v))) = (GET_ULONG_BE b 0, GET_ULONG_BE b 4)"
    using FP_IP by simp
  then show ?thesis
    using xy uv by (simp add: on_block_def GET_PUT PUT_GET [OF assms(1)])
qed

lemma des_crypt_ecb_block: "des_crypt_ecb sk = on_block (fold half_round (key_pairs sk 0))"
  using turns_rounds [of sk 0]
  by (simp add: fun_eq_iff des_crypt_ecb_def on_block_def Let_def split: prod.splits)

lemma des3_crypt_ecb_block: "des3_crypt_ecb sk = on_block (\<lambda>p.
    fold half_round (key_pairs sk 64) (prod.swap (fold half_round (key_pairs sk 32) (prod.swap
      (fold half_round (key_pairs sk 0) p)))))"
  using turns_rounds [of sk 0] turns_rounds [of sk 32] turns_rounds [of sk 64]
  by (simp add: fun_eq_iff des3_crypt_ecb_def on_block_def Let_def split: prod.splits)

lemma des_decrypts:
  "length b = 8 \<Longrightarrow> des_crypt_ecb (des_setkey_dec key) (des_crypt_ecb (des_setkey_enc key) b) = b"
  by (simp add: des_crypt_ecb_block on_block_undo setkey_dec_pairs rounds_undo)

section \<open>Triple DES schedules\<close>

lemma blit_length [simp]: "off + length ys \<le> length xs \<Longrightarrow> length (blit off ys xs) = length xs"
  by (simp add: blit_def)

lemma blit_nth:
  "off + length ys \<le> length xs \<Longrightarrow> i < length xs \<Longrightarrow>
     blit off ys xs ! i = (if off \<le> i \<and> i < off + length ys then ys ! (i - off) else xs ! i)"
  by (auto simp: blit_def nth_append)

lemma nth_update4:
  assumes "a < length xs" "b < length xs" "c < length xs" "d < length xs"
  shows "xs[a := u, b := v, c := w, d := x] ! j =
     (if j = d then x else if j = c then w else if j = b then v else if j = a then u else xs ! j)"
  using assms by (simp add: nth_list_update)

definition set2key_inv :: "u32 list \<Rightarrow> u32 list \<Rightarrow> nat \<Rightarrow> u32 list \<times> u32 list \<Rightarrow> bool" where
  "set2key_inv k1 k2 n = (\<lambda>(esk, dsk). length esk = 96 \<and> length dsk = 96 \<and>
     (\<forall>j<32. esk ! j = k1 ! j) \<and> (\<forall>j<32. dsk ! (32 + j) = k2 ! j) \<and>
     (\<forall>i<n. dsk ! (2 * i) = k1 ! (30 - 2 * i) \<and> dsk ! (2 * i + 1) = k1 ! (31 - 2 * i)) \<and>
     (\<forall>i<n. esk ! (32 + 2 * i) = k2 ! (30 - 2 * i) \<and> esk ! (33 + 2 * i) = k2 ! (31 - 2 * i)) \<and>
     (\<forall>i<n. esk ! (64 + 2 * i) = k1 ! (2 * i) \<and> esk ! (65 + 2 * i) = k1 ! (2 * i + 1)) \<and>
     (\<forall>i<n. dsk ! (64 + 2 * i) = k1 ! (30 - 2 * i) \<and> dsk ! (65 + 2 * i) = k1 ! (31 - 2 * i)))"

lemma set2key_step_eq:
  assumes "set2key_inv k1 k2 n (esk, dsk)" "n < 16"
  shows "set2key_step (2 * n) (esk, dsk) =
    (esk[2 * n + 32 := k2 ! (30 - 2 * n), 2 * n + 33 := k2 ! (31 - 2 * n),
         2 * n + 64 := k1 ! (2 * n), 2 * n + 65 := k1 ! (2 * n + 1)],
     dsk[2 * n := k1 ! (30 - 2 * n), 2 * n + 1 := k1 ! (31 - 2 * n),
         2 * n + 64 := k1 ! (30 - 2 * n), 2 * n + 65 := k1 ! (31 - 2 * n)])"
proof -
  have l: "length esk = 96" "length dsk = 96" and B: "\<And>j. j < 32 \<Longrightarrow> esk ! j = k1 ! j"
      and C: "\<And>j. j < 32 \<Longrightarrow> dsk ! (32 + j) = k2 ! j"
    using assms(1) unfolding set2key_inv_def by blast+
  have e: "62 - 2 * n = 32 + (30 - 2 * n)" "63 - 2 * n = 32 + (31 - 2 * n)"
    using assms(2) by simp_all
  have lt: "30 - 2 * n < 32" "31 - 2 * n < 32" "2 * n < 32" "2 * n + 1 < 32"
    using assms(2) by simp_all
  have k2: "dsk ! (62 - 2 * n) = k2 ! (30 - 2 * n)" "dsk ! (63 - 2 * n) = k2 ! (31 - 2 * n)"
    unfolding e using C lt by blast+
  have k1: "esk ! (30 - 2 * n) = k1 ! (30 - 2 * n)" "esk ! (31 - 2 * n) = k1 ! (31 - 2 * n)"
      "esk ! (2 * n) = k1 ! (2 * n)" "esk ! (2 * n + 1) = k1 ! (2 * n + 1)"
    using B lt by blast+
  have ne: "62 - 2 * n \<noteq> 2 * n" "62 - 2 * n \<noteq> 2 * n + 1" "63 - 2 * n \<noteq> 2 * n" "63 - 2 * n \<noteq> 2 * n + 1"
    using assms(2) by presburger+
  define m where "m = 2 * n"
  note facts = k1 k2 ne lt
  have "m + 1 < length dsk"
    using lt l by (simp add: m_def)
  then show ?thesis
    using facts unfolding m_def [symmetric]
    by (simp add: set2key_step_def Let_def nth_list_update_neq)
qed

lemma set2key_step_inv:
  assumes inv: "set2key_inv k1 k2 n (esk, dsk)" and n: "n < 16"
  shows "set2key_inv k1 k2 (Suc n) (set2key_step (2 * n) (esk, dsk))"
proof -
  define e' d' where ed: "e' = esk[2 * n + 32 := k2 ! (30 - 2 * n), 2 * n + 33 := k2 ! (31 - 2 * n),
         2 * n + 64 := k1 ! (2 * n), 2 * n + 65 := k1 ! (2 * n + 1)]"
      "d' = dsk[2 * n := k1 ! (30 - 2 * n), 2 * n + 1 := k1 ! (31 - 2 * n),
         2 * n + 64 := k1 ! (30 - 2 * n), 2 * n + 65 := k1 ! (31 - 2 * n)]"
  have l: "length esk = 96" "length dsk = 96"
    using inv by (simp_all add: set2key_inv_def)
  have e: "e' ! j = (if j = 2 * n + 65 then k1 ! (2 * n + 1) else if j = 2 * n + 64 then k1 ! (2 * n)
      else if j = 2 * n + 33 then k2 ! (31 - 2 * n) else if j = 2 * n + 32 then k2 ! (30 - 2 * n) else esk ! j)" for j
    unfolding ed using n l by (intro nth_update4) simp_all
  have d: "d' ! j = (if j = 2 * n + 65 then k1 ! (31 - 2 * n) else if j = 2 * n + 64 then k1 ! (30 - 2 * n)
      else if j = 2 * n + 1 then k1 ! (31 - 2 * n) else if j = 2 * n then k1 ! (30 - 2 * n) else dsk ! j)" for j
    unfolding ed using n l by (intro nth_update4) simp_all
  have old: "esk ! j = k1 ! j" "dsk ! (32 + j) = k2 ! j" if "j < 32" for j
    using inv that unfolding set2key_inv_def by blast+
  have rest: "dsk ! (2 * i) = k1 ! (30 - 2 * i)" "dsk ! (2 * i + 1) = k1 ! (31 - 2 * i)"
      "esk ! (32 + 2 * i) = k2 ! (30 - 2 * i)" "esk ! (33 + 2 * i) = k2 ! (31 - 2 * i)"
      "esk ! (64 + 2 * i) = k1 ! (2 * i)" "esk ! (65 + 2 * i) = k1 ! (2 * i + 1)"
      "dsk ! (64 + 2 * i) = k1 ! (30 - 2 * i)" "dsk ! (65 + 2 * i) = k1 ! (31 - 2 * i)" if "i < n" for i
    using inv that unfolding set2key_inv_def by blast+
  have "\<forall>j<32. e' ! j = k1 ! j" "\<forall>j<32. d' ! (32 + j) = k2 ! j"
    using n by (simp_all add: e d old)
  moreover have "d' ! (2 * i) = k1 ! (30 - 2 * i) \<and> d' ! (2 * i + 1) = k1 ! (31 - 2 * i)" if "i < Suc n" for i
    using n that rest(1,2) [of i] unfolding d less_Suc_eq by (elim disjE; simp)
  moreover have "e' ! (32 + 2 * i) = k2 ! (30 - 2 * i) \<and> e' ! (33 + 2 * i) = k2 ! (31 - 2 * i)" if "i < Suc n" for i
    using n that rest(3,4) [of i] unfolding e less_Suc_eq by (elim disjE; simp)
  moreover have "e' ! (64 + 2 * i) = k1 ! (2 * i) \<and> e' ! (65 + 2 * i) = k1 ! (2 * i + 1)" if "i < Suc n" for i
    using n that rest(5,6) [of i] unfolding e less_Suc_eq by (elim disjE; simp)
  moreover have "d' ! (64 + 2 * i) = k1 ! (30 - 2 * i) \<and> d' ! (65 + 2 * i) = k1 ! (31 - 2 * i)" if "i < Suc n" for i
    using n that rest(7,8) [of i] unfolding d less_Suc_eq by (elim disjE; simp)
  moreover have "length e' = 96" "length d' = 96"
    by (simp_all add: ed l)
  ultimately have "set2key_inv k1 k2 (Suc n) (e', d')"
    by (simp add: set2key_inv_def)
  then show ?thesis
    using set2key_step_eq [OF inv n] by (simp add: ed)
qed

lemma set2key_loop:
  assumes "set2key_inv k1 k2 0 p" "n \<le> 16"
  shows "set2key_inv k1 k2 n (fold (\<lambda>i. set2key_step (2 * i)) [0..<n] p)"
  using assms(2)
proof (induction n)
  case (Suc n)
  then show ?case
    using set2key_step_inv [of k1 k2 n] by (cases "fold (\<lambda>i. set2key_step (2 * i)) [0..<n] p") simp
qed (simp add: assms(1))

definition set3key_inv :: "u32 list \<Rightarrow> u32 list \<Rightarrow> u32 list \<Rightarrow> nat \<Rightarrow> u32 list \<times> u32 list \<Rightarrow> bool" where
  "set3key_inv k1 k2 k3 n = (\<lambda>(esk, dsk). length esk = 96 \<and> length dsk = 96 \<and>
     (\<forall>j<32. esk ! j = k1 ! j) \<and> (\<forall>j<32. dsk ! (32 + j) = k2 ! j) \<and> (\<forall>j<32. esk ! (64 + j) = k3 ! j) \<and>
     (\<forall>i<n. dsk ! (2 * i) = k3 ! (30 - 2 * i) \<and> dsk ! (2 * i + 1) = k3 ! (31 - 2 * i)) \<and>
     (\<forall>i<n. esk ! (32 + 2 * i) = k2 ! (30 - 2 * i) \<and> esk ! (33 + 2 * i) = k2 ! (31 - 2 * i)) \<and>
     (\<forall>i<n. dsk ! (64 + 2 * i) = k1 ! (30 - 2 * i) \<and> dsk ! (65 + 2 * i) = k1 ! (31 - 2 * i)))"

lemma set3key_step_eq:
  assumes "set3key_inv k1 k2 k3 n (esk, dsk)" "n < 16"
  shows "set3key_step (2 * n) (esk, dsk) =
    (esk[2 * n + 32 := k2 ! (30 - 2 * n), 2 * n + 33 := k2 ! (31 - 2 * n)],
     dsk[2 * n := k3 ! (30 - 2 * n), 2 * n + 1 := k3 ! (31 - 2 * n),
         2 * n + 64 := k1 ! (30 - 2 * n), 2 * n + 65 := k1 ! (31 - 2 * n)])"
proof -
  have l: "length esk = 96" "length dsk = 96" and B: "\<And>j. j < 32 \<Longrightarrow> esk ! j = k1 ! j"
      and C: "\<And>j. j < 32 \<Longrightarrow> dsk ! (32 + j) = k2 ! j" and D: "\<And>j. j < 32 \<Longrightarrow> esk ! (64 + j) = k3 ! j"
    using assms(1) unfolding set3key_inv_def by blast+
  have e: "62 - 2 * n = 32 + (30 - 2 * n)" "63 - 2 * n = 32 + (31 - 2 * n)"
      "94 - 2 * n = 64 + (30 - 2 * n)" "95 - 2 * n = 64 + (31 - 2 * n)"
    using assms(2) by simp_all
  have lt: "30 - 2 * n < 32" "31 - 2 * n < 32"
    using assms(2) by simp_all
  have k: "dsk ! (62 - 2 * n) = k2 ! (30 - 2 * n)" "dsk ! (63 - 2 * n) = k2 ! (31 - 2 * n)"
      "esk ! (94 - 2 * n) = k3 ! (30 - 2 * n)" "esk ! (95 - 2 * n) = k3 ! (31 - 2 * n)"
      "esk ! (30 - 2 * n) = k1 ! (30 - 2 * n)" "esk ! (31 - 2 * n) = k1 ! (31 - 2 * n)"
    unfolding e using B C D lt by blast+
  have ne: "62 - 2 * n \<noteq> 2 * n" "62 - 2 * n \<noteq> 2 * n + 1" "63 - 2 * n \<noteq> 2 * n" "63 - 2 * n \<noteq> 2 * n + 1"
      "30 - 2 * n \<noteq> 2 * n + 32" "30 - 2 * n \<noteq> 2 * n + 33" "31 - 2 * n \<noteq> 2 * n + 32" "31 - 2 * n \<noteq> 2 * n + 33"
    using assms(2) by presburger+
  define m where "m = 2 * n"
  note facts = k ne
  show ?thesis
    using facts unfolding m_def [symmetric]
    by (simp add: set3key_step_def Let_def nth_list_update_neq)
qed

lemma set3key_step_inv:
  assumes inv: "set3key_inv k1 k2 k3 n (esk, dsk)" and n: "n < 16"
  shows "set3key_inv k1 k2 k3 (Suc n) (set3key_step (2 * n) (esk, dsk))"
proof -
  define e' d' where ed: "e' = esk[2 * n + 32 := k2 ! (30 - 2 * n), 2 * n + 33 := k2 ! (31 - 2 * n)]"
      "d' = dsk[2 * n := k3 ! (30 - 2 * n), 2 * n + 1 := k3 ! (31 - 2 * n),
         2 * n + 64 := k1 ! (30 - 2 * n), 2 * n + 65 := k1 ! (31 - 2 * n)]"
  have l: "length esk = 96" "length dsk = 96"
    using inv by (simp_all add: set3key_inv_def)
  have e: "e' ! j = (if j = 2 * n + 33 then k2 ! (31 - 2 * n) else if j = 2 * n + 32 then k2 ! (30 - 2 * n)
      else esk ! j)" for j
    unfolding ed using n l by (simp add: nth_list_update)
  have d: "d' ! j = (if j = 2 * n + 65 then k1 ! (31 - 2 * n) else if j = 2 * n + 64 then k1 ! (30 - 2 * n)
      else if j = 2 * n + 1 then k3 ! (31 - 2 * n) else if j = 2 * n then k3 ! (30 - 2 * n) else dsk ! j)" for j
    unfolding ed using n l by (intro nth_update4) simp_all
  have old: "esk ! j = k1 ! j" "dsk ! (32 + j) = k2 ! j" "esk ! (64 + j) = k3 ! j" if "j < 32" for j
    using inv that unfolding set3key_inv_def by blast+
  have rest: "dsk ! (2 * i) = k3 ! (30 - 2 * i)" "dsk ! (2 * i + 1) = k3 ! (31 - 2 * i)"
      "esk ! (32 + 2 * i) = k2 ! (30 - 2 * i)" "esk ! (33 + 2 * i) = k2 ! (31 - 2 * i)"
      "dsk ! (64 + 2 * i) = k1 ! (30 - 2 * i)" "dsk ! (65 + 2 * i) = k1 ! (31 - 2 * i)" if "i < n" for i
    using inv that unfolding set3key_inv_def by blast+
  have "\<forall>j<32. e' ! j = k1 ! j" "\<forall>j<32. d' ! (32 + j) = k2 ! j" "\<forall>j<32. e' ! (64 + j) = k3 ! j"
    using n by (simp_all add: e d old)
  moreover have "d' ! (2 * i) = k3 ! (30 - 2 * i) \<and> d' ! (2 * i + 1) = k3 ! (31 - 2 * i)" if "i < Suc n" for i
    using n that rest(1,2) [of i] unfolding d less_Suc_eq by (elim disjE; simp)
  moreover have "e' ! (32 + 2 * i) = k2 ! (30 - 2 * i) \<and> e' ! (33 + 2 * i) = k2 ! (31 - 2 * i)" if "i < Suc n" for i
    using n that rest(3,4) [of i] unfolding e less_Suc_eq by (elim disjE; simp)
  moreover have "d' ! (64 + 2 * i) = k1 ! (30 - 2 * i) \<and> d' ! (65 + 2 * i) = k1 ! (31 - 2 * i)" if "i < Suc n" for i
    using n that rest(5,6) [of i] unfolding d less_Suc_eq by (elim disjE; simp)
  moreover have "length e' = 96" "length d' = 96"
    by (simp_all add: ed l)
  ultimately have "set3key_inv k1 k2 k3 (Suc n) (e', d')"
    by (simp add: set3key_inv_def)
  then show ?thesis
    using set3key_step_eq [OF inv n] by (simp add: ed)
qed

lemma set3key_loop:
  assumes "set3key_inv k1 k2 k3 0 p" "n \<le> 16"
  shows "set3key_inv k1 k2 k3 n (fold (\<lambda>i. set3key_step (2 * i)) [0..<n] p)"
  using assms(2)
proof (induction n)
  case (Suc n)
  then show ?case
    using set3key_step_inv [of k1 k2 k3 n] by (cases "fold (\<lambda>i. set3key_step (2 * i)) [0..<n] p") simp
qed (simp add: assms(1))

lemma key_pairs_copy:
  assumes "\<And>i. i < 16 \<Longrightarrow> sk ! (off + 2 * i) = k ! (2 * i) \<and> sk ! (off + 1 + 2 * i) = k ! (2 * i + 1)"
  shows "key_pairs sk off = key_pairs k 0"
  unfolding key_pairs_def by (rule map_cong) (use assms in \<open>auto simp: ac_simps\<close>)

lemma key_pairs_same:
  assumes "\<And>j. j < 32 \<Longrightarrow> sk ! (off + j) = k ! j"
  shows "key_pairs sk off = key_pairs k 0"
proof (rule key_pairs_copy)
  fix i :: nat
  assume "i < 16"
  then show "sk ! (off + 2 * i) = k ! (2 * i) \<and> sk ! (off + 1 + 2 * i) = k ! (2 * i + 1)"
    using assms [of "2 * i"] assms [of "2 * i + 1"] by (simp add: ac_simps)
qed

lemma key_pairs_rev:
  assumes "\<And>i. i < 16 \<Longrightarrow> sk ! (off + 2 * i) = k ! (30 - 2 * i) \<and> sk ! (off + 1 + 2 * i) = k ! (31 - 2 * i)"
  shows "key_pairs sk off = rev (key_pairs k 0)"
proof -
  have "rev (key_pairs k 0) = map (\<lambda>i. (k ! (30 - 2 * i), k ! (31 - 2 * i))) [0..<16]"
    by (simp add: key_pairs_def upt_16)
  moreover have "key_pairs sk off = map (\<lambda>i. (k ! (30 - 2 * i), k ! (31 - 2 * i))) [0..<16]"
    unfolding key_pairs_def by (rule map_cong) (use assms in \<open>auto simp: ac_simps\<close>)
  ultimately show ?thesis
    by simp
qed

lemma set2key_pairs:
  fixes key :: "u8 list"
  defines "k1 \<equiv> key_pairs (des_setkey (take 8 key)) 0" and "k2 \<equiv> key_pairs (des_setkey (take 8 (drop 8 key))) 0"
  shows "map (key_pairs (des3_set2key_enc key)) [0, 32, 64] = [k1, rev k2, k1]"
    and "map (key_pairs (des3_set2key_dec key)) [0, 32, 64] = [rev k1, k2, rev k1]"
proof -
  let ?K1 = "des_setkey (take 8 key)" and ?K2 = "des_setkey (take 8 (drop 8 key))"
  obtain esk dsk where ed: "des3_set2key key (replicate 96 0, replicate 96 0) = (esk, dsk)"
    by fastforce
  have "set2key_inv ?K1 ?K2 0 (blit 0 ?K1 (replicate 96 0), blit 32 ?K2 (replicate 96 0))"
    by (simp add: set2key_inv_def blit_nth)
  from set2key_loop [OF this, of 16] have inv: "set2key_inv ?K1 ?K2 16 (esk, dsk)"
    using ed by (simp add: des3_set2key_def)
  have "key_pairs esk 0 = k1" "key_pairs dsk 32 = k2"
    unfolding k1_def k2_def by (rule key_pairs_same, use inv in \<open>simp add: set2key_inv_def\<close>)+
  moreover have "key_pairs esk 32 = rev k2" "key_pairs dsk 0 = rev k1" "key_pairs dsk 64 = rev k1"
    unfolding k1_def k2_def by (rule key_pairs_rev, use inv in \<open>simp add: set2key_inv_def\<close>)+
  moreover have "key_pairs esk 64 = k1"
    unfolding k1_def by (rule key_pairs_copy) (use inv in \<open>simp add: set2key_inv_def\<close>)
  ultimately show "map (key_pairs (des3_set2key_enc key)) [0, 32, 64] = [k1, rev k2, k1]"
      "map (key_pairs (des3_set2key_dec key)) [0, 32, 64] = [rev k1, k2, rev k1]"
    by (simp_all add: des3_set2key_enc_def des3_set2key_dec_def ed)
qed

lemma set3key_pairs:
  fixes key :: "u8 list"
  defines "k1 \<equiv> key_pairs (des_setkey (take 8 key)) 0" and "k2 \<equiv> key_pairs (des_setkey (take 8 (drop 8 key))) 0"
    and "k3 \<equiv> key_pairs (des_setkey (take 8 (drop 16 key))) 0"
  shows "map (key_pairs (des3_set3key_enc key)) [0, 32, 64] = [k1, rev k2, k3]"
    and "map (key_pairs (des3_set3key_dec key)) [0, 32, 64] = [rev k3, k2, rev k1]"
proof -
  let ?K1 = "des_setkey (take 8 key)" and ?K2 = "des_setkey (take 8 (drop 8 key))"
    and ?K3 = "des_setkey (take 8 (drop 16 key))"
  obtain esk dsk where ed: "des3_set3key key (replicate 96 0, replicate 96 0) = (esk, dsk)"
    by fastforce
  have "set3key_inv ?K1 ?K2 ?K3 0 (blit 64 ?K3 (blit 0 ?K1 (replicate 96 0)), blit 32 ?K2 (replicate 96 0))"
    by (simp add: set3key_inv_def blit_nth)
  from set3key_loop [OF this, of 16] have inv: "set3key_inv ?K1 ?K2 ?K3 16 (esk, dsk)"
    using ed by (simp add: des3_set3key_def)
  have "key_pairs esk 0 = k1" "key_pairs dsk 32 = k2" "key_pairs esk 64 = k3"
    unfolding k1_def k2_def k3_def by (rule key_pairs_same, use inv in \<open>simp add: set3key_inv_def\<close>)+
  moreover have "key_pairs esk 32 = rev k2" "key_pairs dsk 0 = rev k3" "key_pairs dsk 64 = rev k1"
    unfolding k1_def k2_def k3_def by (rule key_pairs_rev, use inv in \<open>simp add: set3key_inv_def\<close>)+
  ultimately show "map (key_pairs (des3_set3key_enc key)) [0, 32, 64] = [k1, rev k2, k3]"
      "map (key_pairs (des3_set3key_dec key)) [0, 32, 64] = [rev k3, k2, rev k1]"
    by (simp_all add: des3_set3key_enc_def des3_set3key_dec_def ed)
qed

text \<open>Triple DES is encrypt, decrypt, encrypt with single DES.\<close>

lemma des3_undo:
  assumes "map (key_pairs e) [0, 32, 64] = [a, b, c]" "map (key_pairs d) [0, 32, 64] = [rev c, rev b, rev a]"
    and "length blk = 8"
  shows "des3_crypt_ecb d (des3_crypt_ecb e blk) = blk"
  unfolding des3_crypt_ecb_block
proof (rule on_block_undo [OF assms(3)])
  fix p
  have "fold half_round (rev c) (prod.swap (fold half_round c q)) = prod.swap q" for c q
    by (rule rounds_undo)
  then show "fold half_round (key_pairs d 64) (prod.swap (fold half_round (key_pairs d 32)
      (prod.swap (fold half_round (key_pairs d 0) (prod.swap (fold half_round (key_pairs e 64)
        (prod.swap (fold half_round (key_pairs e 32) (prod.swap (fold half_round (key_pairs e 0) p)))))))))) =
      prod.swap p"
    using assms(1,2) by simp
qed

lemma des3_decrypts:
  assumes "length b = 8"
  shows "des3_crypt_ecb (des3_set2key_dec key) (des3_crypt_ecb (des3_set2key_enc key) b) = b"
    and "des3_crypt_ecb (des3_set3key_dec key) (des3_crypt_ecb (des3_set3key_enc key) b) = b"
  using des3_undo [OF set2key_pairs(1)] des3_undo [OF set3key_pairs(1)] set2key_pairs(2) set3key_pairs(2) assms
  by simp_all

section \<open>Cipher block chaining\<close>

locale block_cipher =
  fixes enc :: "'k \<Rightarrow> u8 list \<Rightarrow> u8 list" and dec :: "'k \<Rightarrow> u8 list \<Rightarrow> u8 list"
  assumes undo: "length b = 8 \<Longrightarrow> dec k (enc k b) = b"
    and enc_length: "length (enc k b) = 8"
begin

lemma cbc_roundtrip:
  assumes "length iv = 8" "8 dvd length input"
  shows "returns (cbc_encrypt (enc k) iv input) (\<lambda>(output, iv').
     length output = length input \<and> cbc_decrypt (dec k) iv output = Some (input, iv'))"
  using assms
proof (induction "enc k" iv input rule: cbc_encrypt.induct)
  case (1 iv input)
  show ?case
  proof (cases "input = []")
    case True
    then show ?thesis
      by (simp add: cbc_encrypt.simps cbc_decrypt.simps)
  next
    case False
    then have len: "8 \<le> length input"
      using 1(3) by (cases "length input < 8") (auto dest: dvd_imp_le)
    let ?blk = "enc k (xor_block (take 8 input) iv)"
    have "8 dvd length (drop 8 input)"
      using 1(3) len by (auto simp: dvd_diff_nat)
    then obtain rest iv' where rest: "cbc_encrypt (enc k) ?blk (drop 8 input) = Some (rest, iv')"
        "length rest = length (drop 8 input)" "cbc_decrypt (dec k) ?blk rest = Some (drop 8 input, iv')"
      using 1(1) [OF False, of ?blk] len enc_length by (auto simp: returns_iff)
    have "xor_block (dec k ?blk) iv = take 8 input"
      using 1(2) len
      by (simp add: undo xor_block_def) (simp add: list_eq_iff_nth_eq xor.assoc)
    moreover have "?blk \<noteq> []"
      using enc_length [of k "xor_block (take 8 input) iv"] by auto
    ultimately have "cbc_decrypt (dec k) iv (?blk @ rest) = Some (input, iv')"
      using rest(3) enc_length by (subst cbc_decrypt.simps) simp
    then show ?thesis
      using rest False len enc_length by (subst cbc_encrypt.simps) simp
  qed
qed

end

interpretation des: block_cipher "\<lambda>key. des_crypt_ecb (des_setkey_enc key)" "\<lambda>key. des_crypt_ecb (des_setkey_dec key)"
  by unfold_locales (simp add: des_decrypts, simp add: des_crypt_ecb_block)

interpretation des2key: block_cipher "\<lambda>key. des3_crypt_ecb (des3_set2key_enc key)"
    "\<lambda>key. des3_crypt_ecb (des3_set2key_dec key)"
  by unfold_locales (simp add: des3_decrypts, simp add: des3_crypt_ecb_block)

interpretation des3key: block_cipher "\<lambda>key. des3_crypt_ecb (des3_set3key_enc key)"
    "\<lambda>key. des3_crypt_ecb (des3_set3key_dec key)"
  by unfold_locales (simp add: des3_decrypts, simp add: des3_crypt_ecb_block)

section \<open>Properties\<close>

text \<open>
  C14: whatever the key, a block encrypted with the encryption schedule and then run through the same
  routine with the decryption schedule is the block again, for DES and for triple DES with two and
  with three keys.
\<close>

theorem des_roundtrip:
  assumes "length block = 8"
  shows "des_crypt_ecb (des_setkey_dec key) (des_crypt_ecb (des_setkey_enc key) block) = block \<and>
    des3_crypt_ecb (des3_set2key_dec key) (des3_crypt_ecb (des3_set2key_enc key) block) = block \<and>
    des3_crypt_ecb (des3_set3key_dec key) (des3_crypt_ecb (des3_set3key_enc key) block) = block"
  using assms by (simp add: des_decrypts des3_decrypts)

theorem des_roundtrip_witness:
  "des_crypt_ecb (des_setkey_dec [1, 35, 69, 103, 137, 171, 205, 239])
     (des_crypt_ecb (des_setkey_enc [1, 35, 69, 103, 137, 171, 205, 239]) [78, 111, 119, 32, 105, 115, 32, 116]) =
   [78, 111, 119, 32, 105, 115, 32, 116]"
  using des_roundtrip [of "[78, 111, 119, 32, 105, 115, 32, 116]"] by simp

text \<open>
  C15: chaining works for every buffer of whole blocks and every initial vector: encryption returns
  with a buffer of the same length, decryption with the same vector returns the original buffer,
  and both leave the same vector for the next buffer.
\<close>

theorem cbc_buffer_roundtrip:
  assumes "length iv = 8" "8 dvd length input"
  shows "returns (des_crypt_cbc (des_setkey_enc key) DES_ENCRYPT iv input) (\<lambda>(output, iv').
      length output = length input \<and> des_crypt_cbc (des_setkey_dec key) DES_DECRYPT iv output = Some (input, iv')) \<and>
    returns (des3_crypt_cbc (des3_set2key_enc key) DES_ENCRYPT iv input) (\<lambda>(output, iv').
      length output = length input \<and> des3_crypt_cbc (des3_set2key_dec key) DES_DECRYPT iv output = Some (input, iv')) \<and>
    returns (des3_crypt_cbc (des3_set3key_enc key) DES_ENCRYPT iv input) (\<lambda>(output, iv').
      length output = length input \<and> des3_crypt_cbc (des3_set3key_dec key) DES_DECRYPT iv output = Some (input, iv'))"
  using des.cbc_roundtrip [OF assms] des2key.cbc_roundtrip [OF assms] des3key.cbc_roundtrip [OF assms]
  by (simp add: des_crypt_cbc_def des3_crypt_cbc_def)

theorem cbc_buffer_roundtrip_witness:
  "returns (des_crypt_cbc (des_setkey_enc [1, 2, 3, 4, 5, 6, 7, 8]) DES_ENCRYPT (replicate 8 0) (replicate 24 9))
     (\<lambda>(output, iv'). length output = 24 \<and>
       des_crypt_cbc (des_setkey_dec [1, 2, 3, 4, 5, 6, 7, 8]) DES_DECRYPT (replicate 8 0) output =
         Some (replicate 24 9, iv'))"
proof -
  have a: "length (replicate 8 0 :: u8 list) = 8" "8 dvd length (replicate 24 9 :: u8 list)"
    by simp_all
  show ?thesis
    using cbc_buffer_roundtrip [OF a] by (simp only: length_replicate)
qed

end
