(* ===== verification/Rc4.thy ===== *)
theory Rc4
  imports Xenon_Prelude "HOL-Library.Multiset"
begin

text \<open>
  RC4, \<^verbatim>\<open>crypt/rc4.c\<close>.  The state is the array of 256 bytes; the indices \<open>i\<close> and \<open>j\<close> are local to
  each call, so every call of \<open>rc4_crypt\<close> starts again at index 0 of the state it is given.
  An empty key makes \<open>rc4_init\<close> divide by zero.  The properties compare it with ARCFOUR
  as it is specified, and show that the state stays a permutation.
\<close>

unbundle bit_operations_syntax

section \<open>Model\<close>

definition rc4_swap :: "nat \<Rightarrow> nat \<Rightarrow> u8 list \<Rightarrow> u8 list" where
  "rc4_swap i j state = (let t = state ! i in state[i := state ! j, j := t])"

fun rc4_mix :: "u8 list \<Rightarrow> nat list \<Rightarrow> nat \<Rightarrow> u8 list \<Rightarrow> u8 list" where
  "rc4_mix key [] j state = state"
| "rc4_mix key (i # is) j state =
     (let j = (j + unat (state ! i) + unat (key ! (i mod length key))) mod 256
      in rc4_mix key is j (rc4_swap i j state))"

definition rc4_init :: "u8 list \<Rightarrow> u8 list option" where
  "rc4_init key =
     (if key = [] then None else Some (rc4_mix key [0..<256] 0 (map of_nat [0..<256])))"

fun rc4_crypt_loop :: "nat \<Rightarrow> nat \<Rightarrow> u8 list \<Rightarrow> u8 list \<Rightarrow> u8 list \<times> u8 list" where
  "rc4_crypt_loop i j state [] = (state, [])"
| "rc4_crypt_loop i j state (d # data) =
     (let i = (i + 1) mod 256;
          j = (j + unat (state ! i)) mod 256;
          state = rc4_swap i j state;
          d = d XOR state ! ((unat (state ! i) + unat (state ! j)) mod 256);
          (state, data) = rc4_crypt_loop i j state data
      in (state, d # data))"

definition rc4_crypt :: "u8 list \<Rightarrow> u8 list \<Rightarrow> u8 list \<times> u8 list" where
  "rc4_crypt state data = rc4_crypt_loop 0 0 state data"

section \<open>The key stream\<close>

text \<open>What the loop adds to the data does not depend on the data.\<close>

fun rc4_stream :: "nat \<Rightarrow> nat \<Rightarrow> u8 list \<Rightarrow> nat \<Rightarrow> u8 list" where
  "rc4_stream i j state 0 = []"
| "rc4_stream i j state (Suc n) =
     (let i = (i + 1) mod 256;
          j = (j + unat (state ! i)) mod 256;
          state = rc4_swap i j state
      in state ! ((unat (state ! i) + unat (state ! j)) mod 256) # rc4_stream i j state n)"

lemma rc4_stream_length [simp]: "length (rc4_stream i j state n) = n"
  by (induction n arbitrary: i j state) (simp_all add: Let_def)

lemma rc4_crypt_loop_data:
  "snd (rc4_crypt_loop i j state data) = map2 (XOR) data (rc4_stream i j state (length data))"
  by (induction data arbitrary: i j state) (simp_all add: Let_def case_prod_beta)

lemma map2_xor_cancel: "length ks = length xs \<Longrightarrow> map2 (XOR) (map2 (XOR) xs ks) ks = (xs :: u8 list)"
  by (induction xs ks rule: list_induct2') (simp_all add: xor.assoc)

section \<open>The state stays a permutation\<close>

lemma rc4_swap_length [simp]: "length (rc4_swap i j state) = length state"
  by (simp add: rc4_swap_def Let_def)

lemma rc4_swap_mset: "i < length state \<Longrightarrow> j < length state \<Longrightarrow> mset (rc4_swap i j state) = mset state"
  by (simp add: rc4_swap_def Let_def mset_swap)

lemma rc4_mix_mset:
  assumes "length state = 256" "\<forall>i \<in> set is. i < 256"
  shows "mset (rc4_mix key is j state) = mset state"
  using assms by (induction "is" arbitrary: j state) (simp_all add: Let_def rc4_swap_mset)

lemma rc4_loop_mset:
  assumes "length state = 256"
  shows "mset (fst (rc4_crypt_loop i j state data)) = mset state"
  using assms
proof (induction data arbitrary: i j state)
  case (Cons d data)
  let ?i = "(i + 1) mod 256"
  let ?j = "(j + unat (state ! ?i)) mod 256"
  show ?case
    using Cons.IH [of "rc4_swap ?i ?j state" ?i ?j] Cons.prems
    by (simp add: Let_def rc4_swap_mset case_prod_beta)
qed simp

section \<open>The cipher as it is specified\<close>

text \<open>
  ARCFOUR on its own: the permutation is a function on numbers, \<open>ksa key i\<close> and \<open>prga S n\<close> are the index \<open>j\<close> and
  the permutation after \<open>i\<close> steps of key scheduling and \<open>n\<close> steps of generation, and the byte at position \<open>n\<close> of the
  key stream is read off after step \<open>n + 1\<close>.
\<close>

primrec ksa :: "u8 list \<Rightarrow> nat \<Rightarrow> nat \<times> (nat \<Rightarrow> nat)" where
  "ksa key 0 = (0, \<lambda>x. x)"
| "ksa key (Suc i) = (case ksa key i of (j, S) \<Rightarrow>
     let j' = (j + S i + unat (key ! (i mod length key))) mod 256 in (j', S(i := S j', j' := S i)))"

primrec prga :: "(nat \<Rightarrow> nat) \<Rightarrow> nat \<Rightarrow> nat \<times> (nat \<Rightarrow> nat)" where
  "prga S 0 = (0, S)"
| "prga S (Suc n) = (case prga S n of (j, T) \<Rightarrow>
     let i = Suc n mod 256; j' = (j + T i) mod 256 in (j', T(i := T j', j' := T i)))"

definition key_stream :: "(nat \<Rightarrow> nat) \<Rightarrow> nat \<Rightarrow> nat" where
  "key_stream S n = (case prga S (Suc n) of (j, T) \<Rightarrow> T ((T (Suc n mod 256) + T j) mod 256))"

definition arcfour :: "u8 list \<Rightarrow> u8 list \<Rightarrow> u8 list" where
  "arcfour key data = map (\<lambda>n. data ! n XOR of_nat (key_stream (snd (ksa key 256)) n)) [0..<length data]"

definition rc4_rep :: "u8 list \<Rightarrow> (nat \<Rightarrow> nat) \<Rightarrow> bool" where
  "rc4_rep state S \<longleftrightarrow> length state = 256 \<and> (\<forall>x < 256. unat (state ! x) = S x)"

lemma rc4_rep_swap:
  "rc4_rep state S \<Longrightarrow> i < 256 \<Longrightarrow> j < 256 \<Longrightarrow> rc4_rep (rc4_swap i j state) (S(i := S j, j := S i))"
  by (auto simp: rc4_rep_def rc4_swap_def Let_def nth_list_update)

lemma rc4_mix_ksa:
  "i + length is = 256 \<Longrightarrow> is = [i..<256] \<Longrightarrow> rc4_rep state (snd (ksa key i)) \<Longrightarrow> j = fst (ksa key i) \<Longrightarrow>
   rc4_rep (rc4_mix key is j state) (snd (ksa key 256))"
proof (induction "is" arbitrary: i j state)
  case (Cons k ks)
  have k: "k = i" "ks = [Suc i..<256]" "i < 256"
    using Cons.prems(2) upt_eq_Cons_conv [of i 256 k ks] by auto
  let ?j = "(j + unat (state ! i) + unat (key ! (i mod length key))) mod 256"
  have s: "unat (state ! i) = snd (ksa key i) i"
    using Cons.prems(3) k(3) by (simp add: rc4_rep_def)
  have "rc4_rep (rc4_swap i ?j state) (snd (ksa key (Suc i)))"
    using rc4_rep_swap [OF Cons.prems(3) k(3), of ?j] Cons.prems(4) by (simp add: case_prod_beta Let_def s)
  moreover have "?j = fst (ksa key (Suc i))"
    using Cons.prems(4) by (simp add: case_prod_beta Let_def s)
  ultimately show ?case
    using Cons.IH [of "Suc i"] Cons.prems(1) k by (simp add: Let_def)
qed simp

lemma rc4_init_ksa: "key \<noteq> [] \<Longrightarrow> returns (rc4_init key) (\<lambda>state. rc4_rep state (snd (ksa key 256)))"
  using rc4_mix_ksa [of 0 "[0..<256]" "map of_nat [0..<256]" key 0]
  by (simp add: rc4_init_def rc4_rep_def unsigned_of_nat take_bit_nat_eq_self)

lemma rc4_loop_prga:
  "rc4_rep state (snd (prga S n)) \<Longrightarrow> j = fst (prga S n) \<Longrightarrow>
   snd (rc4_crypt_loop (n mod 256) j state data) = map (\<lambda>k. data ! k XOR of_nat (key_stream S (n + k))) [0..<length data]"
proof (induction data arbitrary: n j state)
  case (Cons d data)
  let ?i = "Suc n mod 256"
  let ?j = "(j + unat (state ! ?i)) mod 256"
  let ?state = "rc4_swap ?i ?j state"
  have s: "unat (state ! ?i) = snd (prga S n) ?i"
    using Cons.prems(1) by (simp add: rc4_rep_def)
  have rep: "rc4_rep ?state (snd (prga S (Suc n)))"
    using rc4_rep_swap [OF Cons.prems(1), of ?i ?j] Cons.prems(2) by (simp add: case_prod_beta Let_def s)
  have j: "?j = fst (prga S (Suc n))"
    using Cons.prems(2) by (simp add: case_prod_beta Let_def s)
  have i: "(n mod 256 + 1) mod 256 = ?i"
    by (simp add: mod_Suc_eq)
  have T: "unat (?state ! x) = snd (prga S (Suc n)) x" if "x < 256" for x
    using rep that by (simp add: rc4_rep_def)
  have byte: "?state ! ((unat (?state ! ?i) + unat (?state ! ?j)) mod 256) = of_nat (key_stream S n)"
  proof (rule word_unat_eq_iff [THEN iffD2])
    have "key_stream S n = unat (?state ! ((unat (?state ! ?i) + unat (?state ! ?j)) mod 256))"
      by (simp only: key_stream_def case_prod_beta T j [symmetric] mod_less_divisor zero_less_numeral)
    then show "unat (?state ! ((unat (?state ! ?i) + unat (?state ! ?j)) mod 256)) = unat (of_nat (key_stream S n) :: u8)"
      by simp
  qed
  have "map (\<lambda>k. (d # data) ! k XOR of_nat (key_stream S (n + k))) [0..<length (d # data)]
      = (d XOR of_nat (key_stream S n)) # map (\<lambda>k. data ! k XOR of_nat (key_stream S (Suc n + k))) [0..<length data]"
    by (simp add: upt_conv_Cons map_Suc_upt [symmetric] del: upt_Suc)
  then show ?case
    using Cons.IH [OF rep j] by (simp only: rc4_crypt_loop.simps Let_def i case_prod_beta snd_conv byte)
qed simp

section \<open>Properties\<close>

text \<open>
  C18: \<open>rc4_init\<close> followed by \<open>rc4_crypt\<close> is ARCFOUR: for every key that is not empty and all data, each byte is the
  exclusive or of the data with the byte of the specified key stream at its position.
\<close>

theorem rc4_computes_arcfour:
  assumes "key \<noteq> []"
  shows "returns (rc4_init key) (\<lambda>state. snd (rc4_crypt state data) = arcfour key data)"
proof (rule returns_mono [OF rc4_init_ksa [OF assms]])
  fix state assume "rc4_rep state (snd (ksa key 256))"
  then show "snd (rc4_crypt state data) = arcfour key data"
    using rc4_loop_prga [of state "snd (ksa key 256)" 0 0 data] by (simp add: rc4_crypt_def arcfour_def)
qed

theorem rc4_computes_arcfour_witness:
  "returns (rc4_init [75, 101, 121]) (\<lambda>state.
     snd (rc4_crypt state [80, 108, 97, 105, 110]) = arcfour [75, 101, 121] [80, 108, 97, 105, 110])"
  by (rule rc4_computes_arcfour) simp

text \<open>Encrypting twice, each time from a freshly initialised state, gives the data back.\<close>

lemma rc4_roundtrip:
  assumes "key \<noteq> []"
  shows "returns (rc4_init key) (\<lambda>state. snd (rc4_crypt state (snd (rc4_crypt state data))) = data)"
  using assms by (simp add: rc4_init_def rc4_crypt_def rc4_crypt_loop_data map2_xor_cancel)

text \<open>
  C19: the state of RC4 is a permutation of the 256 bytes when it comes out of \<open>rc4_init\<close> and after
  every call of \<open>rc4_crypt\<close>, so no index computed from it leaves the array.
\<close>

theorem rc4_state_permutation:
  assumes "key \<noteq> []"
  shows "returns (rc4_init key) (\<lambda>state. mset state = mset (map of_nat [0..<256]) \<and> length state = 256 \<and>
     mset (fst (rc4_crypt state data)) = mset (map of_nat [0..<256]) \<and> length (fst (rc4_crypt state data)) = 256)"
proof -
  let ?s = "rc4_mix key [0..<256] 0 (map of_nat [0..<256])"
  have s: "mset ?s = mset (map of_nat [0..<256])"
    by (rule rc4_mix_mset) simp_all
  from arg_cong [OF s, of size] have l: "length ?s = 256"
    by simp
  have c: "mset (fst (rc4_crypt ?s data)) = mset (map of_nat [0..<256])"
    unfolding rc4_crypt_def rc4_loop_mset [OF l] by (rule s)
  from arg_cong [OF c, of size] have "length (fst (rc4_crypt ?s data)) = 256"
    by simp
  then show ?thesis
    using assms s l c by (simp add: rc4_init_def)
qed

theorem rc4_state_permutation_witness:
  "returns (rc4_init [75, 101, 121]) (\<lambda>state. length (fst (rc4_crypt state [80, 108])) = 256)"
  by (rule returns_mono [OF rc4_state_permutation [where data = "[80, 108]"]]) simp_all

end
