(* ===== verification/Sha1.thy ===== *)
theory Sha1
  imports Xenon_Prelude
begin

text \<open>
  SHA-1, \<^verbatim>\<open>crypt/sha1.c\<close>.  The machine is big-endian, so the union of bytes and words in
  \<open>SHA1_Transform\<close> reads four bytes as a word with the first byte on top (\<open>LITTLE_ENDIAN\<close> is
  undefined in \<^verbatim>\<open>crypt/sha.h\<close>).  The message schedule is expanded in place: a transformed block does
  not keep its content, and \<open>SHA1_Update\<close> transforms whole blocks in the caller's buffer, which is
  therefore part of its result.
\<close>

unbundle bit_operations_syntax

section \<open>Words in a byte buffer\<close>

definition be_word :: "u8 list \<Rightarrow> u32" where
  "be_word b = push_bit 24 (ucast (b ! 0)) OR push_bit 16 (ucast (b ! 1)) OR
     push_bit 8 (ucast (b ! 2)) OR ucast (b ! 3)"

definition be_bytes :: "u32 \<Rightarrow> u8 list" where
  "be_bytes w = [ucast (drop_bit 24 w), ucast (drop_bit 16 w), ucast (drop_bit 8 w), ucast w]"

definition words_of :: "u8 list \<Rightarrow> u32 list" where
  "words_of b = map (\<lambda>i. be_word (take 4 (drop (4 * i) b))) [0..<16]"

definition bytes_of :: "u32 list \<Rightarrow> u8 list" where
  "bytes_of l = concat (map be_bytes l)"

section \<open>The transformation of a block\<close>

definition rol :: "u32 \<Rightarrow> nat \<Rightarrow> u32" where
  "rol value bits = push_bit bits value OR drop_bit (32 - bits) value"

definition blk0 :: "u32 list \<Rightarrow> nat \<Rightarrow> u32 \<times> u32 list" where
  "blk0 l i = (l ! i, l)"

definition blk :: "u32 list \<Rightarrow> nat \<Rightarrow> u32 \<times> u32 list" where
  "blk l i = (let
     x = rol (l ! ((i + 13) mod 16) XOR l ! ((i + 8) mod 16) XOR l ! ((i + 2) mod 16) XOR l ! (i mod 16)) 1
   in (x, l[i mod 16 := x]))"

text \<open>
  The macros \<open>R0\<close> to \<open>R4\<close> differ in the function of \<open>w\<close>, \<open>x\<close>, \<open>y\<close>, in the word and in the constant.
  The calls name the five variables in rotation, so each call leaves them rotated by one place.
\<close>

definition sha1_function :: "nat \<Rightarrow> u32 \<Rightarrow> u32 \<Rightarrow> u32 \<Rightarrow> u32" where
  "sha1_function i w x y =
     (if i < 20 then (w AND (x XOR y)) XOR y
      else if i < 40 then w XOR x XOR y
      else if i < 60 then ((w OR x) AND y) OR (w AND x)
      else w XOR x XOR y)"

definition sha1_constant :: "nat \<Rightarrow> u32" where
  "sha1_constant i =
     (if i < 20 then 0x5A827999 else if i < 40 then 0x6ED9EBA1
      else if i < 60 then 0x8F1BBCDC else 0xCA62C1D6)"

type_synonym sha1_vars = "u32 \<times> u32 \<times> u32 \<times> u32 \<times> u32"

definition sha1_R :: "nat \<Rightarrow> sha1_vars \<times> u32 list \<Rightarrow> sha1_vars \<times> u32 list" where
  "sha1_R i = (\<lambda>((v, w, x, y, z), l). let
     (b, l) = (if i < 16 then blk0 l i else blk l i);
     z = z + (sha1_function i w x y + b + sha1_constant i + rol v 5);
     w = rol w 30
   in ((z, v, w, x, y), l))"

definition SHA1_Transform :: "u32 list \<Rightarrow> u8 list \<Rightarrow> u32 list \<times> u8 list" where
  "SHA1_Transform state buffer = (let
     ((a, b, c, d, e), l) = fold sha1_R [0..<80]
        ((state ! 0, state ! 1, state ! 2, state ! 3, state ! 4), words_of buffer)
   in ([state ! 0 + a, state ! 1 + b, state ! 2 + c, state ! 3 + d, state ! 4 + e], bytes_of l))"

section \<open>Contexts\<close>

record SHA_CTX =
  sha_state :: "u32 list"
  count0 :: u32
  count1 :: u32
  sha_buffer :: "u8 list"

definition SHA1_Init :: "SHA_CTX \<Rightarrow> SHA_CTX" where
  "SHA1_Init context = context\<lparr>
     sha_state := [0x67452301, 0xEFCDAB89, 0x98BADCFE, 0x10325476, 0xC3D2E1F0],
     count0 := 0, count1 := 0\<rparr>"

text \<open>\<open>memcpy\<close> of \<open>src\<close> to offset \<open>j\<close>.\<close>

definition copy_to :: "u8 list \<Rightarrow> nat \<Rightarrow> u8 list \<Rightarrow> u8 list" where
  "copy_to buffer j src = take j buffer @ src @ drop (j + length src) buffer"

text \<open>The loop over the whole blocks of the caller's buffer, from offset \<open>i\<close> on.\<close>

function sha1_blocks :: "nat \<Rightarrow> u32 list \<Rightarrow> u8 list \<Rightarrow> nat \<times> u32 list \<times> u8 list" where
  "sha1_blocks i state data =
     (if i + 63 < length data then
        let (state, block) = SHA1_Transform state (take 64 (drop i data))
        in sha1_blocks (i + 64) state (copy_to data i block)
      else (i, state, data))"
  by pat_completeness auto

lemma words_of_length [simp]: "length (words_of b) = 16"
  by (simp add: words_of_def)

lemma bytes_of_length [simp]: "length (bytes_of l) = 4 * length l"
  by (induction l) (simp_all add: bytes_of_def be_bytes_def)

lemma sha1_R_length [simp]: "length (snd (sha1_R i p)) = length (snd p)"
  by (simp add: sha1_R_def blk0_def blk_def Let_def case_prod_beta)

lemma sha1_rounds_length [simp]: "length (snd (fold sha1_R is p)) = length (snd p)"
  by (induction "is" arbitrary: p) simp_all

lemma SHA1_Transform_length [simp]:
  "length (fst (SHA1_Transform state b)) = 5" "length (snd (SHA1_Transform state b)) = 64"
  by (simp_all add: SHA1_Transform_def Let_def case_prod_beta)

lemma copy_to_length [simp]: "j + length src \<le> length b \<Longrightarrow> length (copy_to b j src) = length b"
  by (simp add: copy_to_def)

termination sha1_blocks
  by (relation "measure (\<lambda>(i, _, data). length data - i)")
    (auto simp: case_prod_beta dest!: arg_cong [where f = "\<lambda>p. length (snd p)"])

declare sha1_blocks.simps [simp del]

definition SHA1_Update :: "SHA_CTX \<Rightarrow> u8 list \<Rightarrow> SHA_CTX \<times> u8 list" where
  "SHA1_Update context data = (let
     len = of_nat (length data) :: u32;
     j = drop_bit 3 (count0 context) AND 63;
     c0 = count0 context + push_bit 3 len;
     c1 = (if c0 < push_bit 3 len then count1 context + 1 else count1 context) + drop_bit 29 len;
     context = context\<lparr>count0 := c0, count1 := c1\<rparr>
   in if j + len > 63 then
        let i = 64 - unat j;
            buffer = copy_to (sha_buffer context) (unat j) (take i data);
            (state, buffer) = SHA1_Transform (sha_state context) buffer;
            (i, state, data) = sha1_blocks i state data;
            buffer = copy_to buffer 0 (drop i data)
        in (context\<lparr>sha_state := state, sha_buffer := buffer\<rparr>, data)
      else (context\<lparr>sha_buffer := copy_to (sha_buffer context) (unat j) data\<rparr>, data))"

text \<open>The padding loop of \<open>SHA1_Final\<close>, one zero byte at a time.\<close>

partial_function (option) sha1_pad_loop :: "SHA_CTX \<Rightarrow> SHA_CTX option" where
  [code]: "sha1_pad_loop context =
     (if count0 context AND 504 \<noteq> 448 then sha1_pad_loop (fst (SHA1_Update context [0]))
      else Some context)"

definition finalcount :: "SHA_CTX \<Rightarrow> u8 list" where
  "finalcount context =
     map (\<lambda>i. ucast (drop_bit ((3 - i mod 4) * 8) (if i \<ge> 4 then count0 context else count1 context) AND 255)) [0..<8]"

definition sha1_digest :: "SHA_CTX \<Rightarrow> u8 list" where
  "sha1_digest context =
     map (\<lambda>i. ucast (drop_bit ((3 - i mod 4) * 8) (sha_state context ! (i div 4)) AND 255)) [0..<20]"

definition SHA1_Final :: "SHA_CTX \<Rightarrow> (u8 list \<times> SHA_CTX) option" where
  "SHA1_Final context = do {
     let fc = finalcount context;
     let (context, _) = SHA1_Update context [0x80];
     context \<leftarrow> sha1_pad_loop context;
     let (context, _) = SHA1_Update context fc;
     let digest = sha1_digest context;
     Some (digest, context\<lparr>sha_buffer := replicate 64 0, sha_state := replicate 5 0, count0 := 0, count1 := 0\<rparr>) }"

end
