(* ===== verification/Sha1_Correct.thy ===== *)
theory Sha1_Correct
  imports Sha1
begin

text \<open>
  The implementation of \<^verbatim>\<open>crypt/sha1.c\<close> computes the standard: the standard is written down on its own
  (schedule of 80 words, compression, padding), the in-place schedule of sixteen words is related to
  it by a moving window, and \<open>sha_rep\<close> relates a context to the message it was fed with.  The locale
  \<open>stream_hash\<close> is what a client may rely on.
\<close>

unbundle bit_operations_syntax

section \<open>The standard\<close>

text \<open>FIPS 180: functions, schedule of 80 words, compression, padding.\<close>

definition Ch :: "u32 \<Rightarrow> u32 \<Rightarrow> u32 \<Rightarrow> u32" where
  "Ch x y z = (x AND y) XOR (NOT x AND z)"

definition Parity :: "u32 \<Rightarrow> u32 \<Rightarrow> u32 \<Rightarrow> u32" where
  "Parity x y z = x XOR y XOR z"

definition Maj :: "u32 \<Rightarrow> u32 \<Rightarrow> u32 \<Rightarrow> u32" where
  "Maj x y z = (x AND y) XOR (x AND z) XOR (y AND z)"

definition fips_f :: "nat \<Rightarrow> u32 \<Rightarrow> u32 \<Rightarrow> u32 \<Rightarrow> u32" where
  "fips_f t = (if t < 20 then Ch else if t < 40 then Parity else if t < 60 then Maj else Parity)"

primrec fips_schedule :: "u32 list \<Rightarrow> nat \<Rightarrow> u32 list" where
  "fips_schedule M 0 = M"
| "fips_schedule M (Suc n) = (let W = fips_schedule M n; t = 16 + n
     in W @ [rol (W ! (t - 3) XOR W ! (t - 8) XOR W ! (t - 14) XOR W ! (t - 16)) 1])"

definition fips_step :: "u32 list \<Rightarrow> nat \<Rightarrow> sha1_vars \<Rightarrow> sha1_vars" where
  "fips_step W t = (\<lambda>(a, b, c, d, e).
     (rol a 5 + fips_f t b c d + e + sha1_constant t + W ! t, a, rol b 30, c, d))"

definition fips_compress :: "u32 list \<Rightarrow> u8 list \<Rightarrow> u32 list" where
  "fips_compress H M = (let W = fips_schedule (words_of M) 64;
     (a, b, c, d, e) = fold (fips_step W) [0..<80] (H ! 0, H ! 1, H ! 2, H ! 3, H ! 4)
   in [H ! 0 + a, H ! 1 + b, H ! 2 + c, H ! 3 + d, H ! 4 + e])"

definition sha1_H0 :: "u32 list" where
  "sha1_H0 = [0x67452301, 0xEFCDAB89, 0x98BADCFE, 0x10325476, 0xC3D2E1F0]"

function absorb :: "(u32 list \<Rightarrow> u8 list \<Rightarrow> u32 list) \<Rightarrow> u32 list \<Rightarrow> u8 list \<Rightarrow> u32 list" where
  "absorb f H m = (if length m < 64 then H else absorb f (f H (take 64 m)) (drop 64 m))"
  by pat_completeness auto
termination
  by (relation "measure (\<lambda>(_, _, m). length m)") auto

declare absorb.simps [simp del]

definition fips_pad :: "u8 list \<Rightarrow> u8 list" where
  "fips_pad m = m @ [0x80] @ replicate ((119 - length m mod 64) mod 64) 0 @
     be_bytes (of_nat (8 * length m div 2 ^ 32)) @ be_bytes (of_nat (8 * length m))"

definition fips_sha1 :: "u8 list \<Rightarrow> u8 list" where
  "fips_sha1 m = bytes_of (absorb fips_compress sha1_H0 (fips_pad m))"

section \<open>The schedule in place\<close>

lemma function_fips: "sha1_function t x y z = fips_f t x y z"
proof -
  have "(x AND (y XOR z)) XOR z = Ch x y z"
    by (rule bit_word_eqI) (auto simp: Ch_def bit_simps)
  moreover have "((x OR y) AND z) OR (x AND y) = Maj x y z"
    by (rule bit_word_eqI) (auto simp: Maj_def bit_simps)
  ultimately show ?thesis
    by (simp add: sha1_function_def fips_f_def Parity_def)
qed

lemma schedule_length [simp]: "length (fips_schedule M n) = length M + n"
  by (induction n) (simp_all add: Let_def)

lemma schedule_stable: "t < length M + n \<Longrightarrow> n \<le> k \<Longrightarrow> fips_schedule M k ! t = fips_schedule M n ! t"
  by (induction k) (auto simp: Let_def nth_append le_Suc_eq)

lemma schedule_new:
  assumes "length M = 16" "16 \<le> t" "t < 80"
  defines "W \<equiv> fips_schedule M 64"
  shows "W ! t = rol (W ! (t - 3) XOR W ! (t - 8) XOR W ! (t - 14) XOR W ! (t - 16)) 1"
proof -
  obtain n where t: "t = 16 + n"
    using assms(2) le_Suc_ex by blast
  have e: "W ! k = fips_schedule M n ! k" if "k < t" for k
    using that assms schedule_stable [of k M n 64] by (simp add: t)
  have "W ! t = fips_schedule M (Suc n) ! t"
    using assms schedule_stable [of t M "Suc n" 64] by (simp add: t)
  then show ?thesis
    using assms(1,2) by (simp add: Let_def nth_append t e)
qed

text \<open>Before round \<open>i\<close> the sixteen words are the last sixteen of the schedule.\<close>

definition window :: "u32 list \<Rightarrow> nat \<Rightarrow> u32 list \<Rightarrow> bool" where
  "window W i l \<longleftrightarrow> length l = 16 \<and> (\<forall>t < max i 16. max i 16 \<le> t + 16 \<longrightarrow> l ! (t mod 16) = W ! t)"

lemma back_16:
  fixes i :: nat
  assumes "16 \<le> i"
  shows "(i + 13) mod 16 = (i - 3) mod 16" "(i + 8) mod 16 = (i - 8) mod 16"
    "(i + 2) mod 16 = (i - 14) mod 16" "i mod 16 = (i - 16) mod 16"
  using mod_add_self2 [of "i - 3" 16] mod_add_self2 [of "i - 8" 16] mod_add_self2 [of "i - 14" 16]
    mod_add_self2 [of "i - 16" 16] assms
  by (simp_all del: mod_add_self2 add: add.commute)

lemma window_step:
  assumes M: "length M = 16" and w: "window (fips_schedule M 64) i l" and i: "i < 80"
  shows "fst (if i < 16 then blk0 l i else blk l i) = fips_schedule M 64 ! i"
    and "window (fips_schedule M 64) (Suc i) (snd (if i < 16 then blk0 l i else blk l i))"
proof -
  let ?W = "fips_schedule M 64"
  have l: "length l = 16" and W: "\<And>t. t < max i 16 \<Longrightarrow> max i 16 \<le> t + 16 \<Longrightarrow> l ! (t mod 16) = ?W ! t"
    using w by (auto simp: window_def)
  have new: "blk l i = (?W ! i, l[i mod 16 := ?W ! i])" if "16 \<le> i"
  proof -
    have m: "(i + 13) mod 16 = (i - 3) mod 16" "(i + 8) mod 16 = (i - 8) mod 16"
        "(i + 2) mod 16 = (i - 14) mod 16" "i mod 16 = (i - 16) mod 16"
      using that by (rule back_16)+
    have "l ! ((i + 13) mod 16) = ?W ! (i - 3)" "l ! ((i + 8) mod 16) = ?W ! (i - 8)"
        "l ! ((i + 2) mod 16) = ?W ! (i - 14)" "l ! (i mod 16) = ?W ! (i - 16)"
      unfolding m using that by (intro W; simp)+
    then show ?thesis
      using schedule_new [OF M that i] by (simp add: blk_def Let_def)
  qed
  show "fst (if i < 16 then blk0 l i else blk l i) = ?W ! i"
    using W [of i] new by (auto simp: blk0_def)
  show "window ?W (Suc i) (snd (if i < 16 then blk0 l i else blk l i))"
  proof (cases "i < 16")
    case True
    then show ?thesis
      using w by (simp add: blk0_def window_def max_def)
  next
    case False
    have "l[i mod 16 := ?W ! i] ! (t mod 16) = ?W ! t" if "t < Suc i" "Suc i \<le> t + 16" for t
    proof (cases "t = i")
      case False
      then have "0 < i - t" "i - t < 16" "t \<le> i"
        using that by simp_all
      then have "t mod 16 \<noteq> i mod 16"
        by (metis mod_eq_dvd_iff_nat nat_dvd_not_less)
      then show ?thesis
        using that False W [of t] \<open>\<not> i < 16\<close> by (simp add: nth_list_update)
    qed (simp add: l)
    then show ?thesis
      using False new l by (simp add: window_def max_def)
  qed
qed

lemma rounds_fips:
  assumes "length M = 16" "n \<le> 80"
  defines "W \<equiv> fips_schedule M 64"
  shows "fst (fold sha1_R [0..<n] (p, M)) = fold (fips_step W) [0..<n] p \<and>
    window W n (snd (fold sha1_R [0..<n] (p, M)))"
  using assms(2)
proof (induction n)
  case 0
  have "W ! t = M ! t" if "t < 16" for t
    using that assms(1) schedule_stable [of t M 0 64] by (simp add: W_def)
  then show ?case
    using assms(1) by (simp add: window_def)
next
  case (Suc n)
  obtain v w x y z l where p: "fold sha1_R [0..<n] (p, M) = ((v, w, x, y, z), l)"
    by (metis prod.exhaust)
  have w: "window W n l" and q: "fold (fips_step W) [0..<n] p = (v, w, x, y, z)"
    using Suc p by simp_all
  have b: "fst (if n < 16 then blk0 l n else blk l n) = W ! n"
      "window W (Suc n) (snd (if n < 16 then blk0 l n else blk l n))"
    using window_step [OF assms(1), of n l] Suc.prems w unfolding W_def by simp_all
  have "fst (sha1_R n ((v, w, x, y, z), l)) = fips_step W n (v, w, x, y, z)"
    using b(1) by (simp add: sha1_R_def fips_step_def function_fips case_prod_beta Let_def ac_simps)
  moreover have "snd (sha1_R n ((v, w, x, y, z), l)) = snd (if n < 16 then blk0 l n else blk l n)"
    by (simp add: sha1_R_def case_prod_beta Let_def)
  ultimately show ?case
    using b(2) p q by simp
qed

lemma Transform_fips:
  "SHA1_Transform H b = (fips_compress H b, bytes_of (drop 64 (fips_schedule (words_of b) 64)))"
proof -
  let ?W = "fips_schedule (words_of b) 64"
  let ?p = "(H ! 0, H ! 1, H ! 2, H ! 3, H ! 4)"
  obtain vs l where p: "fold sha1_R [0..<80] (?p, words_of b) = (vs, l)"
    by fastforce
  have r: "vs = fold (fips_step ?W) [0..<80] ?p" "window ?W 80 l"
    using rounds_fips [of "words_of b" 80 ?p] p by simp_all
  have "l = drop 64 ?W"
  proof (rule nth_equalityI)
    fix i
    assume "i < length l"
    then have "i < 16"
      using r(2) by (simp add: window_def)
    then have "(64 + i) mod 16 = i"
      using mod_mult_self1 [of i 4 16] by (simp add: add.commute)
    moreover have "l ! ((64 + i) mod 16) = ?W ! (64 + i)"
      using r(2) \<open>i < 16\<close> unfolding window_def by simp
    ultimately show "l ! i = drop 64 ?W ! i"
      by simp
  qed (use r(2) in \<open>simp add: window_def\<close>)
  then show ?thesis
    using p r(1) by (simp add: SHA1_Transform_def fips_compress_def Let_def case_prod_beta)
qed

section \<open>Streaming\<close>

lemma absorb_short [simp]: "length m < 64 \<Longrightarrow> absorb f H m = H"
  by (simp add: absorb.simps)

lemma absorb_block: "length b = 64 \<Longrightarrow> absorb f H (b @ m) = absorb f (f H b) m"
  by (subst absorb.simps) simp

lemma absorb_append:
  assumes "length m mod 64 = 0"
  shows "absorb f H (m @ m') = absorb f (absorb f H m) m'"
  using assms
proof (induction m arbitrary: H rule: length_induct)
  case (1 m)
  show ?case
  proof (cases "m = []")
    case False
    then have len: "64 \<le> length m"
      using 1(2) by (cases "length m < 64") auto
    then have "length (drop 64 m) mod 64 = 0"
      using 1(2) by (simp add: le_mod_geq)
    then have "absorb f H' (drop 64 m @ m') = absorb f (absorb f H' (drop 64 m)) m'" for H'
      using 1(1) len by auto
    then show ?thesis
      using absorb_block [of "take 64 m" f H] len
      by (metis append_assoc append_take_drop_id length_take min.absorb2)
  qed simp
qed

lemma sha1_blocks_absorb:
  assumes "i \<le> length data"
  shows "case sha1_blocks i state data of (i', state', data') \<Rightarrow>
     state' = absorb fips_compress state (drop i data) \<and> i' = i + 64 * ((length data - i) div 64) \<and>
     drop i' data' = drop i' data \<and> length data' = length data \<and> take i data' = take i data"
  using assms
proof (induction i state data rule: sha1_blocks.induct)
  case (1 i state data)
  show ?case
  proof (cases "i + 63 < length data")
    case False
    then show ?thesis
      using 1(2) by (subst sha1_blocks.simps) simp
  next
    case True
    define b where "b = take 64 (drop i data)"
    obtain state' b' where T: "SHA1_Transform state b = (state', b')" and b': "length b' = 64"
      using SHA1_Transform_length(2) [of state b] by (cases "SHA1_Transform state b") simp
    define data' where "data' = copy_to data i b'"
    have d: "length data' = length data" "drop (i + 64) data' = drop (i + 64) data"
        "take i data' = take i data"
      using True b' by (simp_all add: data'_def copy_to_def)
    have "case sha1_blocks (i + 64) state' data' of (i', state'', data'') \<Rightarrow>
      state'' = absorb fips_compress state' (drop (i + 64) data') \<and>
      i' = i + 64 + 64 * ((length data' - (i + 64)) div 64) \<and>
      drop i' data'' = drop i' data' \<and> length data'' = length data' \<and> take (i + 64) data'' = take (i + 64) data'"
      using 1(1) [OF True] T True d by (simp add: b_def data'_def)
    moreover have "sha1_blocks i state data = sha1_blocks (i + 64) state' data'"
      using True T by (subst sha1_blocks.simps) (simp add: b_def data'_def)
    moreover have "absorb fips_compress state (drop i data) = absorb fips_compress state' (drop (i + 64) data)"
    proof -
      have "drop i data = b @ drop (i + 64) data"
        using append_take_drop_id [of 64 "drop i data"] by (simp add: b_def add.commute)
      moreover have "state' = fips_compress state b" "length b = 64"
        using T True by (simp_all add: Transform_fips b_def)
      ultimately show ?thesis
        by (simp add: absorb_block)
    qed
    moreover have "(length data - i) div 64 = Suc ((length data - (i + 64)) div 64)"
      using True div_add_self2 [of 64 "length data - (i + 64)"] by simp
    moreover have "drop j data' = drop j data" if "i + 64 \<le> j" for j
      using that d(2) by (metis drop_drop le_add_diff_inverse2)
    moreover have "take i data'' = take i data" if "take (i + 64) data'' = take (i + 64) data'" for data''
      using arg_cong [OF that, of "take i"] d(3) by (simp add: min_def)
    ultimately show ?thesis
      using d by (cases "sha1_blocks (i + 64) state' data'") simp
  qed
qed

text \<open>
  What a context stands for: the message fed to it so far, of which the whole blocks are in the
  state and the rest is in the buffer; the counter is the length in bits modulo \<open>2 ^ 64\<close>.
\<close>

definition whole :: "u8 list \<Rightarrow> nat" where
  "whole m = 64 * (length m div 64)"

definition sha_rep :: "SHA_CTX \<Rightarrow> u8 list \<Rightarrow> bool" where
  "sha_rep c m \<longleftrightarrow> sha_state c = absorb fips_compress sha1_H0 m \<and> length (sha_buffer c) = 64 \<and>
     take (length m mod 64) (sha_buffer c) = drop (whole m) m \<and>
     count0 c = of_nat (8 * length m) \<and> count1 c = of_nat (8 * length m div 2 ^ 32)"

lemma whole_drop [simp]: "length (drop (whole m) m) = length m mod 64"
  by (simp add: whole_def minus_mult_div_eq_mod)

lemma absorb_split: "absorb f H (m @ m') = absorb f (absorb f H m) (drop (whole m) m @ m')"
proof -
  let ?w = "take (whole m) m" and ?r = "drop (whole m) m"
  have "whole m \<le> length m"
    by (simp add: whole_def)
  then have "length ?w mod 64 = 0"
    by (simp add: min_def) (simp add: whole_def)
  then have "absorb f H (?w @ x) = absorb f (absorb f H ?w) x" for x
    by (rule absorb_append)
  moreover have "length ?r < 64"
    unfolding whole_drop by simp
  ultimately have "absorb f H (?w @ ?r @ m') = absorb f (absorb f H (?w @ ?r)) (?r @ m')"
    by (simp del: append_take_drop_id)
  then show ?thesis
    unfolding append_assoc [symmetric] append_take_drop_id .
qed

lemma unat_of_nat_u32: "unat (of_nat n :: u32) = n mod 2 ^ 32"
  by (simp add: unsigned_of_nat take_bit_eq_mod)

lemma buffer_index: "unat (drop_bit 3 (of_nat (8 * n) :: u32) AND 63) = n mod 64"
proof -
  define w where "w = (of_nat (8 * n) :: u32)"
  have m: "drop_bit 3 w AND 63 = take_bit 6 (drop_bit 3 w)"
    by (simp add: take_bit_eq_mask mask_eq_exp_minus_1)
  have "unat (take_bit 6 (drop_bit 3 w)) = take_bit 6 (drop_bit 3 (unat w))"
    by (simp only: unsigned_take_bit_eq unsigned_drop_bit_eq) (simp add: take_bit_nat_eq_self)
  also have "\<dots> = unat w div 8 mod 64"
    by (simp add: take_bit_eq_mod drop_bit_eq_div)
  finally have "unat (drop_bit 3 w AND 63) = unat w div 8 mod 64"
    unfolding m .
  then have "unat (drop_bit 3 (of_nat (8 * n) :: u32) AND 63) = (8 * n mod 2 ^ 32) div 8 mod 64"
    unfolding w_def unat_of_nat_u32 .
  also have "\<dots> = n mod 2 ^ 29 mod 64"
    using mod_mult_mult1 [of 8 n "2 ^ 29"] by simp
  also have "\<dots> = n mod 64"
    by (rule mod_mod_cancel) (simp add: dvd_def)
  finally show ?thesis .
qed

lemma count_low: "of_nat (8 * n) + push_bit 3 (of_nat k :: u32) = of_nat (8 * (n + k))"
  by (simp add: push_bit_eq_mult)

lemma count_carry:
  "(of_nat (8 * n) + push_bit 3 (of_nat k) < (push_bit 3 (of_nat k) :: u32)) \<longleftrightarrow>
     2 ^ 32 \<le> 8 * n mod 2 ^ 32 + 8 * k mod 2 ^ 32"
proof -
  have p: "push_bit 3 (of_nat k :: u32) = of_nat (8 * k)"
    by (simp add: push_bit_eq_mult)
  let ?a = "8 * n mod 2 ^ 32" and ?b = "8 * k mod 2 ^ 32"
  have lt: "?a < 2 ^ 32" "?b < 2 ^ 32"
    by simp_all
  have "(of_nat (8 * n) + of_nat (8 * k) < (of_nat (8 * k) :: u32)) \<longleftrightarrow> (?a + ?b) mod 2 ^ 32 < ?b"
    by (simp only: word_less_nat_alt unat_of_nat_u32 flip: of_nat_add) (simp only: mod_add_eq)
  also have "\<dots> \<longleftrightarrow> 2 ^ 32 \<le> ?a + ?b"
  proof (cases "?a + ?b < 2 ^ 32")
    case False
    then have "(?a + ?b) mod 2 ^ 32 = ?a + ?b - 2 ^ 32"
      using lt by (subst le_mod_geq) (auto simp del: mod_less_divisor)
    then show ?thesis
      using False lt by linarith
  qed simp
  finally show ?thesis
    unfolding p .
qed

lemma carry_div:
  fixes a b c :: nat
  assumes "a < c" "b < c"
  shows "(a + b) div c = (if c \<le> a + b then 1 else 0)"
  using assms by (auto intro!: div_nat_eqI)

lemma count_high:
  assumes "k < 2 ^ 32"
  shows "(if of_nat (8 * n) + push_bit 3 (of_nat k) < (push_bit 3 (of_nat k) :: u32)
      then of_nat (8 * n div 2 ^ 32) + 1 else of_nat (8 * n div 2 ^ 32)) + drop_bit 29 (of_nat k :: u32) =
    of_nat (8 * (n + k) div 2 ^ 32)"
proof -
  let ?a = "8 * n mod 2 ^ 32" and ?b = "8 * k mod 2 ^ 32"
  have "drop_bit 29 (of_nat k :: u32) = of_nat (8 * k div 2 ^ 32)"
  proof -
    have "8 * k div 2 ^ 32 = k div 2 ^ 29"
      using div_mult_mult1 [of 8 k "2 ^ 29"] by simp
    moreover have "k div 2 ^ 29 < 2 ^ 32"
      using assms by (simp add: div_less_dividend order_le_less_trans [OF div_le_dividend])
    moreover have "unat (drop_bit 29 (of_nat k :: u32)) = k div 2 ^ 29"
      using assms by (simp only: unsigned_drop_bit_eq unat_of_nat_u32) (simp add: drop_bit_eq_div take_bit_nat_eq_self)
    ultimately show ?thesis
      by (simp add: word_unat_eq_iff unat_of_nat_u32)
  qed
  moreover have "8 * (n + k) div 2 ^ 32 = 8 * n div 2 ^ 32 + 8 * k div 2 ^ 32 + (?a + ?b) div 2 ^ 32"
    unfolding distrib_left by (rule div_add1_eq)
  moreover have "(?a + ?b) div 2 ^ 32 = (if 2 ^ 32 \<le> ?a + ?b then 1 else 0)"
    by (rule carry_div) simp_all
  ultimately show ?thesis
    unfolding count_carry by (simp add: ac_simps)
qed

lemma SHA1_Init_rep: "length (sha_buffer c) = 64 \<Longrightarrow> sha_rep (SHA1_Init c) []"
  by (simp add: sha_rep_def SHA1_Init_def sha1_H0_def whole_def)

lemma drop_whole_append:
  assumes "length m mod 64 + length d < 64"
  shows "drop (whole (m @ d)) (m @ d) = drop (whole m) m @ d" "length (m @ d) mod 64 = length m mod 64 + length d"
proof -
  have n: "length m = 64 * (length m div 64) + length m mod 64"
    by simp
  have q: "(length m + length d) div 64 = length m div 64"
  proof (rule div_nat_eqI)
    show "length m + length d < 64 * Suc (length m div 64)"
      unfolding mult_Suc_right using n assms by linarith
  qed (use n in linarith)
  then have "whole (m @ d) = whole m"
    by (simp add: whole_def)
  moreover have "whole m \<le> length m"
    by (simp add: whole_def)
  ultimately show "drop (whole (m @ d)) (m @ d) = drop (whole m) m @ d"
    by simp
  show "length (m @ d) mod 64 = length m mod 64 + length d"
    using n mult_div_mod_eq [of 64 "length m + length d"] unfolding q length_append by linarith
qed

lemma take_copy_to: "take j b = r \<Longrightarrow> length r = j \<Longrightarrow> take (j + length d) (copy_to b j d) = r @ d"
  by (auto simp: copy_to_def)

lemma SHA1_Update_rep:
  assumes rep: "sha_rep c m" and len: "length data + 64 \<le> 2 ^ 32"
  shows "sha_rep (fst (SHA1_Update c data)) (m @ data)"
proof -
  let ?n = "length m" and ?k = "length data" and ?r = "drop (whole m) m"
  define j where "j = drop_bit 3 (count0 c) AND 63"
  have j: "unat j = ?n mod 64"
    using rep buffer_index [of ?n] by (simp add: j_def sha_rep_def)
  have buf: "length (sha_buffer c) = 64" "take (?n mod 64) (sha_buffer c) = ?r"
    using rep by (simp_all add: sha_rep_def)
  have st: "sha_state c = absorb fips_compress sha1_H0 m"
    using rep by (simp add: sha_rep_def)
  have full: "j + of_nat ?k > 63 \<longleftrightarrow> ?n mod 64 + ?k > 63"
  proof -
    have "?n mod 64 < 64"
      by simp
    then have "unat (j + of_nat ?k) = ?n mod 64 + ?k"
      using len by (simp add: unat_word_ariths j unat_of_nat_u32)
    then show ?thesis
      by (simp add: word_less_nat_alt)
  qed
  define c' where "c' = fst (SHA1_Update c data)"
  have cnt: "count0 c' = of_nat (8 * (?n + ?k))" "count1 c' = of_nat (8 * (?n + ?k) div 2 ^ 32)"
  proof -
    have c: "count0 c = of_nat (8 * ?n)" "count1 c = of_nat (8 * ?n div 2 ^ 32)"
      using rep by (simp_all add: sha_rep_def)
    have "count0 c' = count0 c + push_bit 3 (of_nat ?k)"
        "count1 c' = (if count0 c + push_bit 3 (of_nat ?k) < push_bit 3 (of_nat ?k)
           then count1 c + 1 else count1 c) + drop_bit 29 (of_nat ?k)"
      by (simp_all add: c'_def SHA1_Update_def Let_def case_prod_beta)
    then show "count0 c' = of_nat (8 * (?n + ?k))" "count1 c' = of_nat (8 * (?n + ?k) div 2 ^ 32)"
      unfolding c using count_low [of ?n ?k] count_high [of ?k ?n] len by simp_all
  qed
  show ?thesis
  proof (cases "?n mod 64 + ?k > 63")
    case False
    then have c': "sha_state c' = sha_state c" "sha_buffer c' = copy_to (sha_buffer c) (?n mod 64) data"
      using full by (simp_all add: c'_def SHA1_Update_def Let_def j j_def [symmetric])
    have lt: "?n mod 64 + ?k < 64"
      using False by simp
    have "length (?r @ data) < 64"
      unfolding length_append whole_drop by (rule lt)
    then have "absorb fips_compress sha1_H0 (m @ data) = absorb fips_compress sha1_H0 m"
      unfolding absorb_split [of _ _ m] by (rule absorb_short)
    moreover have "take (length (m @ data) mod 64) (sha_buffer c') = drop (whole (m @ data)) (m @ data)"
      unfolding drop_whole_append [OF lt] c' by (rule take_copy_to [OF buf(2)]) (use buf(1) whole_drop in auto)
    moreover have "length (sha_buffer c') = 64"
      unfolding c' using buf lt by simp
    ultimately show ?thesis
      using cnt c'(1) st by (simp add: sha_rep_def c'_def [symmetric])
  next
    case True
    define i where "i = 64 - ?n mod 64"
    have i: "i \<le> ?k" "?n mod 64 + i = 64"
      using True mod_less_divisor [of 64 ?n] by (simp_all add: i_def)
    define b where "b = ?r @ take i data"
    have b: "copy_to (sha_buffer c) (?n mod 64) (take i data) = b" "length b = 64"
      using buf i whole_drop [of m] by (simp_all add: b_def copy_to_def)
    obtain st1 b1 where T: "SHA1_Transform (sha_state c) b = (st1, b1)" "st1 = fips_compress (sha_state c) b"
        "length b1 = 64"
      using SHA1_Transform_length(2) [of "sha_state c" b] by (simp add: Transform_fips)
    obtain i' st' data' where B: "sha1_blocks i st1 data = (i', st', data')"
      by (metis prod.exhaust)
    have B': "st' = absorb fips_compress st1 (drop i data)" "i' = i + 64 * ((?k - i) div 64)"
        "drop i' data' = drop i' data" "length data' = ?k"
      using sha1_blocks_absorb [OF i(1), of st1] unfolding B prod.case by blast+
    have c': "sha_state c' = st'" "sha_buffer c' = copy_to b1 0 (drop i' data)"
      using True full T(1) B B'(3) b(1)
      by (simp_all add: c'_def SHA1_Update_def Let_def j j_def [symmetric] i_def [symmetric])
    have "absorb fips_compress sha1_H0 (m @ data) = absorb fips_compress (sha_state c) (b @ drop i data)"
      unfolding absorb_split [of _ _ m] st b_def by simp
    also have "\<dots> = st'"
      unfolding absorb_block [OF b(2)] B'(1) T(2) ..
    finally have state: "sha_state c' = absorb fips_compress sha1_H0 (m @ data)"
      unfolding c' by simp
    define q where "q = (?k - i) div 64"
    define rem where "rem = (?k - i) mod 64"
    have rem: "rem < 64" "?k = i + (64 * q + rem)"
      using i(1) by (simp_all add: rem_def q_def)
    define nd where "nd = ?n div 64"
    have "?n = 64 * nd + ?n mod 64"
      by (simp add: nd_def)
    then have nk: "?n + ?k = 64 * (nd + 1 + q) + rem"
      using i(2) rem(2) by simp
    have "(?n + ?k) div 64 = nd + 1 + q" "(?n + ?k) mod 64 = rem"
    proof -
      have "(64 * x + rem) div 64 = x" "(64 * x + rem) mod 64 = rem" for x
        using rem(1) by simp_all
      then show "(?n + ?k) div 64 = nd + 1 + q" "(?n + ?k) mod 64 = rem"
        unfolding nk by blast+
    qed
    moreover have "i' = i + 64 * q"
      using B'(2) by (simp add: q_def)
    ultimately have w: "whole (m @ data) = ?n + i'" and l: "length (m @ data) mod 64 = ?k - i'" "?k - i' \<le> 64"
      using nk rem by (simp_all add: whole_def)
    have "drop (whole (m @ data)) (m @ data) = drop i' data"
      unfolding w by simp
    moreover have "take (length (m @ data) mod 64) (sha_buffer c') = drop i' data"
      unfolding c' l using T(3) l(2) by (simp add: copy_to_def)
    moreover have "length (sha_buffer c') = 64"
      unfolding c' using T(3) l(2) by simp
    ultimately show ?thesis
      using cnt state by (simp add: sha_rep_def c'_def [symmetric])
  qed
qed

section \<open>Padding and digest\<close>

lemma pad_condition: "(of_nat (8 * n) :: u32) AND 504 = 448 \<longleftrightarrow> n mod 64 = 56"
proof -
  define w where "w = (of_nat (8 * n) :: u32)"
  have m: "(504 :: u32) = push_bit 3 63" "(448 :: u32) = push_bit 3 56"
    by simp_all
  have e: "w AND push_bit k x = push_bit k (drop_bit k w AND x)" for k x
    by (rule bit_word_eqI) (auto simp: bit_simps)
  have d: "drop_bit k (push_bit k (drop_bit k w AND x)) = drop_bit k w AND x" for k x
    by (rule bit_word_eqI) (auto simp: bit_simps dest: bit_imp_le_length)
  have "w AND 504 = 448 \<longleftrightarrow> drop_bit 3 w AND 63 = 56"
  proof
    assume "w AND 504 = 448"
    then have "push_bit 3 (drop_bit 3 w AND 63) = push_bit 3 56"
      unfolding m e .
    from arg_cong [OF this, of "drop_bit 3"] show "drop_bit 3 w AND 63 = 56"
      unfolding d by simp
  qed (unfold m e, simp only:)
  also have "\<dots> \<longleftrightarrow> unat (drop_bit 3 w AND 63) = 56"
    by (simp add: word_unat_eq_iff)
  finally show ?thesis
    unfolding w_def buffer_index .
qed

lemma pad_count: "r < 64 \<Longrightarrow> (120 - r) mod 64 = (if r \<le> 56 then 56 - r else 120 - r)" for r :: nat
proof (cases "r \<le> 56")
  case True
  then have "120 - r = (56 - r) + 64"
    by simp
  then have "(120 - r) mod 64 = (56 - r) mod 64"
    unfolding mod_add_self2 [of "56 - r" 64, symmetric] by (rule arg_cong)
  then show ?thesis
    using True by simp
qed simp

lemma sha1_pad_rep:
  assumes "sha_rep c m" "k = (120 - length m mod 64) mod 64"
  shows "returns (sha1_pad_loop c) (\<lambda>c'. sha_rep c' (m @ replicate k 0))"
  using assms
proof (induction k arbitrary: c m)
  case 0
  have "length m mod 64 < 64"
    by simp
  then have "length m mod 64 = 56"
    using 0(2) pad_count [of "length m mod 64"] by (simp split: if_splits)
  then have "count0 c AND 504 = 448"
    using 0(1) pad_condition by (simp add: sha_rep_def)
  then show ?case
    using 0(1) by (subst sha1_pad_loop.simps) simp
next
  case (Suc k)
  have lt: "length m mod 64 < 64"
    by simp
  have ne: "length m mod 64 \<noteq> 56"
    using Suc.prems(2) by auto
  define r r' where r: "r = length m mod 64" "r' = length (m @ [0 :: u8]) mod 64"
  have "r' = (if r = 63 then 0 else Suc r)"
    by (simp add: r mod_Suc)
  moreover have "Suc k = (if r \<le> 56 then 56 - r else 120 - r)" "r < 64" "r \<noteq> 56"
    using Suc.prems(2) pad_count [OF lt] ne by (simp_all add: r)
  moreover have "r' < 64"
    by (simp add: r)
  ultimately have "k = (120 - r') mod 64"
    using pad_count [of r'] by (auto split: if_splits)
  then have k: "k = (120 - length (m @ [0 :: u8]) mod 64) mod 64"
    unfolding r .
  have "sha_rep (fst (SHA1_Update c [0])) (m @ [0])"
    by (rule SHA1_Update_rep [OF Suc.prems(1)]) simp
  from Suc.IH [OF this k] show ?case
    using ne Suc.prems(1) pad_condition [of "length m"]
    by (subst sha1_pad_loop.simps) (simp add: sha_rep_def)
qed

lemma ucast_and_255: "(ucast (x AND 255 :: u32) :: u8) = ucast x"
proof -
  have "(255 :: u32) = mask 8"
    by (simp add: mask_eq_exp_minus_1)
  then have "x AND 255 = take_bit 8 x"
    by (simp add: take_bit_eq_mask)
  then show ?thesis
    by (auto intro!: bit_word_eqI simp: bit_simps)
qed

lemma finalcount_bytes: "finalcount c = be_bytes (count1 c) @ be_bytes (count0 c)"
  by (simp add: finalcount_def be_bytes_def ucast_and_255 upt_rec)

lemma length_5: "length xs = 5 \<Longrightarrow> xs = [xs ! 0, xs ! 1, xs ! 2, xs ! 3, xs ! 4]"
  by (auto simp: list_eq_iff_nth_eq less_Suc_eq numeral_eq_Suc)

lemma digest_bytes:
  assumes "length (sha_state c) = 5"
  shows "sha1_digest c = bytes_of (sha_state c)"
  by (subst length_5 [OF assms])
    (simp add: sha1_digest_def bytes_of_def be_bytes_def ucast_and_255 upt_rec)

lemma absorb_length: "length H = 5 \<Longrightarrow> length (absorb fips_compress H m) = 5"
  by (induction fips_compress H m rule: absorb.induct)
    (subst absorb.simps, simp add: fips_compress_def Let_def case_prod_beta)

lemma pad_message:
  "m @ [0x80] @ replicate ((120 - length (m @ [0x80 :: u8]) mod 64) mod 64) 0 @
     be_bytes (of_nat (8 * length m div 2 ^ 32)) @ be_bytes (of_nat (8 * length m)) = fips_pad m"
proof -
  define r r' where r: "r = length m mod 64" "r' = length (m @ [0x80 :: u8]) mod 64"
  have "r' = (if r = 63 then 0 else Suc r)"
    by (simp add: r mod_Suc)
  moreover have "r < 64"
    by (simp add: r)
  ultimately have "(120 - r') mod 64 = (119 - r) mod 64"
    by (cases "r = 63") simp_all
  then show ?thesis
    unfolding fips_pad_def r by simp
qed

lemma SHA1_Final_rep:
  assumes "sha_rep c m"
  shows "returns (SHA1_Final c) (\<lambda>(digest, c'). digest = fips_sha1 m \<and> length (sha_buffer c') = 64)"
proof -
  let ?k = "(120 - length (m @ [0x80 :: u8]) mod 64) mod 64"
  obtain c1 x where c1: "SHA1_Update c [0x80] = (c1, x)"
    by fastforce
  have "sha_rep c1 (m @ [0x80])"
    using SHA1_Update_rep [OF assms, of "[0x80]"] c1 by simp
  from sha1_pad_rep [OF this refl] obtain c2 where c2: "sha1_pad_loop c1 = Some c2"
      "sha_rep c2 ((m @ [0x80]) @ replicate ?k 0)"
    by (rule returnsE)
  have fc: "finalcount c = be_bytes (of_nat (8 * length m div 2 ^ 32)) @ be_bytes (of_nat (8 * length m))"
    using assms by (simp add: finalcount_bytes sha_rep_def)
  obtain c3 y where c3: "SHA1_Update c2 (finalcount c) = (c3, y)"
    by fastforce
  have "sha_rep c3 (((m @ [0x80]) @ replicate ?k 0) @ finalcount c)"
  proof -
    have "length (finalcount c) = 8"
      by (simp add: finalcount_def)
    then have "sha_rep (fst (SHA1_Update c2 (finalcount c))) (((m @ [0x80]) @ replicate ?k 0) @ finalcount c)"
      by (intro SHA1_Update_rep [OF c2(2)]) simp
    then show ?thesis
      unfolding c3 fst_conv .
  qed
  then have "sha_rep c3 (fips_pad m)"
    unfolding fc append_assoc pad_message .
  then have "sha_state c3 = absorb fips_compress sha1_H0 (fips_pad m)"
    by (simp add: sha_rep_def)
  then have "sha1_digest c3 = fips_sha1 m"
    by (simp add: digest_bytes absorb_length fips_sha1_def sha1_H0_def)
  then show ?thesis
    by (simp add: SHA1_Final_def c1 c2(1) c3)
qed

section \<open>The interface\<close>

text \<open>
  A hash computed piece by piece: \<open>rep c m\<close> says that context \<open>c\<close> has been fed with \<open>m\<close>, \<open>fit d\<close> that
  a piece is not too long for one call.
\<close>

locale stream_hash =
  fixes fresh :: "'c \<Rightarrow> bool" and rep :: "'c \<Rightarrow> u8 list \<Rightarrow> bool" and fit :: "u8 list \<Rightarrow> bool"
    and init :: "'c \<Rightarrow> 'c" and update :: "'c \<Rightarrow> u8 list \<Rightarrow> 'c" and final :: "'c \<Rightarrow> (u8 list \<times> 'c) option"
    and hash :: "u8 list \<Rightarrow> u8 list"
  assumes init_rep: "fresh c \<Longrightarrow> rep (init c) []"
    and update_rep: "rep c m \<Longrightarrow> fit d \<Longrightarrow> rep (update c d) (m @ d)"
    and rep_fresh: "rep c m \<Longrightarrow> fresh c"
    and final_rep: "rep c m \<Longrightarrow> returns (final c) (\<lambda>(digest, c'). digest = hash m \<and> fresh c')"
begin

lemma feed_rep:
  assumes "rep c m" "\<forall>d \<in> set ds. fit d"
  shows "rep (fold (\<lambda>d c. update c d) ds c) (m @ concat ds)"
  using assms
proof (induction ds arbitrary: c m)
  case (Cons d ds)
  then show ?case
    using Cons.IH [of "update c d" "m @ d"] update_rep [of c m d] by simp
qed simp

lemma hash_pieces:
  assumes "fresh c" "\<forall>d \<in> set ds. fit d"
  shows "returns (final (fold (\<lambda>d c. update c d) ds (init c))) (\<lambda>(digest, c'). digest = hash (concat ds) \<and> fresh c')"
  using final_rep [OF feed_rep [OF init_rep [OF assms(1)] assms(2)]] by simp

end

definition sha_fresh :: "SHA_CTX \<Rightarrow> bool" where
  "sha_fresh c \<longleftrightarrow> length (sha_buffer c) = 64"

definition sha_fit :: "u8 list \<Rightarrow> bool" where
  "sha_fit d \<longleftrightarrow> length d + 64 < 2 ^ 32"

interpretation sha1: stream_hash sha_fresh sha_rep sha_fit SHA1_Init "\<lambda>c d. fst (SHA1_Update c d)" SHA1_Final fips_sha1
proof unfold_locales
  show "sha_rep (SHA1_Init c) []" if "sha_fresh c" for c
    using that by (simp add: SHA1_Init_rep sha_fresh_def)
  show "sha_rep (fst (SHA1_Update c d)) (m @ d)" if "sha_rep c m" "sha_fit d" for c m d
    using that by (intro SHA1_Update_rep) (simp_all add: sha_fit_def)
  show "sha_fresh c" if "sha_rep c m" for c m
    using that by (simp add: sha_rep_def sha_fresh_def)
  show "returns (SHA1_Final c) (\<lambda>(digest, c'). digest = fips_sha1 m \<and> sha_fresh c')" if "sha_rep c m" for c m
    using SHA1_Final_rep [OF that] by (simp add: sha_fresh_def)
qed

section \<open>Properties\<close>

text \<open>
  C16: whatever the pieces in which a message is handed over (each shorter than \<open>2 ^ 32 - 64\<close> bytes),
  \<open>SHA1_Init\<close>, the calls of \<open>SHA1_Update\<close> and \<open>SHA1_Final\<close> return the SHA-1 digest of the standard.
\<close>

theorem sha1_computes_fips:
  assumes "length (sha_buffer c) = 64" and "\<forall>d \<in> set pieces. length d + 64 < 2 ^ 32"
  shows "returns (SHA1_Final (fold (\<lambda>d c. fst (SHA1_Update c d)) pieces (SHA1_Init c)))
     (\<lambda>(digest, c'). digest = fips_sha1 (concat pieces))"
  using sha1.hash_pieces [of c pieces] assms by (auto simp: sha_fresh_def sha_fit_def elim!: returns_mono)

definition sha_zero :: SHA_CTX where
  "sha_zero = \<lparr>sha_state = replicate 5 0, count0 = 0, count1 = 0, sha_buffer = replicate 64 0\<rparr>"

theorem sha1_computes_fips_witness:
  "returns (SHA1_Final (fold (\<lambda>d c. fst (SHA1_Update c d)) [[97], [98, 99]] (SHA1_Init sha_zero)))
     (\<lambda>(digest, c'). digest = fips_sha1 [97, 98, 99])"
  using sha1_computes_fips [of sha_zero "[[97], [98, 99]]"] by (simp add: sha_zero_def)

text \<open>
  \<open>SHA1_Update\<close> writes to the buffer of its caller.  With an empty context, the second block of a
  buffer of two blocks comes back as the last sixteen words of its message schedule.
\<close>

theorem sha1_update_overwrites:
  assumes "sha_rep c []" "length data = 128"
  shows "snd (SHA1_Update c data) = take 64 data @ bytes_of (drop 64 (fips_schedule (words_of (drop 64 data)) 64))"
proof -
  have c: "count0 c = 0" "length (sha_buffer c) = 64"
    using assms(1) by (simp_all add: sha_rep_def)
  obtain s b where T: "SHA1_Transform (sha_state c) (copy_to (sha_buffer c) 0 (take 64 data)) = (s, b)"
    by fastforce
  obtain s' where T': "SHA1_Transform s (drop 64 data) =
      (s', bytes_of (drop 64 (fips_schedule (words_of (drop 64 data)) 64)))"
    by (simp add: Transform_fips)
  then have "length (bytes_of (drop 64 (fips_schedule (words_of (drop 64 data)) 64))) = 64"
    by simp
  then have "sha1_blocks 64 s data = (128, s',
      take 64 data @ bytes_of (drop 64 (fips_schedule (words_of (drop 64 data)) 64)))"
    using assms(2) T' by (subst sha1_blocks.simps) (simp, subst sha1_blocks.simps, simp add: copy_to_def)
  then show ?thesis
    using c T assms(2) by (simp add: SHA1_Update_def Let_def)
qed

theorem sha1_update_overwrites_witness:
  "snd (SHA1_Update (SHA1_Init sha_zero) (replicate 128 1)) = replicate 64 1 @
     bytes_of (drop 64 (fips_schedule (words_of (replicate 64 1)) 64))"
proof -
  have "sha_rep (SHA1_Init sha_zero) []"
    by (rule SHA1_Init_rep) (simp add: sha_zero_def)
  from sha1_update_overwrites [OF this, of "replicate 128 1"] show ?thesis
    by (simp add: take_replicate drop_replicate)
qed

end
