(* ===== verification/Hmac_Sha1.thy ===== *)
theory Hmac_Sha1
  imports Sha1_Correct
begin

text \<open>
  HMAC-SHA1, \<^verbatim>\<open>crypt/hmac_sha1.c\<close>: the context with its two pads and the key, fed piece by piece.
  The proofs use the hash only through the interface \<open>sha1\<close> of \<open>Sha1_Correct\<close>.
\<close>

unbundle bit_operations_syntax

section \<open>Model\<close>

record HMAC_SHA1_CTX =
  ipad :: "u8 list"
  opad :: "u8 list"
  shactx :: SHA_CTX
  hmac_key :: "u8 list"
  keylen :: u32
  hashkey :: u32

definition HMAC_SHA1_Init :: "HMAC_SHA1_CTX \<Rightarrow> HMAC_SHA1_CTX" where
  "HMAC_SHA1_Init ctx = ctx\<lparr>hmac_key := replicate 64 0, ipad := replicate 64 0x36,
     opad := replicate 64 0x5c, keylen := 0, hashkey := 0\<rparr>"

text \<open>\<open>start_hashing\<close> is the branch taken when the key first exceeds a block.\<close>

definition start_hashing :: "HMAC_SHA1_CTX \<Rightarrow> HMAC_SHA1_CTX" where
  "start_hashing ctx = (let
     ctx = ctx\<lparr>hashkey := 1, shactx := SHA1_Init (shactx ctx)\<rparr>;
     ctx = (if keylen ctx > 0 then
              let (c, key) = SHA1_Update (shactx ctx) (take (unat (keylen ctx)) (hmac_key ctx))
              in ctx\<lparr>shactx := c, hmac_key := copy_to (hmac_key ctx) 0 key\<rparr>
            else ctx)
   in ctx\<lparr>keylen := 20\<rparr>)"

definition HMAC_SHA1_UpdateKey :: "HMAC_SHA1_CTX \<Rightarrow> u8 list \<Rightarrow> HMAC_SHA1_CTX \<times> u8 list" where
  "HMAC_SHA1_UpdateKey ctx key = (let len = of_nat (length key) :: u32 in
     if len < 1 then (ctx, key)
     else if hashkey ctx \<noteq> 0 \<or> len + keylen ctx > 64 then
       let ctx = (if hashkey ctx = 0 then start_hashing ctx else ctx);
           (c, key) = SHA1_Update (shactx ctx) key
       in (ctx\<lparr>shactx := c\<rparr>, key)
     else (ctx\<lparr>hmac_key := copy_to (hmac_key ctx) (unat (keylen ctx)) key, keylen := keylen ctx + len\<rparr>, key))"

definition HMAC_SHA1_EndKey :: "HMAC_SHA1_CTX \<Rightarrow> HMAC_SHA1_CTX option" where
  "HMAC_SHA1_EndKey ctx = do {
     ctx \<leftarrow> (if hashkey ctx \<noteq> 0 then do {
               (digest, c) \<leftarrow> SHA1_Final (shactx ctx);
               Some (ctx\<lparr>hmac_key := copy_to (replicate 64 0) 0 digest, shactx := c\<rparr>) }
             else Some ctx);
     let n = unat (keylen ctx);
     let ctx = (if n < 64 then ctx\<lparr>hmac_key := copy_to (hmac_key ctx) n (replicate (64 - n) 0)\<rparr> else ctx);
     Some (ctx\<lparr>ipad := copy_to (ipad ctx) 0 (map2 (XOR) (take n (ipad ctx)) (take n (hmac_key ctx))),
                opad := copy_to (opad ctx) 0 (map2 (XOR) (take n (opad ctx)) (take n (hmac_key ctx)))\<rparr>) }"

definition HMAC_SHA1_StartMessage :: "HMAC_SHA1_CTX \<Rightarrow> HMAC_SHA1_CTX" where
  "HMAC_SHA1_StartMessage ctx = (let (c, pad) = SHA1_Update (SHA1_Init (shactx ctx)) (ipad ctx)
     in ctx\<lparr>shactx := c, ipad := pad\<rparr>)"

definition HMAC_SHA1_UpdateMessage :: "HMAC_SHA1_CTX \<Rightarrow> u8 list \<Rightarrow> HMAC_SHA1_CTX \<times> u8 list" where
  "HMAC_SHA1_UpdateMessage ctx data = (let (c, data) = SHA1_Update (shactx ctx) data
     in (ctx\<lparr>shactx := c\<rparr>, data))"

definition HMAC_SHA1_EndMessage :: "HMAC_SHA1_CTX \<Rightarrow> (u8 list \<times> HMAC_SHA1_CTX) option" where
  "HMAC_SHA1_EndMessage ctx = do {
     (buf, c) \<leftarrow> SHA1_Final (shactx ctx);
     let c = SHA1_Init c;
     let (c, pad) = SHA1_Update c (opad ctx);
     let (c, _) = SHA1_Update c buf;
     (out, c) \<leftarrow> SHA1_Final c;
     Some (out, ctx\<lparr>shactx := c, opad := pad\<rparr>) }"

text \<open>The two calls of \<open>memset\<close> both clear \<open>ipad\<close>.\<close>

definition HMAC_SHA1_Done :: "HMAC_SHA1_CTX \<Rightarrow> HMAC_SHA1_CTX" where
  "HMAC_SHA1_Done ctx = ctx\<lparr>ipad := replicate 64 0, hmac_key := replicate 64 0, keylen := 0, hashkey := 0\<rparr>"

text \<open>
  \<open>ctx0\<close> is the uninitialised local context; besides the result, the model returns what is left of
  the context on the stack.
\<close>

definition HMAC_SHA1 :: "HMAC_SHA1_CTX \<Rightarrow> u8 list \<Rightarrow> u8 list \<Rightarrow> (u8 list \<times> HMAC_SHA1_CTX) option" where
  "HMAC_SHA1 ctx0 secret data = do {
     let ctx = HMAC_SHA1_Init ctx0;
     let (ctx, _) = HMAC_SHA1_UpdateKey ctx (take 16 secret);
     ctx \<leftarrow> HMAC_SHA1_EndKey ctx;
     let ctx = HMAC_SHA1_StartMessage ctx;
     let (ctx, _) = HMAC_SHA1_UpdateMessage ctx data;
     (out, ctx) \<leftarrow> HMAC_SHA1_EndMessage ctx;
     Some (take 16 out, HMAC_SHA1_Done ctx) }"

section \<open>The standard\<close>

definition hmac_K0 :: "u8 list \<Rightarrow> u8 list" where
  "hmac_K0 K = (let k = (if length K > 64 then fips_sha1 K else K) in k @ replicate (64 - length k) 0)"

definition hmac_pad :: "u8 \<Rightarrow> u8 list \<Rightarrow> u8 list" where
  "hmac_pad x K = map (\<lambda>b. x XOR b) (hmac_K0 K)"

definition hmac_sha1 :: "u8 list \<Rightarrow> u8 list \<Rightarrow> u8 list" where
  "hmac_sha1 K m = fips_sha1 (hmac_pad 0x5c K @ fips_sha1 (hmac_pad 0x36 K @ m))"

section \<open>The key\<close>

lemma fips_sha1_length [simp]: "length (fips_sha1 m) = 20"
  by (simp add: fips_sha1_def absorb_length sha1_H0_def)

lemma hmac_K0_length [simp]: "length (hmac_K0 K) = 64"
  by (simp add: hmac_K0_def Let_def)

lemma hmac_pad_length [simp]: "length (hmac_pad x K) = 64"
  by (simp add: hmac_pad_def)

definition key_rep :: "HMAC_SHA1_CTX \<Rightarrow> u8 list \<Rightarrow> bool" where
  "key_rep ctx K \<longleftrightarrow> sha_fresh (shactx ctx) \<and> ipad ctx = replicate 64 0x36 \<and> opad ctx = replicate 64 0x5c \<and>
     (if hashkey ctx = 0
      then length K \<le> 64 \<and> keylen ctx = of_nat (length K) \<and> length (hmac_key ctx) = 64 \<and> take (length K) (hmac_key ctx) = K
      else 64 < length K \<and> keylen ctx = 20 \<and> sha_rep (shactx ctx) K)"

lemma Init_key: "sha_fresh (shactx ctx) \<Longrightarrow> key_rep (HMAC_SHA1_Init ctx) []"
  by (simp add: key_rep_def HMAC_SHA1_Init_def)

lemma start_hashing_rep:
  assumes "key_rep ctx K" "hashkey ctx = 0"
  shows "hashkey (start_hashing ctx) = 1 \<and> keylen (start_hashing ctx) = 20 \<and> sha_rep (shactx (start_hashing ctx)) K \<and>
    ipad (start_hashing ctx) = ipad ctx \<and> opad (start_hashing ctx) = opad ctx"
proof -
  have k: "length K \<le> 64" "keylen ctx = of_nat (length K)" "take (length K) (hmac_key ctx) = K"
    using assms by (simp_all add: key_rep_def)
  then have u: "unat (keylen ctx) = length K"
    by (simp add: unat_of_nat_u32)
  have init: "sha_rep (SHA1_Init (shactx ctx)) []"
    using assms(1) by (intro sha1.init_rep) (simp add: key_rep_def)
  show ?thesis
  proof (cases "keylen ctx > 0")
    case True
    have "sha_rep (fst (SHA1_Update (SHA1_Init (shactx ctx)) K)) ([] @ K)"
      using k(1) by (intro sha1.update_rep init) (simp add: sha_fit_def)
    then show ?thesis
      using True k(3) u by (simp add: start_hashing_def Let_def case_prod_beta)
  next
    case False
    then have "K = []"
      using u by (simp add: word_greater_zero_iff)
    then show ?thesis
      using False init by (simp add: start_hashing_def Let_def)
  qed
qed

lemma UpdateKey_rep:
  assumes "key_rep ctx K" "sha_fit key"
  shows "key_rep (fst (HMAC_SHA1_UpdateKey ctx key)) (K @ key)"
proof (cases "key = []")
  case True
  then show ?thesis
    using assms(1) by (simp add: HMAC_SHA1_UpdateKey_def)
next
  case False
  let ?len = "of_nat (length key) :: u32"
  have fit: "length key + 64 < 2 ^ 32"
    using assms(2) by (simp add: sha_fit_def)
  then have u: "unat ?len = length key"
    by (simp add: unat_of_nat_u32)
  then have ne: "\<not> ?len < 1"
    using False by (simp add: word_less_nat_alt)
  show ?thesis
  proof (cases "hashkey ctx = 0")
    case hk: True
    have k: "length K \<le> 64" "keylen ctx = of_nat (length K)" "take (length K) (hmac_key ctx) = K"
        "length (hmac_key ctx) = 64"
      using assms hk by (simp_all add: key_rep_def)
    have uk: "unat (keylen ctx) = length K"
      using k by (simp add: unat_of_nat_u32)
    have sum: "unat (?len + keylen ctx) = length key + length K"
      using u uk fit k(1) by (simp add: unat_word_ariths)
    have over: "?len + keylen ctx > 64 \<longleftrightarrow> 64 < length K + length key"
      unfolding word_less_nat_alt sum by auto
    show ?thesis
    proof (cases "64 < length K + length key")
      case True
      have "sha_rep (fst (SHA1_Update (shactx (start_hashing ctx)) key)) (K @ key)"
        using start_hashing_rep [OF assms(1) hk] assms(2) by (intro sha1.update_rep) simp_all
      then show ?thesis
        using True hk ne over start_hashing_rep [OF assms(1) hk] assms(1) sha1.rep_fresh
        by (simp add: HMAC_SHA1_UpdateKey_def Let_def case_prod_beta key_rep_def)
    next
      case False
      then have "keylen ctx + ?len = of_nat (length (K @ key))"
        using k(2) by simp
      moreover have "take (length (K @ key)) (copy_to (hmac_key ctx) (length K) key) = K @ key"
        using take_copy_to [OF k(3)] by simp
      ultimately show ?thesis
        using False hk ne over uk k assms(1) by (simp add: HMAC_SHA1_UpdateKey_def Let_def key_rep_def)
    qed
  next
    case hk: False
    have "sha_rep (fst (SHA1_Update (shactx ctx) key)) (K @ key)"
      using assms hk by (intro sha1.update_rep) (simp_all add: key_rep_def)
    then show ?thesis
      using hk ne assms(1) sha1.rep_fresh by (simp add: HMAC_SHA1_UpdateKey_def Let_def case_prod_beta key_rep_def)
  qed
qed

lemma pad_xor:
  assumes "length k = 64" "n \<le> 64" "\<forall>i<64. n \<le> i \<longrightarrow> k ! i = 0"
  shows "copy_to (replicate 64 x) 0 (map2 (XOR) (take n (replicate 64 x)) (take n k)) = map ((XOR) (x :: u8)) k"
  using assms by (auto simp: list_eq_iff_nth_eq copy_to_def nth_append)

text \<open>The second half of \<open>HMAC_SHA1_EndKey\<close>: padding the key and folding it into the pads.\<close>

definition fold_key :: "HMAC_SHA1_CTX \<Rightarrow> HMAC_SHA1_CTX" where
  "fold_key ctx = (let n = unat (keylen ctx);
     ctx = (if n < 64 then ctx\<lparr>hmac_key := copy_to (hmac_key ctx) n (replicate (64 - n) 0)\<rparr> else ctx)
   in ctx\<lparr>ipad := copy_to (ipad ctx) 0 (map2 (XOR) (take n (ipad ctx)) (take n (hmac_key ctx))),
          opad := copy_to (opad ctx) 0 (map2 (XOR) (take n (opad ctx)) (take n (hmac_key ctx)))\<rparr>)"

lemma fold_key_pads:
  assumes "ipad ctx = replicate 64 a" "opad ctx = replicate 64 b" "unat (keylen ctx) = length k"
    and "length k \<le> 64" "length (hmac_key ctx) = 64" "take (length k) (hmac_key ctx) = k"
  shows "ipad (fold_key ctx) = map ((XOR) a) (k @ replicate (64 - length k) 0) \<and>
    opad (fold_key ctx) = map ((XOR) b) (k @ replicate (64 - length k) 0) \<and> shactx (fold_key ctx) = shactx ctx"
proof -
  define key where "key = (if length k < 64 then copy_to (hmac_key ctx) (length k) (replicate (64 - length k) 0)
    else hmac_key ctx)"
  have key: "key = k @ replicate (64 - length k) 0"
    using assms by (auto simp: key_def copy_to_def)
  then have "copy_to (replicate 64 x) 0 (map2 (XOR) (take (length k) (replicate 64 x)) (take (length k) key)) =
      map ((XOR) x) key" for x
    using assms(4) by (intro pad_xor) (auto simp: nth_append)
  note pads = this
  have "fold_key ctx = ctx\<lparr>hmac_key := key,
      ipad := copy_to (replicate 64 a) 0 (map2 (XOR) (take (length k) (replicate 64 a)) (take (length k) key)),
      opad := copy_to (replicate 64 b) 0 (map2 (XOR) (take (length k) (replicate 64 b)) (take (length k) key))\<rparr>"
    using assms(1-3) by (simp add: fold_key_def Let_def key_def)
  then have "fold_key ctx = ctx\<lparr>hmac_key := key, ipad := map ((XOR) a) key, opad := map ((XOR) b) key\<rparr>"
    by (simp only: pads)
  then show ?thesis
    by (simp add: key)
qed

lemma EndKey_rep:
  assumes "key_rep ctx K"
  shows "returns (HMAC_SHA1_EndKey ctx) (\<lambda>ctx'. ipad ctx' = hmac_pad 0x36 K \<and> opad ctx' = hmac_pad 0x5c K \<and>
     sha_fresh (shactx ctx'))"
proof (cases "hashkey ctx = 0")
  case True
  then have k: "length K \<le> 64" "unat (keylen ctx) = length K" "take (length K) (hmac_key ctx) = K"
      "length (hmac_key ctx) = 64"
    using assms by (simp_all add: key_rep_def unat_of_nat_u32)
  have "HMAC_SHA1_EndKey ctx = Some (fold_key ctx)"
    using True by (simp add: HMAC_SHA1_EndKey_def fold_key_def Let_def)
  then show ?thesis
    using assms k fold_key_pads [of ctx "0x36" "0x5c" K]
    by (simp add: key_rep_def hmac_pad_def hmac_K0_def)
next
  case False
  then have k: "64 < length K" "keylen ctx = 20" "sha_rep (shactx ctx) K"
    using assms by (simp_all add: key_rep_def)
  obtain c where c: "SHA1_Final (shactx ctx) = Some (fips_sha1 K, c)" "sha_fresh c"
    by (rule returnsE [OF sha1.final_rep [OF k(3)]]) auto
  let ?ctx = "ctx\<lparr>hmac_key := copy_to (replicate 64 0) 0 (fips_sha1 K), shactx := c\<rparr>"
  have "HMAC_SHA1_EndKey ctx = Some (fold_key ?ctx)"
    using False c by (simp add: HMAC_SHA1_EndKey_def fold_key_def Let_def)
  then show ?thesis
    using assms k c(2) fold_key_pads [of ?ctx "0x36" "0x5c" "fips_sha1 K"]
    by (simp add: key_rep_def hmac_pad_def hmac_K0_def copy_to_def)
qed

section \<open>The message\<close>

lemma StartMessage_rep:
  assumes "sha_fresh (shactx ctx)" "length (ipad ctx) = 64"
  shows "sha_rep (shactx (HMAC_SHA1_StartMessage ctx)) (ipad ctx)" "opad (HMAC_SHA1_StartMessage ctx) = opad ctx"
  using sha1.update_rep [OF sha1.init_rep [OF assms(1)], of "ipad ctx"] assms(2)
  by (simp_all add: HMAC_SHA1_StartMessage_def case_prod_beta sha_fit_def)

lemma UpdateMessage_rep:
  assumes "sha_rep (shactx ctx) m" "sha_fit d"
  shows "sha_rep (shactx (fst (HMAC_SHA1_UpdateMessage ctx d))) (m @ d)"
    "opad (fst (HMAC_SHA1_UpdateMessage ctx d)) = opad ctx"
  using sha1.update_rep [OF assms] by (simp_all add: HMAC_SHA1_UpdateMessage_def case_prod_beta Let_def)

lemma update_keeps: "sha_rep c [] \<Longrightarrow> length data \<le> 64 \<Longrightarrow> snd (SHA1_Update c data) = data"
  by (simp add: SHA1_Update_def Let_def case_prod_beta sha_rep_def sha1_blocks.simps)

lemma EndMessage_rep:
  assumes "sha_rep (shactx ctx) m" "length (opad ctx) = 64"
  shows "returns (HMAC_SHA1_EndMessage ctx) (\<lambda>(out, ctx'). out = fips_sha1 (opad ctx @ fips_sha1 m) \<and> opad ctx' = opad ctx)"
proof -
  obtain c where c: "SHA1_Final (shactx ctx) = Some (fips_sha1 m, c)" "sha_fresh c"
    by (rule returnsE [OF sha1.final_rep [OF assms(1)]]) auto
  have "sha_rep (fst (SHA1_Update (SHA1_Init c) (opad ctx))) ([] @ opad ctx)"
    using assms(2) by (intro sha1.update_rep sha1.init_rep c(2)) (simp add: sha_fit_def)
  then have "sha_rep (fst (SHA1_Update (fst (SHA1_Update (SHA1_Init c) (opad ctx))) (fips_sha1 m)))
      (opad ctx @ fips_sha1 m)"
    by (intro sha1.update_rep) (simp_all add: sha_fit_def)
  note sha1.final_rep [OF this]
  moreover have "snd (SHA1_Update (SHA1_Init c) (opad ctx)) = opad ctx"
    using assms(2) by (intro update_keeps sha1.init_rep c(2)) simp
  ultimately show ?thesis
    by (simp add: HMAC_SHA1_EndMessage_def c(1) case_prod_beta Let_def) (auto elim!: returns_mono)
qed

lemma message_rep:
  assumes "sha_rep (shactx ctx) m" "\<forall>d \<in> set ds. sha_fit d"
  defines "ctx' \<equiv> fold (\<lambda>d ctx. fst (HMAC_SHA1_UpdateMessage ctx d)) ds ctx"
  shows "sha_rep (shactx ctx') (m @ concat ds) \<and> opad ctx' = opad ctx"
  using assms(1,2) unfolding ctx'_def
proof (induction ds arbitrary: ctx m)
  case (Cons d ds)
  have "sha_rep (shactx (fst (HMAC_SHA1_UpdateMessage ctx d))) (m @ d)"
    using Cons.prems by (intro UpdateMessage_rep(1)) auto
  then show ?case
    using Cons.IH [of "fst (HMAC_SHA1_UpdateMessage ctx d)" "m @ d"] Cons.prems
      UpdateMessage_rep(2) [of ctx m d] by simp
qed simp

lemma keys_rep:
  assumes "key_rep ctx K" "\<forall>k \<in> set ks. sha_fit k"
  shows "key_rep (fold (\<lambda>k ctx. fst (HMAC_SHA1_UpdateKey ctx k)) ks ctx) (K @ concat ks)"
  using assms
proof (induction ks arbitrary: ctx K)
  case (Cons k ks)
  then show ?case
    using Cons.IH [of "fst (HMAC_SHA1_UpdateKey ctx k)" "K @ k"] UpdateKey_rep [of ctx K k] by simp
qed simp

text \<open>After the key, the message in pieces.\<close>

lemma message_mac:
  assumes "ipad ctx = hmac_pad 0x36 K" "opad ctx = hmac_pad 0x5c K" "sha_fresh (shactx ctx)"
    and "\<forall>d \<in> set ds. sha_fit d"
  shows "returns (HMAC_SHA1_EndMessage (fold (\<lambda>d ctx. fst (HMAC_SHA1_UpdateMessage ctx d)) ds
      (HMAC_SHA1_StartMessage ctx)))
     (\<lambda>(out, ctx'). out = hmac_sha1 K (concat ds) \<and> opad ctx' = hmac_pad 0x5c K)"
proof -
  let ?c = "fold (\<lambda>d ctx. fst (HMAC_SHA1_UpdateMessage ctx d)) ds (HMAC_SHA1_StartMessage ctx)"
  have s: "sha_rep (shactx (HMAC_SHA1_StartMessage ctx)) (hmac_pad 0x36 K)"
    using StartMessage_rep(1) [OF assms(3)] assms(1) by simp
  have "sha_rep (shactx ?c) (hmac_pad 0x36 K @ concat ds)" "opad ?c = hmac_pad 0x5c K"
    using message_rep [OF s assms(4)] StartMessage_rep(2) [OF assms(3)] assms(1,2) by simp_all
  then show ?thesis
    using EndMessage_rep [of ?c "hmac_pad 0x36 K @ concat ds"] by (simp add: hmac_sha1_def)
qed

section \<open>Properties\<close>

text \<open>
  C17: HMAC-SHA1 in pieces computes the standard: however the key and the message are cut, and
  whether or not the key is longer than a block, the result is
  \<open>H (K0 XOR opad || H (K0 XOR ipad || message))\<close>.
\<close>

theorem hmac_computes_standard:
  assumes "length (sha_buffer (shactx ctx)) = 64"
    and "\<forall>k \<in> set keys. length k + 64 < 2 ^ 32" "\<forall>d \<in> set pieces. length d + 64 < 2 ^ 32"
  shows "returns (do {
       ctx \<leftarrow> HMAC_SHA1_EndKey (fold (\<lambda>k ctx. fst (HMAC_SHA1_UpdateKey ctx k)) keys (HMAC_SHA1_Init ctx));
       HMAC_SHA1_EndMessage (fold (\<lambda>d ctx. fst (HMAC_SHA1_UpdateMessage ctx d)) pieces (HMAC_SHA1_StartMessage ctx)) })
     (\<lambda>(out, ctx'). out = hmac_sha1 (concat keys) (concat pieces))"
proof -
  have "key_rep (HMAC_SHA1_Init ctx) []"
    using assms(1) by (intro Init_key) (simp add: sha_fresh_def)
  then have "key_rep (fold (\<lambda>k ctx. fst (HMAC_SHA1_UpdateKey ctx k)) keys (HMAC_SHA1_Init ctx)) ([] @ concat keys)"
    using assms(2) by (intro keys_rep) (simp_all add: sha_fit_def)
  then have k: "returns (HMAC_SHA1_EndKey (fold (\<lambda>k ctx. fst (HMAC_SHA1_UpdateKey ctx k)) keys (HMAC_SHA1_Init ctx)))
     (\<lambda>ctx'. ipad ctx' = hmac_pad 0x36 (concat keys) \<and> opad ctx' = hmac_pad 0x5c (concat keys) \<and>
        sha_fresh (shactx ctx'))"
    using EndKey_rep by simp
  have "\<forall>d \<in> set pieces. sha_fit d"
    using assms(3) by (simp add: sha_fit_def)
  note m = message_mac [OF _ _ _ this]
  show ?thesis
    unfolding returns_bind by (rule returns_mono [OF k]) (elim conjE, rule returns_mono [OF m], auto)
qed

definition hmac_zero :: HMAC_SHA1_CTX where
  "hmac_zero = \<lparr>ipad = replicate 64 0, opad = replicate 64 0, shactx = sha_zero,
     hmac_key = replicate 64 0, keylen = 0, hashkey = 0\<rparr>"

lemma hmac_zero_buffer: "length (sha_buffer (shactx hmac_zero)) = 64"
  by (simp add: hmac_zero_def sha_zero_def)

theorem hmac_computes_standard_witness:
  "returns (do {
       ctx \<leftarrow> HMAC_SHA1_EndKey (fold (\<lambda>k ctx. fst (HMAC_SHA1_UpdateKey ctx k)) [replicate 60 7, [1, 2, 3, 4, 5]]
                (HMAC_SHA1_Init hmac_zero));
       HMAC_SHA1_EndMessage (fold (\<lambda>d ctx. fst (HMAC_SHA1_UpdateMessage ctx d)) [[72, 105]] (HMAC_SHA1_StartMessage ctx)) })
     (\<lambda>(out, ctx'). out = hmac_sha1 (concat [replicate 60 7, [1, 2, 3, 4, 5]]) (concat [[72, 105]]))"
  by (rule hmac_computes_standard [OF hmac_zero_buffer]) simp_all

text \<open>
  C33: \<open>HMAC_SHA1\<close> returns the first sixteen bytes of the HMAC-SHA1 of the message under the first
  sixteen bytes of the secret.  The context it leaves behind after \<open>HMAC_SHA1_Done\<close> still holds the
  key in its outer pad.
\<close>

theorem hmac_call:
  assumes "length (sha_buffer (shactx ctx)) = 64" "length data + 64 < 2 ^ 32"
  shows "returns (HMAC_SHA1 ctx secret data) (\<lambda>(res, ctx').
     res = take 16 (hmac_sha1 (take 16 secret) data) \<and>
     ipad ctx' = replicate 64 0 \<and> opad ctx' = hmac_pad 0x5c (take 16 secret))"
proof -
  have "key_rep (HMAC_SHA1_Init ctx) []"
    using assms(1) by (intro Init_key) (simp add: sha_fresh_def)
  then have "key_rep (fst (HMAC_SHA1_UpdateKey (HMAC_SHA1_Init ctx) (take 16 secret))) ([] @ take 16 secret)"
    by (rule UpdateKey_rep) (simp add: sha_fit_def)
  then have k: "returns (HMAC_SHA1_EndKey (fst (HMAC_SHA1_UpdateKey (HMAC_SHA1_Init ctx) (take 16 secret))))
     (\<lambda>ctx'. ipad ctx' = hmac_pad 0x36 (take 16 secret) \<and> opad ctx' = hmac_pad 0x5c (take 16 secret) \<and>
        sha_fresh (shactx ctx'))"
    using EndKey_rep by simp
  have "\<forall>d \<in> set [data]. sha_fit d"
    using assms(2) by (simp add: sha_fit_def)
  note m = message_mac [OF _ _ _ this, where K = "take 16 secret"]
  show ?thesis
    unfolding HMAC_SHA1_def Let_def case_prod_beta returns_bind
  proof (rule returns_mono [OF k], elim conjE)
    fix c :: HMAC_SHA1_CTX
    assume c: "ipad c = hmac_pad 0x36 (take 16 secret)" "opad c = hmac_pad 0x5c (take 16 secret)"
      "sha_fresh (shactx c)"
    show "returns (HMAC_SHA1_EndMessage (fst (HMAC_SHA1_UpdateMessage (HMAC_SHA1_StartMessage c) data)))
        (\<lambda>p. returns (Some (take 16 (fst p), HMAC_SHA1_Done (snd p)))
          (\<lambda>p. fst p = take 16 (hmac_sha1 (take 16 secret) data) \<and> ipad (snd p) = replicate 64 0 \<and>
             opad (snd p) = hmac_pad 0x5c (take 16 secret)))"
      using m [OF c] by (auto simp: HMAC_SHA1_Done_def elim!: returns_mono)
  qed
qed

theorem hmac_call_witness:
  "returns (HMAC_SHA1 hmac_zero (replicate 16 11) [72, 105]) (\<lambda>(res, ctx').
     res = take 16 (hmac_sha1 (replicate 16 11) [72, 105]) \<and> opad ctx' = hmac_pad 0x5c (replicate 16 11))"
proof -
  have "length [72, 105 :: u8] + 64 < 2 ^ 32"
    by simp
  note call = hmac_call [OF hmac_zero_buffer this, where secret = "replicate 16 11"]
  show ?thesis
    by (rule returns_mono [OF call]) auto
qed

end
