(* ===== verification/Nand.thy ===== *)
theory Nand
  imports Xenon_Prelude
begin

text \<open>
  The NAND flash driver, \<^verbatim>\<open>xenon_nand/xenon_sfcx.c\<close>: flash geometry, the spare-area fields of a page
  (block number, version, validity), the error correction code, and the register protocol of the
  controller.

  The controller is hardware.  It is a parameter of the model: \<open>mmio_read\<close> and \<open>mmio_write\<close> of a
  \<open>bus\<close> act on its state \<open>'h\<close>.  Waiting for the controller is a loop on the status register
  (\<open>None\<close> if it stays busy for ever).
\<close>

unbundle bit_operations_syntax

section \<open>Constants and geometry\<close>

definition SFCX_CONFIG :: u32 where "SFCX_CONFIG = 0x00"
definition SFCX_STATUS :: u32 where "SFCX_STATUS = 0x04"
definition SFCX_COMMAND :: u32 where "SFCX_COMMAND = 0x08"
definition SFCX_ADDRESS :: u32 where "SFCX_ADDRESS = 0x0C"
definition SFCX_DATA :: u32 where "SFCX_DATA = 0x10"
definition SFCX_PHISON :: u32 where "SFCX_PHISON = 0xFC"

definition PAGE_BUF_TO_REG :: u32 where "PAGE_BUF_TO_REG = 0x00"
definition REG_TO_PAGE_BUF :: u32 where "REG_TO_PAGE_BUF = 0x01"
definition LOG_PAGE_TO_BUF :: u32 where "LOG_PAGE_TO_BUF = 0x02"
definition PHY_PAGE_TO_BUF :: u32 where "PHY_PAGE_TO_BUF = 0x03"
definition WRITE_PAGE_TO_PHY :: u32 where "WRITE_PAGE_TO_PHY = 0x04"
definition BLOCK_ERASE :: u32 where "BLOCK_ERASE = 0x05"
definition UNLOCK_CMD_0 :: u32 where "UNLOCK_CMD_0 = 0x55"
definition UNLOCK_CMD_1 :: u32 where "UNLOCK_CMD_1 = 0xAA"

definition CONFIG_DMA_LEN :: u32 where "CONFIG_DMA_LEN = 0x3C0"
definition CONFIG_WP_EN :: u32 where "CONFIG_WP_EN = 0x8"
definition CONFIG_INT_EN :: u32 where "CONFIG_INT_EN = 0x4"

definition STATUS_BB_ER :: u32 where "STATUS_BB_ER = 0x40"
definition STATUS_ECC_ER :: u32 where "STATUS_ECC_ER = 0x1C"
definition STATUS_BUSY :: u32 where "STATUS_BUSY = 0x1"

definition CONFIG_BLOCKS :: nat where "CONFIG_BLOCKS = 4"
definition MAX_PAGE_SZ :: nat where "MAX_PAGE_SZ = 0x210"
definition MAX_BLOCK_SZ :: nat where "MAX_BLOCK_SZ = 0x42000"
definition RAW_NAND_64 :: nat where "RAW_NAND_64 = 0x4200000"

datatype meta_type = META_TYPE_0 | META_TYPE_1 | META_TYPE_2

record sfc =
  initialized :: bool
  meta_type :: meta_type
  page_sz :: nat
  meta_sz :: nat
  page_sz_phys :: nat
  pages_in_block :: nat
  block_sz :: nat
  block_sz_phys :: nat
  size_mb :: nat
  size_bytes :: nat
  size_bytes_phys :: nat
  size_pages :: nat
  size_blocks :: nat
  blocks_per_lg_block :: nat
  size_usable_fs :: nat
  addr_config :: nat
  len_config :: nat

definition sfcx_block_to_address :: "sfc \<Rightarrow> nat \<Rightarrow> nat" where
  "sfcx_block_to_address g block = block * block_sz g"

definition sfcx_address_to_block :: "sfc \<Rightarrow> nat \<Rightarrow> nat" where
  "sfcx_address_to_block g address = address div block_sz g"

definition sfcx_block_to_rawaddress :: "sfc \<Rightarrow> nat \<Rightarrow> nat" where
  "sfcx_block_to_rawaddress g block = block * block_sz_phys g"

definition sfcx_rawaddress_to_block :: "sfc \<Rightarrow> nat \<Rightarrow> nat" where
  "sfcx_rawaddress_to_block g address = address div block_sz_phys g"

section \<open>The spare area of a page\<close>

definition sfcx_get_blocknumber :: "sfc \<Rightarrow> u8 list \<Rightarrow> u32" where
  "sfcx_get_blocknumber g data = (let p = page_sz g in case meta_type g of
     META_TYPE_0 \<Rightarrow> push_bit 8 (ucast (data ! (p + 0x1))) OR ucast (data ! (p + 0x0))
   | META_TYPE_1 \<Rightarrow> push_bit 8 (ucast (data ! (p + 0x2))) OR ucast (data ! (p + 0x1))
   | META_TYPE_2 \<Rightarrow> push_bit 8 (ucast (data ! (p + 0x2))) OR ucast (data ! (p + 0x1)))"

definition sfcx_set_blocknumber :: "sfc \<Rightarrow> u8 list \<Rightarrow> u32 \<Rightarrow> u8 list" where
  "sfcx_set_blocknumber g data num = (let p = page_sz g in case meta_type g of
     META_TYPE_0 \<Rightarrow> data[p + 0x1 := ucast (drop_bit 8 num AND 0xFF), p + 0x0 := ucast (num AND 0xFF)]
   | META_TYPE_1 \<Rightarrow> data[p + 0x2 := ucast (drop_bit 8 num AND 0xFF), p + 0x1 := ucast (num AND 0xFF)]
   | META_TYPE_2 \<Rightarrow> data[p + 0x2 := ucast (drop_bit 8 num AND 0xFF), p + 0x1 := ucast (num AND 0xFF)])"

definition sfcx_get_blockversion :: "sfc \<Rightarrow> u8 list \<Rightarrow> u32" where
  "sfcx_get_blockversion g data = (let p = page_sz g in case meta_type g of
     META_TYPE_0 \<Rightarrow> push_bit 24 (ucast (data ! (p + 0x6))) OR push_bit 16 (ucast (data ! (p + 0x4))) OR
       push_bit 8 (ucast (data ! (p + 0x3))) OR ucast (data ! (p + 0x2))
   | META_TYPE_1 \<Rightarrow> push_bit 24 (ucast (data ! (p + 0x6))) OR push_bit 16 (ucast (data ! (p + 0x4))) OR
       push_bit 8 (ucast (data ! (p + 0x3))) OR ucast (data ! (p + 0x0))
   | META_TYPE_2 \<Rightarrow> push_bit 24 (ucast (data ! (p + 0x6))) OR push_bit 16 (ucast (data ! (p + 0x4))) OR
       push_bit 8 (ucast (data ! (p + 0x3))) OR ucast (data ! (p + 0x5)))"

definition sfcx_set_blockversion :: "sfc \<Rightarrow> u8 list \<Rightarrow> u32 \<Rightarrow> u8 list" where
  "sfcx_set_blockversion g data ver = (let p = page_sz g;
     d = data[p + (case meta_type g of META_TYPE_0 \<Rightarrow> 0x2 | META_TYPE_1 \<Rightarrow> 0x0 | META_TYPE_2 \<Rightarrow> 0x5)
              := ucast (ver AND 0xFF)]
   in d[p + 0x3 := ucast (drop_bit 8 ver AND 0xFF), p + 0x4 := ucast (drop_bit 16 ver AND 0xFF),
        p + 0x6 := ucast (drop_bit 24 ver AND 0xFF)])"

definition valid_offset :: "sfc \<Rightarrow> nat" where
  "valid_offset g = (case meta_type g of META_TYPE_0 \<Rightarrow> 0x5 | META_TYPE_1 \<Rightarrow> 0x5 | META_TYPE_2 \<Rightarrow> 0x0)"

definition sfcx_set_pagevalid :: "sfc \<Rightarrow> u8 list \<Rightarrow> u8 list" where
  "sfcx_set_pagevalid g data = data[page_sz g + valid_offset g := 0xFF]"

definition sfcx_set_pageinvalid :: "sfc \<Rightarrow> u8 list \<Rightarrow> u8 list" where
  "sfcx_set_pageinvalid g data = data[page_sz g + valid_offset g := 0x00]"

definition sfcx_is_pagevalid :: "sfc \<Rightarrow> u8 list \<Rightarrow> bool" where
  "sfcx_is_pagevalid g data \<longleftrightarrow> data ! (page_sz g + valid_offset g) = 0xFF"

fun all_bytes :: "u8 \<Rightarrow> nat list \<Rightarrow> u8 list \<Rightarrow> bool" where
  "all_bytes x [] data = True"
| "all_bytes x (i # is) data = (if data ! i \<noteq> x then False else all_bytes x is data)"

definition sfcx_is_pagezeroed :: "sfc \<Rightarrow> u8 list \<Rightarrow> bool" where
  "sfcx_is_pagezeroed g data = all_bytes 0x00 [0..<page_sz g] data"

definition sfcx_is_pageerased :: "sfc \<Rightarrow> u8 list \<Rightarrow> bool" where
  "sfcx_is_pageerased g data = all_bytes 0xFF [0..<page_sz_phys g] data"

section \<open>Error correction code\<close>

text \<open>A word of the page as \<open>__builtin_bswap32(*data++)\<close> reads it.\<close>

definition le_word :: "u8 list \<Rightarrow> nat \<Rightarrow> u32" where
  "le_word data i = push_bit 24 (ucast (data ! (i + 3))) OR push_bit 16 (ucast (data ! (i + 2))) OR
     push_bit 8 (ucast (data ! (i + 1))) OR ucast (data ! i)"

definition ecc_step :: "u8 list \<Rightarrow> nat \<Rightarrow> u32 \<times> u32 \<Rightarrow> u32 \<times> u32" where
  "ecc_step data i = (\<lambda>(val, v). let
     v = (if i mod 32 = 0 then NOT (le_word data (4 * (i div 32))) else v);
     val = val XOR (v AND 1);
     v = drop_bit 1 v;
     val = (if val AND 1 \<noteq> 0 then val XOR 0x6954559 else val);
     val = drop_bit 1 val
   in (val, v))"

definition ecc_value :: "u8 list \<Rightarrow> u32" where
  "ecc_value data = NOT (fst (fold (ecc_step data) [0..<0x1066] (0, 0)))"

definition sfcx_calcecc :: "sfc \<Rightarrow> u8 list \<Rightarrow> u8 list" where
  "sfcx_calcecc g data = (let val = ecc_value data; p = page_sz g in
     data[p + 0xC := ucast ((push_bit 6 val OR ucast (data ! (p + 0xC)) AND 0x3F) AND 0xFF),
          p + 0xD := ucast (drop_bit 2 val AND 0xFF),
          p + 0xE := ucast (drop_bit 10 val AND 0xFF),
          p + 0xF := ucast (drop_bit 18 val AND 0xFF)])"

end
