(* ===== verification/Nand_Io.thy ===== *)
theory Nand_Io
  imports Nand
begin

text \<open>
  The register protocol of the flash controller: reading, programming and erasing pages and
  blocks, flashing an image file, and the start-up routine that derives the geometry from the
  configuration register.

  \<^item> \<open>bus\<close>: the memory-mapped registers, as functions on the state \<open>'h\<close> of the hardware.
  \<^item> \<open>file_ops\<close>: \<open>open\<close>, \<open>fstat\<close> and \<open>read\<close> of the C library on the state \<open>'f\<close> of the file, and
    \<open>malloc\<close> as the initial content of the new buffer (\<open>None\<close> when there is no memory).

  Messages to the console and delays have no effect on the state that is modelled.
\<close>

unbundle bit_operations_syntax

section \<open>Registers\<close>

record 'h bus =
  mmio_read :: "u32 \<Rightarrow> 'h \<Rightarrow> u32 \<times> 'h"
  mmio_write :: "u32 \<Rightarrow> u32 \<Rightarrow> 'h \<Rightarrow> 'h"

definition bswap32 :: "u32 \<Rightarrow> u32" where
  "bswap32 x = push_bit 24 (x AND 0xFF) OR push_bit 8 (x AND 0xFF00) OR
     drop_bit 8 (x AND 0xFF0000) OR drop_bit 24 x"

definition sfcx_writereg :: "'h bus \<Rightarrow> u32 \<Rightarrow> u32 \<Rightarrow> 'h \<Rightarrow> 'h" where
  "sfcx_writereg b addr data h = mmio_write b (0xea00c000 OR addr) (bswap32 data) h"

definition sfcx_readreg :: "'h bus \<Rightarrow> u32 \<Rightarrow> 'h \<Rightarrow> u32 \<times> 'h" where
  "sfcx_readreg b addr h = (case mmio_read b (0xea00c000 OR addr) h of (x, h') \<Rightarrow> (bswap32 x, h'))"

text \<open>\<open>while ((status = sfcx_readreg(SFCX_STATUS)) & STATUS_BUSY);\<close>\<close>

partial_function (option) wait_busy :: "'h bus \<Rightarrow> 'h \<Rightarrow> (u32 \<times> 'h) option" where
  [code]: "wait_busy b h = (case sfcx_readreg b SFCX_STATUS h of (status, h') \<Rightarrow>
     if status AND STATUS_BUSY \<noteq> 0 then wait_busy b h' else Some (status, h'))"

text \<open>A big-endian word access to the byte buffer.\<close>

definition load_int :: "u8 list \<Rightarrow> nat \<Rightarrow> u32" where
  "load_int data i = push_bit 24 (ucast (data ! i)) OR push_bit 16 (ucast (data ! (i + 1))) OR
     push_bit 8 (ucast (data ! (i + 2))) OR ucast (data ! (i + 3))"

definition store_int :: "u8 list \<Rightarrow> nat \<Rightarrow> u32 \<Rightarrow> u8 list" where
  "store_int data i x = data[i := ucast (drop_bit 24 x), i + 1 := ucast (drop_bit 16 x),
     i + 2 := ucast (drop_bit 8 x), i + 3 := ucast x]"

section \<open>Pages\<close>

text \<open>The data loops; \<open>n\<close> words remain, the next one is at byte \<open>i\<close>.\<close>

primrec read_words :: "'h bus \<Rightarrow> nat \<Rightarrow> nat \<Rightarrow> u8 list \<Rightarrow> 'h \<Rightarrow> u8 list \<times> 'h" where
  "read_words b 0 i data h = (data, h)"
| "read_words b (Suc n) i data h = (let h = sfcx_writereg b SFCX_COMMAND PAGE_BUF_TO_REG h in
     case sfcx_readreg b SFCX_DATA h of (x, h) \<Rightarrow>
     read_words b n (i + 4) (store_int data i (bswap32 x)) h)"

primrec write_words :: "'h bus \<Rightarrow> nat \<Rightarrow> nat \<Rightarrow> u8 list \<Rightarrow> 'h \<Rightarrow> 'h" where
  "write_words b 0 i data h = h"
| "write_words b (Suc n) i data h = (let
     h = sfcx_writereg b SFCX_DATA (bswap32 (load_int data i)) h;
     h = sfcx_writereg b SFCX_COMMAND REG_TO_PAGE_BUF h
   in write_words b n (i + 4) data h)"

text \<open>Number of iterations of \<open>for (i = 0; i < sz; i += 4)\<close>.\<close>

definition word_count :: "nat \<Rightarrow> nat" where
  "word_count sz = (sz + 3) div 4"

definition sfcx_read_page :: "'h bus \<Rightarrow> sfc \<Rightarrow> u8 list \<Rightarrow> nat \<Rightarrow> bool \<Rightarrow> 'h \<Rightarrow> (u32 \<times> u8 list \<times> 'h) option" where
  "sfcx_read_page b g data address raw h = do {
     let (s, h) = sfcx_readreg b SFCX_STATUS h;
     let h = sfcx_writereg b SFCX_STATUS s h;
     let h = sfcx_writereg b SFCX_ADDRESS (of_nat address) h;
     let h = sfcx_writereg b SFCX_COMMAND (if raw then PHY_PAGE_TO_BUF else LOG_PAGE_TO_BUF) h;
     (status, h) \<leftarrow> wait_busy b h;
     let h = sfcx_writereg b SFCX_ADDRESS 0 h;
     let (data, h) = read_words b (word_count (if raw then page_sz_phys g else page_sz g)) 0 data h;
     Some (status, data, h) }"

definition sfcx_write_page :: "'h bus \<Rightarrow> sfc \<Rightarrow> u8 list \<Rightarrow> nat \<Rightarrow> 'h \<Rightarrow> (u32 \<times> 'h) option" where
  "sfcx_write_page b g data address h = do {
     let h = sfcx_writereg b SFCX_STATUS 0xFF h;
     let (c, h) = sfcx_readreg b SFCX_CONFIG h;
     let h = sfcx_writereg b SFCX_CONFIG (c OR CONFIG_WP_EN) h;
     let h = sfcx_writereg b SFCX_ADDRESS 0 h;
     let h = write_words b (word_count (page_sz_phys g)) 0 data h;
     let h = sfcx_writereg b SFCX_ADDRESS (of_nat address) h;
     let h = sfcx_writereg b SFCX_COMMAND UNLOCK_CMD_0 h;
     let h = sfcx_writereg b SFCX_COMMAND UNLOCK_CMD_1 h;
     (_, h) \<leftarrow> wait_busy b h;
     let h = sfcx_writereg b SFCX_COMMAND WRITE_PAGE_TO_PHY h;
     (_, h) \<leftarrow> wait_busy b h;
     let (status, h) = sfcx_readreg b SFCX_STATUS h;
     let (c, h) = sfcx_readreg b SFCX_CONFIG h;
     let h = sfcx_writereg b SFCX_CONFIG (c AND NOT CONFIG_WP_EN) h;
     Some (status, h) }"

section \<open>Blocks\<close>

text \<open>
  The page loops; \<open>n\<close> pages remain, the next one is page \<open>p\<close>.  The page routine works at an offset
  of the block buffer.
\<close>

primrec read_pages :: "'h bus \<Rightarrow> sfc \<Rightarrow> nat \<Rightarrow> nat \<Rightarrow> nat \<Rightarrow> bool \<Rightarrow> u32 \<Rightarrow> u8 list \<Rightarrow> 'h \<Rightarrow> (u32 \<times> u8 list \<times> 'h) option" where
  "read_pages b g 0 p address raw status data h = Some (status, data, h)"
| "read_pages b g (Suc n) p address raw status data h = (let
     off = p * (if raw then page_sz_phys g else page_sz g) in do {
     (s, page, h) \<leftarrow> sfcx_read_page b g (drop off data) (address + p * page_sz g) raw h;
     read_pages b g n (p + 1) address raw (status OR s) (take off data @ page) h })"

definition sfcx_read_block :: "'h bus \<Rightarrow> sfc \<Rightarrow> u8 list \<Rightarrow> nat \<Rightarrow> bool \<Rightarrow> 'h \<Rightarrow> (u32 \<times> u8 list \<times> 'h) option" where
  "sfcx_read_block b g data address raw h = read_pages b g (pages_in_block g) 0 address raw 0 data h"

primrec write_pages :: "'h bus \<Rightarrow> sfc \<Rightarrow> nat \<Rightarrow> nat \<Rightarrow> nat \<Rightarrow> u32 \<Rightarrow> u8 list \<Rightarrow> 'h \<Rightarrow> (u32 \<times> 'h) option" where
  "write_pages b g 0 p address status data h = Some (status, h)"
| "write_pages b g (Suc n) p address status data h = do {
     (s, h) \<leftarrow> sfcx_write_page b g (drop (p * page_sz_phys g) data) (address + p * page_sz g) h;
     write_pages b g n (p + 1) address (status OR s) data h }"

definition sfcx_write_block :: "'h bus \<Rightarrow> sfc \<Rightarrow> u8 list \<Rightarrow> nat \<Rightarrow> 'h \<Rightarrow> (u32 \<times> 'h) option" where
  "sfcx_write_block b g data address h = write_pages b g (pages_in_block g) 0 address 0 data h"

definition sfcx_erase_block :: "'h bus \<Rightarrow> nat \<Rightarrow> 'h \<Rightarrow> (u32 \<times> 'h) option" where
  "sfcx_erase_block b address h = do {
     let (c, h) = sfcx_readreg b SFCX_CONFIG h;
     let h = sfcx_writereg b SFCX_CONFIG (c OR CONFIG_WP_EN) h;
     let h = sfcx_writereg b SFCX_STATUS 0xFF h;
     let h = sfcx_writereg b SFCX_ADDRESS (of_nat address) h;
     (_, h) \<leftarrow> wait_busy b h;
     let h = sfcx_writereg b SFCX_COMMAND UNLOCK_CMD_1 h;
     let h = sfcx_writereg b SFCX_COMMAND UNLOCK_CMD_0 h;
     (_, h) \<leftarrow> wait_busy b h;
     let h = sfcx_writereg b SFCX_COMMAND BLOCK_ERASE h;
     (_, h) \<leftarrow> wait_busy b h;
     let (status, h) = sfcx_readreg b SFCX_STATUS h;
     let h = sfcx_writereg b SFCX_STATUS 0xFF h;
     let (c, h) = sfcx_readreg b SFCX_CONFIG h;
     let h = sfcx_writereg b SFCX_CONFIG (c AND NOT CONFIG_WP_EN) h;
     Some (status, h) }"

section \<open>Flashing an image\<close>

record 'f file_ops =
  f_open :: "string \<Rightarrow> int"
  f_size :: nat
  f_read :: "nat \<Rightarrow> 'f \<Rightarrow> int \<times> u8 list \<times> 'f"
  f_malloc :: "nat \<Rightarrow> u8 list option"

text \<open>
  One pass of the block loop.  \<open>read\<close> overwrites the front of the buffer with the bytes it
  delivers.  The result is \<open>Inl\<close> when the routine gives up, \<open>Inr\<close> when the loop goes on.
\<close>

definition flash_one :: "'h bus \<Rightarrow> 'f file_ops \<Rightarrow> sfc \<Rightarrow> nat \<Rightarrow> nat \<Rightarrow> u8 list \<times> 'h \<times> 'f
    \<Rightarrow> ((u8 list \<times> 'h \<times> 'f) + (u8 list \<times> 'h \<times> 'f)) option" where
  "flash_one b fo g secondPgOffset i = (\<lambda>(blockbuf, h, f). do {
     let readsz = pages_in_block g * page_sz_phys g;
     (status, blockbuf, h) \<leftarrow> sfcx_read_block b g blockbuf (i * block_sz g) True h;
     let status = (if \<not> sfcx_is_pagevalid g blockbuf \<or> \<not> sfcx_is_pagevalid g (drop secondPgOffset blockbuf)
                   then status OR STATUS_BB_ER else status);
     let (r, bytes, f) = f_read fo readsz f;
     if r < 0 then Some (Inl (blockbuf, h, f)) else do {
       let blockbuf = bytes @ drop (length bytes) blockbuf;
       if status AND (STATUS_BB_ER OR STATUS_ECC_ER) = 0 then do {
         (_, h) \<leftarrow> sfcx_erase_block b (i * block_sz g) h;
         (_, h) \<leftarrow> sfcx_write_block b g blockbuf (i * block_sz g) h;
         Some (Inr (blockbuf, h, f)) }
       else Some (Inr (blockbuf, h, f)) } })"

primrec flash_blocks :: "'h bus \<Rightarrow> 'f file_ops \<Rightarrow> sfc \<Rightarrow> nat \<Rightarrow> nat \<Rightarrow> nat \<Rightarrow> u8 list \<times> 'h \<times> 'f
    \<Rightarrow> (bool \<times> u8 list \<times> 'h \<times> 'f) option" where
  "flash_blocks b fo g off 0 i st = Some (True, st)"
| "flash_blocks b fo g off (Suc n) i st = do {
     r \<leftarrow> flash_one b fo g off i st;
     case r of Inl st \<Rightarrow> Some (False, st) | Inr st \<Rightarrow> flash_blocks b fo g off n (i + 1) st }"

definition rawflash_writeImage :: "'h bus \<Rightarrow> 'f file_ops \<Rightarrow> sfc \<Rightarrow> nat \<Rightarrow> 'h \<times> 'f \<Rightarrow> (bool \<times> 'h \<times> 'f) option" where
  "rawflash_writeImage b fo g len = (\<lambda>(h, f). case f_malloc fo (pages_in_block g * page_sz_phys g) of
     None \<Rightarrow> Some (False, h, f)
   | Some blockbuf \<Rightarrow> do {
       let secondPgOffset = (if meta_type g = META_TYPE_2 then 0x1080 else page_sz_phys g);
       (ok, _, h, f) \<leftarrow> flash_blocks b fo g secondPgOffset (len div block_sz_phys g) 0 (blockbuf, h, f);
       Some (ok, h, f) })"

text \<open>The routine either returns an error code or, once it has tried to flash, loops for ever.\<close>

datatype 's flash_outcome = Returned int | Looping bool 's

definition try_rawflash :: "'h bus \<Rightarrow> 'f file_ops \<Rightarrow> sfc \<Rightarrow> string \<Rightarrow> 'h \<times> 'f \<Rightarrow> ('h \<times> 'f) flash_outcome option" where
  "try_rawflash b fo g filename st = (let fd = f_open fo filename; size = f_size fo in
     if fd < 0 then Some (Returned fd)
     else if size \<noteq> RAW_NAND_64 * 4 \<and> size \<noteq> RAW_NAND_64 * 8 \<and> size \<noteq> 0x1080000 \<and> size \<noteq> RAW_NAND_64
     then Some (Returned (-1))
     else do {
       (ok, st) \<leftarrow> rawflash_writeImage b fo g
         (if size = RAW_NAND_64 * 4 \<or> size = RAW_NAND_64 * 8 then RAW_NAND_64 else size) st;
       Some (Looping ok st) })"

section \<open>Start-up\<close>

datatype init_error = Unsupported_A0 | Unsupported_B0 | Unsupported_Type

definition init_code :: "init_error \<Rightarrow> u32" where
  "init_code e = (case e of Unsupported_A0 \<Rightarrow> 1 | Unsupported_B0 \<Rightarrow> 2 | Unsupported_Type \<Rightarrow> 3)"

definition small_block :: "meta_type \<Rightarrow> nat \<Rightarrow> nat \<Rightarrow> sfc \<Rightarrow> sfc" where
  "small_block mt blocks usable g = g\<lparr>meta_type := mt, block_sz := 0x4000, size_blocks := blocks,
     size_bytes := blocks * 2 ^ 0xE, blocks_per_lg_block := 8, size_usable_fs := usable,
     addr_config := (usable - CONFIG_BLOCKS) * 0x4000\<rparr>"

text \<open>\<open>0x1 << n\<close> in a C \<open>int\<close> is undefined from 31 on: \<open>None\<close>.\<close>

definition large_block :: "nat \<Rightarrow> nat \<Rightarrow> nat \<Rightarrow> u32 \<Rightarrow> sfc \<Rightarrow> sfc option" where
  "large_block sz sh usable config g = (let
     n = unat (drop_bit 19 config AND 0x3) + unat (drop_bit 21 config AND 0xF) + 0x17 in
     if n \<ge> 31 then None
     else Some (g\<lparr>meta_type := META_TYPE_2, block_sz := sz, size_bytes := 2 ^ n, size_blocks := 2 ^ n div 2 ^ sh,
       blocks_per_lg_block := 1, size_usable_fs := usable, addr_config := (usable - CONFIG_BLOCKS) * sz\<rparr>))"

definition init_geometry :: "u32 \<Rightarrow> sfc \<Rightarrow> (init_error \<times> sfc + sfc) option" where
  "init_geometry config g = (let sb = drop_bit 17 config AND 0x03; fs = drop_bit 4 config AND 0x3 in
     if sb = 0 then
       let g = g\<lparr>meta_type := META_TYPE_0, blocks_per_lg_block := 8\<rparr> in
       if fs = 0 then Some (Inl (Unsupported_A0, g))
       else if fs = 1 then Some (Inr (small_block META_TYPE_0 0x400 0x3E0 g))
       else if fs = 2 then Some (Inr (small_block META_TYPE_0 0x800 0x7C0 g))
       else Some (Inr (small_block META_TYPE_0 0x1000 0xF80 g))
     else if sb = 1 \<or> sb = 2 then
       if fs = 0 then
         if sb = 1 then Some (Inl (Unsupported_B0, g\<lparr>meta_type := META_TYPE_0\<rparr>)) else Some (Inr (small_block META_TYPE_1 0x400 0x3E0 g))
       else if fs = 1 then
         if sb = 1 then Some (Inr (small_block META_TYPE_1 0x400 0x3E0 g))
         else Some (Inr (small_block META_TYPE_1 0x1000 0xF80 g))
       else if fs = 2 then map_option Inr (large_block 0x20000 0x11 0x1E0 config g)
       else map_option Inr (large_block 0x40000 0x12 0xF0 config g)
     else Some (Inl (Unsupported_Type, g)))"

definition init_derived :: "sfc \<Rightarrow> sfc" where
  "init_derived g = (let
     g = g\<lparr>len_config := block_sz g * 0x04\<rparr>;
     g = g\<lparr>pages_in_block := block_sz g div page_sz g\<rparr>;
     g = g\<lparr>block_sz_phys := pages_in_block g * page_sz_phys g\<rparr>;
     g = g\<lparr>size_pages := size_bytes g div page_sz g\<rparr>;
     g = g\<lparr>size_blocks := size_bytes g div block_sz g\<rparr>;
     g = g\<lparr>size_bytes_phys := block_sz_phys g * size_blocks g\<rparr>
   in g\<lparr>size_mb := size_bytes g div 2 ^ 20\<rparr>)"

text \<open>
  The result is the returned word, the geometry and the hardware state.  \<open>revision\<close> is the revision
  of the PCI bridge.
\<close>

definition sfcx_init :: "'h bus \<Rightarrow> nat \<Rightarrow> sfc \<Rightarrow> 'h \<Rightarrow> (u32 \<times> sfc \<times> 'h) option" where
  "sfcx_init b revision g h = (let
     (phison, h) = (if revision \<ge> 0x70 then sfcx_readreg b SFCX_PHISON h else (0, h)) in
     if revision \<ge> 0x70 \<and> phison \<noteq> 0 then Some (3, g, h)
     else case sfcx_readreg b SFCX_CONFIG h of (config, h) \<Rightarrow>
       if initialized g then Some (config, g, h)
       else let
         g = g\<lparr>initialized := False, meta_type := META_TYPE_0, page_sz := 0x200, meta_sz := 0x10\<rparr>;
         g = g\<lparr>page_sz_phys := page_sz g + meta_sz g\<rparr>;
         h = sfcx_writereg b SFCX_CONFIG
               (config AND NOT (CONFIG_INT_EN OR CONFIG_WP_EN OR CONFIG_DMA_LEN)) h
       in case init_geometry config g of
            None \<Rightarrow> None
          | Some (Inl (e, g)) \<Rightarrow> Some (init_code e, g, h)
          | Some (Inr g) \<Rightarrow> Some (config, (init_derived g)\<lparr>initialized := True\<rparr>, h))"

end
