(* ===== verification/Nand_Meta.thy ===== *)
theory Nand_Meta
  imports Nand_Io
begin

text \<open>
  What the flash driver promises without touching the hardware: the fields of the spare area can be
  set and read back independently in every layout, the error correction code is stable, and every
  geometry the start-up routine accepts is consistent.
\<close>

unbundle bit_operations_syntax

section \<open>Bytes of a word\<close>

lemma join_bytes16:
  fixes x :: u32
  shows "push_bit 8 (ucast (ucast (drop_bit 8 x AND 0xFF) :: u8)) OR ucast (ucast (x AND 0xFF) :: u8) = x AND 0xFFFF"
proof -
  have m: "(0xFF :: u32) = mask 8" "(0xFFFF :: u32) = mask 16"
    by (simp_all add: mask_eq_exp_minus_1)
  show ?thesis
    unfolding m by (rule bit_word_eqI) (auto simp: bit_simps)
qed

lemma join_bytes32:
  fixes x :: u32
  shows "push_bit 24 (ucast (ucast (drop_bit 24 x AND 0xFF) :: u8)) OR
    push_bit 16 (ucast (ucast (drop_bit 16 x AND 0xFF) :: u8)) OR
    push_bit 8 (ucast (ucast (drop_bit 8 x AND 0xFF) :: u8)) OR ucast (ucast (x AND 0xFF) :: u8) = x"
    (is "?l = x")
proof (rule bit_word_eqI)
  fix n assume n: "n < LENGTH(32)"
  have m: "(0xFF :: u32) = mask 8"
    by (simp add: mask_eq_exp_minus_1)
  consider "n < 8" | "8 \<le> n" "n < 16" | "16 \<le> n" "n < 24" | "24 \<le> n"
    by linarith
  then show "bit ?l n = bit x n"
    unfolding m using n by cases (auto simp: bit_simps)
qed

section \<open>The spare area\<close>

text \<open>A raw page: its spare area is in the buffer.\<close>

definition raw_page :: "sfc \<Rightarrow> u8 list \<Rightarrow> bool" where
  "raw_page g data \<longleftrightarrow> page_sz g + 0x10 \<le> length data"

lemmas meta_defs = sfcx_get_blocknumber_def sfcx_set_blocknumber_def sfcx_get_blockversion_def
  sfcx_set_blockversion_def sfcx_set_pagevalid_def sfcx_set_pageinvalid_def sfcx_is_pagevalid_def
  valid_offset_def raw_page_def Let_def

lemma number_roundtrip:
  "raw_page g data \<Longrightarrow> sfcx_get_blocknumber g (sfcx_set_blocknumber g data num) = num AND 0xFFFF"
  by (cases "meta_type g") (simp_all add: meta_defs join_bytes16)

lemma version_roundtrip:
  "raw_page g data \<Longrightarrow> sfcx_get_blockversion g (sfcx_set_blockversion g data ver) = ver"
  by (cases "meta_type g") (simp_all add: meta_defs join_bytes32)

lemma valid_roundtrip:
  assumes "raw_page g data"
  shows "sfcx_is_pagevalid g (sfcx_set_pagevalid g data)" "\<not> sfcx_is_pagevalid g (sfcx_set_pageinvalid g data)"
  using assms by (cases "meta_type g"; simp add: meta_defs)+

lemma number_keeps:
  "sfcx_get_blockversion g (sfcx_set_blocknumber g data num) = sfcx_get_blockversion g data"
  "sfcx_is_pagevalid g (sfcx_set_blocknumber g data num) = sfcx_is_pagevalid g data"
  by (cases "meta_type g"; simp add: meta_defs)+

lemma version_keeps:
  "sfcx_get_blocknumber g (sfcx_set_blockversion g data ver) = sfcx_get_blocknumber g data"
  "sfcx_is_pagevalid g (sfcx_set_blockversion g data ver) = sfcx_is_pagevalid g data"
  by (cases "meta_type g"; simp add: meta_defs)+

lemma valid_keeps:
  "sfcx_get_blocknumber g (sfcx_set_pagevalid g data) = sfcx_get_blocknumber g data"
  "sfcx_get_blockversion g (sfcx_set_pagevalid g data) = sfcx_get_blockversion g data"
  "sfcx_get_blocknumber g (sfcx_set_pageinvalid g data) = sfcx_get_blocknumber g data"
  "sfcx_get_blockversion g (sfcx_set_pageinvalid g data) = sfcx_get_blockversion g data"
  by (cases "meta_type g"; simp add: meta_defs)+

lemma all_bytes_iff: "all_bytes x is data \<longleftrightarrow> (\<forall>i \<in> set is. data ! i = x)"
  by (induction "is") auto

section \<open>Error correction code\<close>

text \<open>The code depends on the first 524 bytes of the page and on the low six bits of the next one.\<close>

definition same_coded :: "u8 list \<Rightarrow> u8 list \<Rightarrow> bool" where
  "same_coded d d' \<longleftrightarrow> (\<forall>k < 524. d ! k = d' ! k) \<and> take_bit 6 (d ! 524) = take_bit 6 (d' ! 524)"

definition ecc_shift :: "u32 \<times> u32 \<Rightarrow> u32 \<times> u32" where
  "ecc_shift = (\<lambda>(val, v). let
     val = val XOR (v AND 1);
     v = drop_bit 1 v;
     val = (if val AND 1 \<noteq> 0 then val XOR 0x6954559 else val)
   in (drop_bit 1 val, v))"

lemma ecc_step_shift:
  "ecc_step d i (val, v) = ecc_shift (val, if i mod 32 = 0 then NOT (le_word d (4 * (i div 32))) else v)"
  by (simp add: ecc_step_def ecc_shift_def Let_def)

lemma le_word_cong:
  assumes "\<And>k. k < 4 \<Longrightarrow> d ! (i + k) = d' ! (i + k)"
  shows "le_word d i = le_word d' i"
  using assms [of 0] assms [of 1] assms [of 2] assms [of 3] by (simp add: le_word_def)

lemma ecc_body:
  assumes "same_coded d d'" "n \<le> 4192"
  shows "fold (ecc_step d) [0..<n] st = fold (ecc_step d') [0..<n] st"
proof (rule fold_cong)
  fix i assume "i \<in> set [0..<n]"
  then have "i div 32 < 131" using assms(2) by auto
  then have "le_word d (4 * (i div 32)) = le_word d' (4 * (i div 32))"
    using assms(1) by (intro le_word_cong) (auto simp: same_coded_def)
  then show "ecc_step d i = ecc_step d' i"
    by (auto simp: ecc_step_shift fun_eq_iff)
qed simp_all

lemma ecc_shift_agree:
  assumes "take_bit (Suc n) v = take_bit (Suc n) v'"
  shows "fst (ecc_shift (val, v)) = fst (ecc_shift (val, v'))"
    and "take_bit n (snd (ecc_shift (val, v))) = take_bit n (snd (ecc_shift (val, v')))"
proof -
  have bits: "bit v k = bit v' k" if "k < Suc n" for k
    using arg_cong [OF assms, where f = "\<lambda>x. bit x k"] that by (simp add: bit_take_bit_iff)
  have "v AND 1 = v' AND 1"
    by (rule bit_word_eqI) (auto simp: bit_simps bits)
  then show "fst (ecc_shift (val, v)) = fst (ecc_shift (val, v'))"
    by (simp add: ecc_shift_def Let_def)
  have "take_bit n (drop_bit 1 v) = take_bit n (drop_bit 1 v')"
    by (rule bit_word_eqI) (auto simp: bit_simps bits)
  then show "take_bit n (snd (ecc_shift (val, v))) = take_bit n (snd (ecc_shift (val, v')))"
    by (simp add: ecc_shift_def Let_def)
qed

lemma ecc_tail:
  assumes "\<forall>i \<in> set is. i mod 32 \<noteq> 0" "length is = n" "take_bit n v = take_bit n v'"
  shows "fst (fold (ecc_step d) is (val, v)) = fst (fold (ecc_step d') is (val, v'))"
  using assms
proof (induction "is" arbitrary: n val v v')
  case (Cons i "is")
  obtain w x where s: "ecc_shift (val, v) = (w, x)" by fastforce
  obtain w' x' where s': "ecc_shift (val, v') = (w', x')" by fastforce
  have "w = w'" "take_bit (length is) x = take_bit (length is) x'"
    using ecc_shift_agree [of "length is" v v' val] Cons.prems(2,3) s s' by auto
  then show ?case
    using Cons.IH [OF _ refl, of x x' w] Cons.prems(1) s s' by (simp add: ecc_step_shift)
qed simp

lemma ecc_value_cong:
  assumes "same_coded d d'"
  shows "ecc_value d = ecc_value d'"
proof -
  have split: "[0..<0x1066] = [0..<4192] @ [4192..<4198]"
    using upt_add_eq_append [of 0 4192 6] by simp
  have tl: "[4192..<4198] = 4192 # [4193, 4194, 4195, 4196, 4197 :: nat]"
    by (simp add: upt_rec)
  obtain val v where st: "fold (ecc_step d) [0..<4192] (0, 0) = (val, v)" by fastforce
  have st': "fold (ecc_step d') [0..<4192] (0, 0) = (val, v)"
    using ecc_body [OF assms order_refl] st by (rule subst)
  have w: "take_bit 6 (NOT (le_word d 524)) = take_bit 6 (NOT (le_word d' 524))"
  proof (rule bit_word_eqI)
    fix n assume "n < LENGTH(32)"
    have "bit (take_bit 6 (d ! 524)) n = bit (take_bit 6 (d' ! 524)) n"
      using assms by (simp add: same_coded_def)
    then have "n < 6 \<Longrightarrow> bit (d ! 524) n = bit (d' ! 524) n"
      by (simp add: bit_take_bit_iff)
    then show "bit (take_bit 6 (NOT (le_word d 524))) n = bit (take_bit 6 (NOT (le_word d' 524))) n"
      by (auto simp: le_word_def bit_simps)
  qed
  obtain a x where s: "ecc_shift (val, NOT (le_word d 524)) = (a, x)" by fastforce
  obtain a' x' where s': "ecc_shift (val, NOT (le_word d' 524)) = (a', x')" by fastforce
  have e: "ecc_step d 4192 (val, v) = (a, x)" and e': "ecc_step d' 4192 (val, v) = (a', x')"
    by (simp_all add: ecc_step_shift s s')
  have "a = a'" "take_bit 5 x = take_bit 5 x'"
    using ecc_shift_agree [of 5 "NOT (le_word d 524)" "NOT (le_word d' 524)" val] w s s' by simp_all
  then have "fst (fold (ecc_step d) [4193, 4194, 4195, 4196, 4197] (a, x))
      = fst (fold (ecc_step d') [4193, 4194, 4195, 4196, 4197] (a', x'))"
    by (simp only:) (rule ecc_tail [where n = 5]; simp)
  then show ?thesis
    unfolding ecc_value_def split tl fold_append comp_apply st st'
    by (simp add: e e')
qed

lemma calcecc_same_coded:
  assumes "page_sz g = 0x200" "0x210 \<le> length d"
  shows "same_coded (sfcx_calcecc g d) d"
proof -
  have "take_bit 6 (ucast ((push_bit 6 v OR ucast x AND 0x3F) AND 0xFF) :: u8) = take_bit 6 x" for v :: u32 and x :: u8
  proof -
    have m: "(0x3F :: u32) = mask 6" "(0xFF :: u32) = mask 8"
      by (simp_all add: mask_eq_exp_minus_1)
    show ?thesis
      unfolding m by (rule bit_word_eqI) (auto simp: bit_simps)
  qed
  then show ?thesis
    using assms by (simp add: same_coded_def sfcx_calcecc_def Let_def)
qed

section \<open>Geometry\<close>

text \<open>What the rest of the driver, and the file systems above it, take for granted of a geometry.\<close>

definition geometry_ok :: "sfc \<Rightarrow> bool" where
  "geometry_ok g \<longleftrightarrow> page_sz g = 0x200 \<and> page_sz_phys g = MAX_PAGE_SZ \<and>
     pages_in_block g * page_sz g = block_sz g \<and> 8 < pages_in_block g \<and>
     block_sz_phys g = pages_in_block g * page_sz_phys g \<and> block_sz_phys g \<le> MAX_BLOCK_SZ \<and>
     size_blocks g * block_sz g = size_bytes g \<and> size_pages g * page_sz g = size_bytes g \<and>
     size_mb g * 2 ^ 20 = size_bytes g \<and>
     size_bytes_phys g = size_pages g * page_sz_phys g \<and>
     addr_config g + len_config g = size_usable_fs g * block_sz g"

lemma small_block_ok:
  assumes "page_sz g = 0x200" "page_sz_phys g = 0x210" "blocks \<in> {0x400, 0x800, 0x1000}" "CONFIG_BLOCKS \<le> usable"
  shows "geometry_ok ((init_derived (small_block mt blocks usable g))\<lparr>initialized := True\<rparr>)"
  using assms
  by (auto simp: geometry_ok_def init_derived_def small_block_def Let_def MAX_PAGE_SZ_def MAX_BLOCK_SZ_def
      CONFIG_BLOCKS_def diff_mult_distrib)

lemma large_block_ok:
  assumes "page_sz g = 0x200" "page_sz_phys g = 0x210" "sz = 0x20000 \<or> sz = 0x40000" "CONFIG_BLOCKS \<le> usable"
    and "large_block sz sh usable config g = Some g'"
  shows "geometry_ok ((init_derived g')\<lparr>initialized := True\<rparr>)"
proof -
  define k where "k = unat (drop_bit 19 config AND 0x3) + unat (drop_bit 21 config AND 0xF)"
  have g': "g' = g\<lparr>meta_type := META_TYPE_2, block_sz := sz, size_bytes := 0x800000 * 2 ^ k,
      size_blocks := 0x800000 * 2 ^ k div 2 ^ sh, blocks_per_lg_block := 1, size_usable_fs := usable,
      addr_config := (usable - CONFIG_BLOCKS) * sz\<rparr>"
    using assms(5) by (auto simp: large_block_def Let_def power_add k_def mult.commute split: if_splits)
  have pages: "0x800000 * 2 ^ k div 512 = (0x4000 :: nat) * 2 ^ k"
    by (rule div_nat_eqI) simp_all
  have b1: "0x800000 * 2 ^ k div 0x20000 = (0x40 :: nat) * 2 ^ k"
    and b2: "0x800000 * 2 ^ k div 0x40000 = (0x20 :: nat) * 2 ^ k"
    and b3: "0x800000 * 2 ^ k div 0x100000 = (0x8 :: nat) * 2 ^ k"
    by (rule div_nat_eqI; simp)+
  have u: "(usable - CONFIG_BLOCKS) * sz + sz * 4 = usable * sz"
    using assms(4) by (simp add: CONFIG_BLOCKS_def diff_mult_distrib)
  show ?thesis
    using assms(1-3) u
    by (elim disjE) (simp_all add: geometry_ok_def init_derived_def Let_def MAX_PAGE_SZ_def MAX_BLOCK_SZ_def
        g' pages b1 b2 b3)
qed

lemma init_geometry_ok:
  assumes "page_sz g = 0x200" "page_sz_phys g = 0x210" "init_geometry config g = Some (Inr g')"
  shows "geometry_ok ((init_derived g')\<lparr>initialized := True\<rparr>)"
  using assms(3) assms(1,2)
  by (auto simp: init_geometry_def Let_def CONFIG_BLOCKS_def
      split: if_splits intro!: small_block_ok elim!: large_block_ok [rotated -1])

lemma init_geometry_error:
  assumes "init_geometry config g = Some (Inl (e, g'))"
  shows "initialized g' = initialized g"
  using assms by (auto simp: init_geometry_def Let_def split: if_splits)

text \<open>An accepted configuration word is never one of the error codes.\<close>

lemma init_geometry_code:
  assumes "init_geometry config g = Some (Inr g')"
  shows "config \<noteq> 1" "config \<noteq> 2" "config \<noteq> 3"
  using assms by (auto simp: init_geometry_def Let_def)

text \<open>A console with 16 MB of flash behind a controller whose configuration register reads \<open>0x10\<close>.\<close>

definition blank_sfc :: sfc where
  "blank_sfc = \<lparr>initialized = False, meta_type = META_TYPE_0, page_sz = 0, meta_sz = 0, page_sz_phys = 0,
     pages_in_block = 0, block_sz = 0, block_sz_phys = 0, size_mb = 0, size_bytes = 0, size_bytes_phys = 0,
     size_pages = 0, size_blocks = 0, blocks_per_lg_block = 0, size_usable_fs = 0, addr_config = 0, len_config = 0\<rparr>"

definition sample_sfc :: sfc where
  "sample_sfc = blank_sfc\<lparr>meta_type := META_TYPE_2, page_sz := 0x200, page_sz_phys := 0x210\<rparr>"

definition idle_bus :: "u32 bus" where
  "idle_bus = \<lparr>mmio_read = (\<lambda>a h. (bswap32 h, h)), mmio_write = (\<lambda>a x h. h)\<rparr>"

section \<open>Properties\<close>

text \<open>
  C23: In every layout of the spare area, on a buffer that holds a raw page, the block number (16
  bits) and the block version (32 bits) read back as they were set, the validity mark reads back as
  it was set, and setting one of the three leaves the other two as they were.
\<close>

theorem spare_area_roundtrip:
  assumes "raw_page g data"
  shows "sfcx_get_blocknumber g (sfcx_set_blocknumber g data num) = num AND 0xFFFF
    \<and> sfcx_get_blockversion g (sfcx_set_blockversion g data ver) = ver
    \<and> sfcx_is_pagevalid g (sfcx_set_pagevalid g data) \<and> \<not> sfcx_is_pagevalid g (sfcx_set_pageinvalid g data)
    \<and> sfcx_get_blockversion g (sfcx_set_blocknumber g data num) = sfcx_get_blockversion g data
    \<and> sfcx_is_pagevalid g (sfcx_set_blocknumber g data num) = sfcx_is_pagevalid g data
    \<and> sfcx_get_blocknumber g (sfcx_set_blockversion g data ver) = sfcx_get_blocknumber g data
    \<and> sfcx_is_pagevalid g (sfcx_set_blockversion g data ver) = sfcx_is_pagevalid g data
    \<and> sfcx_get_blocknumber g (sfcx_set_pageinvalid g data) = sfcx_get_blocknumber g data
    \<and> sfcx_get_blockversion g (sfcx_set_pageinvalid g data) = sfcx_get_blockversion g data"
  using assms by (simp add: number_roundtrip version_roundtrip valid_roundtrip number_keeps version_keeps valid_keeps)

theorem spare_area_roundtrip_witness:
  "raw_page sample_sfc (replicate 0x210 0)
   \<and> sfcx_get_blocknumber sample_sfc (sfcx_set_blocknumber sample_sfc (replicate 0x210 0) 0x12345) = 0x2345"
proof -
  have "raw_page sample_sfc (replicate 0x210 0)"
    by (simp add: raw_page_def sample_sfc_def)
  then show ?thesis
    using spare_area_roundtrip [of sample_sfc "replicate 0x210 0" "0x12345" 0] by simp
qed

text \<open>
  C24: The error correction code of a page is stable.  Computing it changes only the 26 code bits of
  the spare area, and computing it again changes nothing: the code bits are outside what is coded.
\<close>

theorem calcecc_stable:
  assumes "page_sz g = 0x200" "0x210 \<le> length d"
  shows "sfcx_calcecc g (sfcx_calcecc g d) = sfcx_calcecc g d
    \<and> length (sfcx_calcecc g d) = length d
    \<and> (\<forall>k. k < 0x20C \<or> 0x210 \<le> k \<longrightarrow> sfcx_calcecc g d ! k = d ! k)
    \<and> take_bit 6 (sfcx_calcecc g d ! 0x20C) = take_bit 6 (d ! 0x20C)"
proof -
  have c: "same_coded (sfcx_calcecc g d) d"
    by (rule calcecc_same_coded [OF assms])
  then have v: "ecc_value (sfcx_calcecc g d) = ecc_value d"
    by (rule ecc_value_cong)
  have m: "(0x3F :: u32) = mask 6" "(0xFF :: u32) = mask 8"
    by (simp_all add: mask_eq_exp_minus_1)
  have low: "push_bit 6 w OR ucast (ucast ((push_bit 6 w OR ucast x AND 0x3F) AND 0xFF) :: u8) AND 0x3F
      = push_bit 6 w OR ucast x AND 0x3F" for w :: u32 and x :: u8
    unfolding m by (rule bit_word_eqI) (auto simp: bit_simps)
  have "sfcx_calcecc g (sfcx_calcecc g d) = sfcx_calcecc g d"
    using assms unfolding sfcx_calcecc_def [of g "sfcx_calcecc g d"] v
    by (simp add: sfcx_calcecc_def Let_def low list_update_swap)
  moreover have "\<forall>k. k < 0x20C \<or> 0x210 \<le> k \<longrightarrow> sfcx_calcecc g d ! k = d ! k"
    using assms by (auto simp: sfcx_calcecc_def Let_def)
  ultimately show ?thesis
    using c by (simp add: same_coded_def) (simp add: sfcx_calcecc_def Let_def)
qed

theorem calcecc_stable_witness:
  "sfcx_calcecc sample_sfc (sfcx_calcecc sample_sfc (replicate 0x210 0xA5))
     = sfcx_calcecc sample_sfc (replicate 0x210 0xA5)"
  using calcecc_stable [of sample_sfc "replicate 0x210 0xA5"] by (simp add: sample_sfc_def)

text \<open>
  C22: The start-up routine on a driver that is not initialised.  It marks the driver initialised
  exactly when the word it returns is none of its error codes 1, 2, 3, and then the geometry is
  consistent: pages fill blocks and blocks fill the device, the raw sizes count 16 more bytes per
  page and a raw block fits the buffers sized by \<open>MAX_BLOCK_SZ\<close>, and the configuration area ends
  where the file system area ends.
\<close>

theorem sfcx_init_geometry:
  assumes "sfcx_init b revision g h = Some (r, g', h')" "\<not> initialized g"
  shows "(initialized g' \<longleftrightarrow> r \<notin> {1, 2, 3}) \<and> (initialized g' \<longrightarrow> geometry_ok g')"
proof -
  obtain ph h1 where ph: "(if revision \<ge> 0x70 then sfcx_readreg b SFCX_PHISON h else (0, h)) = (ph, h1)"
    by fastforce
  obtain config h2 where cf: "sfcx_readreg b SFCX_CONFIG h1 = (config, h2)"
    by fastforce
  show ?thesis
    using assms ph cf
    by (auto simp: sfcx_init_def Let_def init_code_def split: if_splits option.splits sum.splits init_error.splits
        dest: init_geometry_error init_geometry_code intro: init_geometry_ok [rotated -1])
qed

theorem sfcx_init_geometry_witness:
  "\<exists>g'. sfcx_init idle_bus 0x60 blank_sfc 0x10 = Some (0x10, g', 0x10) \<and> initialized g' \<and> geometry_ok g'"
proof -
  have "\<exists>g'. sfcx_init idle_bus 0x60 blank_sfc 0x10 = Some (0x10, g', 0x10)"
    by (simp add: sfcx_init_def sfcx_readreg_def sfcx_writereg_def idle_bus_def blank_sfc_def init_geometry_def
        bswap32_def)
  then obtain g' where g': "sfcx_init idle_bus 0x60 blank_sfc 0x10 = Some (0x10, g', 0x10)"
    by blast
  then show ?thesis
    using sfcx_init_geometry [OF g'] by (simp add: blank_sfc_def)
qed

end
