(* ===== verification/Nand_Device.thy ===== *)
theory Nand_Device
  imports Nand_Meta
begin

text \<open>
  What the driver does to the flash behind the controller.

  The controller is hardware, so its behaviour is a hypothesis, \<open>controller\<close>: it relates every
  register access of the driver to an abstract \<open>chip\<close>, with one law per register and per command
  documented in \<^verbatim>\<open>xenon_sfcx.h\<close>.  Programming can only clear bits, so a page holds what was written
  to it only if its block was erased before; programming and erasing need the write bit of the
  configuration register and their unlock sequence.  The time a command takes is arbitrary, and so
  is the status it ends with.  The chip is a healthy one, on which programming and erasing succeed: the error bit
  for writing and erasing plays no part, and the driver ignores it.

  Which pages have a reading error is the argument \<open>faulty\<close> of a second hypothesis, \<open>reads_report\<close>: the status that a
  physical read ends with has a bad-block or a correction bit set exactly for those pages.
\<close>

unbundle bit_operations_syntax

section \<open>The controller\<close>

record chip =
  c_config :: u32
  c_address :: u32
  c_data :: u32
  c_buf :: "u8 list"
  c_ptr :: nat
  c_unlock :: "u32 list"
  c_busy :: nat
  c_flash :: "u32 \<Rightarrow> u8 list"

definition le_bytes :: "u32 \<Rightarrow> u8 list" where
  "le_bytes x = [ucast x, ucast (drop_bit 8 x), ucast (drop_bit 16 x), ucast (drop_bit 24 x)]"

definition program_page :: "u8 list \<Rightarrow> u8 list \<Rightarrow> u8 list" where
  "program_page old new = map2 (AND) old new"

definition blank_page :: "u8 list" where
  "blank_page = replicate 0x210 0xFF"

definition chip_command :: "nat \<Rightarrow> u32 \<Rightarrow> chip \<Rightarrow> chip" where
  "chip_command bs cmd c = (
     if cmd = PAGE_BUF_TO_REG then c\<lparr>c_data := le_word (c_buf c) (c_ptr c), c_ptr := c_ptr c + 4\<rparr>
     else if cmd = REG_TO_PAGE_BUF then
       c\<lparr>c_buf := take 0x210 (take (c_ptr c) (c_buf c) @ le_bytes (c_data c) @ drop (c_ptr c + 4) (c_buf c)), c_ptr := c_ptr c + 4\<rparr>
     else if cmd = PHY_PAGE_TO_BUF then c\<lparr>c_buf := c_flash c (c_address c)\<rparr>
     else if cmd = UNLOCK_CMD_0 \<or> cmd = UNLOCK_CMD_1 then c\<lparr>c_unlock := take 2 (cmd # c_unlock c)\<rparr>
     else if cmd = WRITE_PAGE_TO_PHY then
       if c_config c AND CONFIG_WP_EN \<noteq> 0 \<and> c_unlock c = [UNLOCK_CMD_1, UNLOCK_CMD_0]
       then c\<lparr>c_unlock := [], c_flash := (c_flash c)(c_address c := program_page (c_flash c (c_address c)) (c_buf c))\<rparr>
       else c\<lparr>c_unlock := []\<rparr>
     else if cmd = BLOCK_ERASE then
       if c_config c AND CONFIG_WP_EN \<noteq> 0 \<and> c_unlock c = [UNLOCK_CMD_0, UNLOCK_CMD_1]
       then c\<lparr>c_unlock := [], c_flash := (\<lambda>a. if unat a div bs = unat (c_address c) div bs then blank_page else c_flash c a)\<rparr>
       else c\<lparr>c_unlock := []\<rparr>
     else c)"

definition controller :: "'h bus \<Rightarrow> ('h \<Rightarrow> chip) \<Rightarrow> nat \<Rightarrow> bool" where
  "controller b view bs \<longleftrightarrow>
     (\<forall>h. length (c_buf (view h)) = 0x210 \<and> (\<forall>a. length (c_flash (view h) a) = 0x210))
   \<and> (\<forall>h s h'. sfcx_readreg b SFCX_STATUS h = (s, h') \<longrightarrow>
        (s AND STATUS_BUSY \<noteq> 0) = (c_busy (view h) \<noteq> 0) \<and> view h' = (view h)\<lparr>c_busy := c_busy (view h) - 1\<rparr>)
   \<and> (\<forall>h x h'. sfcx_readreg b SFCX_CONFIG h = (x, h') \<longrightarrow> x = c_config (view h) \<and> view h' = view h)
   \<and> (\<forall>h x h'. sfcx_readreg b SFCX_DATA h = (x, h') \<longrightarrow> x = c_data (view h) \<and> view h' = view h)
   \<and> (\<forall>h x. view (sfcx_writereg b SFCX_STATUS x h) = view h)
   \<and> (\<forall>h x. view (sfcx_writereg b SFCX_CONFIG x h) = (view h)\<lparr>c_config := x\<rparr>)
   \<and> (\<forall>h x. view (sfcx_writereg b SFCX_DATA x h) = (view h)\<lparr>c_data := x\<rparr>)
   \<and> (\<forall>h x. view (sfcx_writereg b SFCX_ADDRESS x h)
        = (view h)\<lparr>c_address := x, c_ptr := if x = 0 then 0 else c_ptr (view h)\<rparr>)
   \<and> (\<forall>h x. x \<in> {PAGE_BUF_TO_REG, REG_TO_PAGE_BUF, PHY_PAGE_TO_BUF, UNLOCK_CMD_0, UNLOCK_CMD_1,
          WRITE_PAGE_TO_PHY, BLOCK_ERASE} \<longrightarrow>
        (\<exists>n. view (sfcx_writereg b SFCX_COMMAND x h) = (chip_command bs x (view h))\<lparr>c_busy := n\<rparr>))"

definition reads_report :: "'h bus \<Rightarrow> (u32 \<Rightarrow> bool) \<Rightarrow> bool" where
  "reads_report b faulty \<longleftrightarrow> (\<forall>h a s h'.
     wait_busy b (sfcx_writereg b SFCX_COMMAND PHY_PAGE_TO_BUF (sfcx_writereg b SFCX_ADDRESS a h)) = Some (s, h') \<longrightarrow>
     (s AND (STATUS_BB_ER OR STATUS_ECC_ER) \<noteq> 0) = faulty a)"

lemmas command_codes = PAGE_BUF_TO_REG_def REG_TO_PAGE_BUF_def PHY_PAGE_TO_BUF_def UNLOCK_CMD_0_def
  UNLOCK_CMD_1_def WRITE_PAGE_TO_PHY_def BLOCK_ERASE_def

section \<open>Register accesses\<close>

lemma ctl_sizes:
  assumes "controller b view bs"
  shows "length (c_buf (view h)) = 0x210" "length (c_flash (view h) a) = 0x210"
  using assms by (simp_all add: controller_def)

lemma ctl_read:
  assumes "controller b view bs"
  shows "fst (sfcx_readreg b SFCX_CONFIG h) = c_config (view h)" "view (snd (sfcx_readreg b SFCX_CONFIG h)) = view h"
    and "fst (sfcx_readreg b SFCX_DATA h) = c_data (view h)" "view (snd (sfcx_readreg b SFCX_DATA h)) = view h"
    and "view (snd (sfcx_readreg b SFCX_STATUS h)) = (view h)\<lparr>c_busy := c_busy (view h) - 1\<rparr>"
    and "fst (sfcx_readreg b SFCX_STATUS h) AND STATUS_BUSY \<noteq> 0 \<longleftrightarrow> c_busy (view h) \<noteq> 0"
  using assms unfolding controller_def by (metis prod.collapse)+

lemma ctl_write:
  assumes "controller b view bs"
  shows "view (sfcx_writereg b SFCX_STATUS x h) = view h"
    and "view (sfcx_writereg b SFCX_CONFIG x h) = (view h)\<lparr>c_config := x\<rparr>"
    and "view (sfcx_writereg b SFCX_DATA x h) = (view h)\<lparr>c_data := x\<rparr>"
    and "view (sfcx_writereg b SFCX_ADDRESS x h)
      = (view h)\<lparr>c_address := x, c_ptr := if x = 0 then 0 else c_ptr (view h)\<rparr>"
  using assms by (simp_all add: controller_def)

lemma ctl_command:
  assumes "controller b view bs"
    and "x \<in> {PAGE_BUF_TO_REG, REG_TO_PAGE_BUF, PHY_PAGE_TO_BUF, UNLOCK_CMD_0, UNLOCK_CMD_1, WRITE_PAGE_TO_PHY, BLOCK_ERASE}"
  shows "view (sfcx_writereg b SFCX_COMMAND x h)
    = (chip_command bs x (view h))\<lparr>c_busy := c_busy (view (sfcx_writereg b SFCX_COMMAND x h))\<rparr>"
proof -
  have "\<exists>n. view (sfcx_writereg b SFCX_COMMAND x h) = (chip_command bs x (view h))\<lparr>c_busy := n\<rparr>"
    using assms unfolding controller_def by blast
  then show ?thesis by force
qed

text \<open>Waiting ends, and changes nothing but the time.\<close>

lemma wait_busy_returns:
  assumes "controller b view bs"
  shows "returns (wait_busy b h) (\<lambda>(s, h'). view h' = (view h)\<lparr>c_busy := 0\<rparr>)"
proof (induction "c_busy (view h)" arbitrary: h)
  case 0
  then show ?case
    using ctl_read(5,6) [OF assms, of h]
    by (subst wait_busy.simps) (simp add: case_prod_beta)
next
  case (Suc n)
  let ?h = "snd (sfcx_readreg b SFCX_STATUS h)"
  have v: "view ?h = (view h)\<lparr>c_busy := n\<rparr>"
    using ctl_read(5) [OF assms, of h] Suc(2) by simp
  have "returns (wait_busy b ?h) (\<lambda>(s, h'). view h' = (view ?h)\<lparr>c_busy := 0\<rparr>)"
    using Suc(1) [of ?h] v by simp
  then show ?case
    using ctl_read(6) [OF assms, of h] Suc(2) v by (subst wait_busy.simps) (simp add: case_prod_beta)
qed

section \<open>The page buffer\<close>

lemma bswap32_bytes:
  "ucast (drop_bit 24 (bswap32 x)) = (ucast x :: u8)" "ucast (drop_bit 16 (bswap32 x)) = (ucast (drop_bit 8 x) :: u8)"
  "ucast (drop_bit 8 (bswap32 x)) = (ucast (drop_bit 16 x) :: u8)" "ucast (bswap32 x) = (ucast (drop_bit 24 x) :: u8)"
proof -
  have m: "(0xFF :: u32) = mask 8" "(0xFF00 :: u32) = push_bit 8 (mask 8)" "(0xFF0000 :: u32) = push_bit 16 (mask 8)"
    by (simp_all add: mask_eq_exp_minus_1)
  show "ucast (drop_bit 24 (bswap32 x)) = (ucast x :: u8)" "ucast (drop_bit 16 (bswap32 x)) = (ucast (drop_bit 8 x) :: u8)"
    "ucast (drop_bit 8 (bswap32 x)) = (ucast (drop_bit 16 x) :: u8)" "ucast (bswap32 x) = (ucast (drop_bit 24 x) :: u8)"
    unfolding bswap32_def m by (rule bit_word_eqI; auto simp: bit_simps)+
qed

lemma no_high_bit: "8 \<le> n \<Longrightarrow> \<not> bit (x :: u8) n"
  using bit_imp_le_length [of x n] by auto

lemma word_bytes:
  fixes p q r s :: u8
  defines "w \<equiv> push_bit 24 (ucast s) OR push_bit 16 (ucast r) OR push_bit 8 (ucast q) OR ucast p :: u32"
  shows "ucast w = p" "ucast (drop_bit 8 w) = q" "ucast (drop_bit 16 w) = r" "ucast (drop_bit 24 w) = s"
  unfolding w_def by (rule bit_word_eqI; simp add: bit_simps no_high_bit)+

lemma bswap32_load: "bswap32 (load_int d i) = le_word d i" (is "?l = ?r")
proof (rule bit_word_eqI)
  fix n assume n: "n < LENGTH(32)"
  have m: "(0xFF :: u32) = mask 8" "(0xFF00 :: u32) = push_bit 8 (mask 8)" "(0xFF0000 :: u32) = push_bit 16 (mask 8)"
    by (simp_all add: mask_eq_exp_minus_1)
  have "n < 8 \<or> (\<exists>k < 8. n = 8 + k) \<or> (\<exists>k < 8. n = 16 + k) \<or> (\<exists>k < 8. n = 24 + k)"
    using n by simp presburger
  then show "bit ?l n = bit ?r n"
    unfolding bswap32_def load_int_def le_word_def m
    by (elim disjE exE conjE) (simp_all add: bit_simps no_high_bit)
qed

lemma take_four: "i + 4 \<le> length d \<Longrightarrow> take 4 (drop i d) = [d ! i, d ! (i + 1), d ! (i + 2), d ! (i + 3)]"
  by (rule nth_equalityI) (auto simp: less_Suc_eq numeral_eq_Suc)

lemma le_bytes_word: "i + 4 \<le> length d \<Longrightarrow> le_bytes (le_word d i) = take 4 (drop i d)"
  unfolding le_bytes_def le_word_def word_bytes by (simp only: take_four)

lemma store_word:
  assumes "i + 4 \<le> length d"
  shows "store_int d i (bswap32 x) = take i d @ le_bytes x @ drop (i + 4) d"
proof (rule nth_equalityI)
  show "length (store_int d i (bswap32 x)) = length (take i d @ le_bytes x @ drop (i + 4) d)"
    using assms by (simp add: store_int_def le_bytes_def)
  fix k assume "k < length (store_int d i (bswap32 x))"
  then have k: "k < length d" by (simp add: store_int_def)
  consider "k < i" | "k = i" | "k = i + 1" | "k = i + 2" | "k = i + 3" | "i + 4 \<le> k" by linarith
  then show "store_int d i (bswap32 x) ! k = (take i d @ le_bytes x @ drop (i + 4) d) ! k"
    using assms k
    by cases (simp_all add: store_int_def bswap32_bytes le_bytes_def nth_append)
qed

lemma take_drop_four:
  "i + 4 * Suc n \<le> length ys \<Longrightarrow> take 4 (drop i ys) @ take (4 * n) (drop (i + 4) ys) = take (4 * Suc n) (drop i ys)"
  by (simp add: take_add drop_drop add.commute)

lemma replace_four:
  assumes "i + 4 * Suc n \<le> length xs" "i + 4 * Suc n \<le> length ys"
    and "xs' = take i xs @ take 4 (drop i ys) @ drop (i + 4) xs"
  shows "take (i + 4) xs' @ take (4 * n) (drop (i + 4) ys) @ drop (i + 4 + 4 * n) xs'
    = take i xs @ take (4 * Suc n) (drop i ys) @ drop (i + 4 * Suc n) xs"
proof -
  have "take (i + 4) xs' = take i xs @ take 4 (drop i ys)"
    using assms by simp
  moreover have "drop (i + 4 + 4 * n) xs' = drop (i + 4 * Suc n) xs"
    using assms by (simp add: drop_drop add.assoc add.commute)
  ultimately show ?thesis
    by (simp only: append_assoc take_drop_four [OF assms(2), symmetric])
qed

text \<open>The accesses of the data loops leave everything but the pointer and the two data paths alone.\<close>

definition same_chip :: "chip \<Rightarrow> chip \<Rightarrow> bool" where
  "same_chip c c' \<longleftrightarrow> c_flash c' = c_flash c \<and> c_config c' = c_config c \<and> c_unlock c' = c_unlock c"

lemma same_chip_refl [simp]: "same_chip c c"
  by (simp add: same_chip_def)

lemma same_chip_trans: "same_chip a b \<Longrightarrow> same_chip b c \<Longrightarrow> same_chip a c"
  by (simp add: same_chip_def)

lemma read_words_spec:
  assumes ctl: "controller b view bs"
  shows "c_ptr (view h) = i \<Longrightarrow> i + 4 * n \<le> 0x210 \<Longrightarrow> i + 4 * n \<le> length data \<Longrightarrow>
    fst (read_words b n i data h) = take i data @ take (4 * n) (drop i (c_buf (view h))) @ drop (i + 4 * n) data
    \<and> same_chip (view h) (view (snd (read_words b n i data h)))"
proof (induction n arbitrary: i data h)
  case (Suc n)
  let ?h1 = "sfcx_writereg b SFCX_COMMAND PAGE_BUF_TO_REG h"
  let ?h2 = "snd (sfcx_readreg b SFCX_DATA ?h1)"
  let ?d = "store_int data i (bswap32 (fst (sfcx_readreg b SFCX_DATA ?h1)))"
  have v1: "view ?h1 = (view h)\<lparr>c_data := le_word (c_buf (view h)) i, c_ptr := i + 4, c_busy := c_busy (view ?h1)\<rparr>"
    using ctl_command [OF ctl, of PAGE_BUF_TO_REG h] Suc.prems(1) by (simp add: chip_command_def)
  have buf: "c_buf (view ?h2) = c_buf (view h)" "c_ptr (view ?h2) = i + 4" "same_chip (view h) (view ?h2)"
    unfolding ctl_read(4) [OF ctl] by (subst v1, simp add: same_chip_def)+
  have "fst (sfcx_readreg b SFCX_DATA ?h1) = le_word (c_buf (view h)) i"
    unfolding ctl_read(3) [OF ctl] by (subst v1, simp)
  then have d: "?d = take i data @ take 4 (drop i (c_buf (view h))) @ drop (i + 4) data"
    using Suc.prems ctl_sizes(1) [OF ctl, of h] by (simp add: store_word le_bytes_word)
  have len: "length ?d = length data"
    by (simp add: store_int_def)
  have rec: "read_words b (Suc n) i data h = read_words b n (i + 4) ?d ?h2"
    by (simp add: case_prod_beta Let_def)
  have "fst (read_words b n (i + 4) ?d ?h2)
      = take (i + 4) ?d @ take (4 * n) (drop (i + 4) (c_buf (view h))) @ drop (i + 4 + 4 * n) ?d
      \<and> same_chip (view ?h2) (view (snd (read_words b n (i + 4) ?d ?h2)))"
    using Suc.IH [of ?h2 "i + 4" ?d] Suc.prems buf len by simp
  then show ?case
    unfolding rec using replace_four [OF _ _ d] Suc.prems ctl_sizes(1) [OF ctl, of h] buf(3)
    by (auto intro: same_chip_trans)
qed simp

lemma write_words_spec:
  assumes ctl: "controller b view bs"
  shows "c_ptr (view h) = i \<Longrightarrow> i + 4 * n \<le> 0x210 \<Longrightarrow> i + 4 * n \<le> length data \<Longrightarrow>
    c_buf (view (write_words b n i data h))
      = take i (c_buf (view h)) @ take (4 * n) (drop i data) @ drop (i + 4 * n) (c_buf (view h))
    \<and> same_chip (view h) (view (write_words b n i data h))"
proof (induction n arbitrary: i h)
  case (Suc n)
  let ?h1 = "sfcx_writereg b SFCX_DATA (bswap32 (load_int data i)) h"
  let ?h2 = "sfcx_writereg b SFCX_COMMAND REG_TO_PAGE_BUF ?h1"
  have "view ?h2 = (chip_command bs REG_TO_PAGE_BUF (view ?h1))\<lparr>c_busy := c_busy (view ?h2)\<rparr>"
    by (rule ctl_command [OF ctl]) simp
  then have v: "view ?h2 = (view h)\<lparr>c_data := le_word data i,
      c_buf := take 0x210 (take i (c_buf (view h)) @ le_bytes (le_word data i) @ drop (i + 4) (c_buf (view h))),
      c_ptr := i + 4, c_busy := c_busy (view ?h2)\<rparr>"
    unfolding ctl_write [OF ctl]
    using Suc.prems(1) by (simp add: chip_command_def bswap32_load command_codes)
  have buf: "c_buf (view ?h2) = take i (c_buf (view h)) @ take 4 (drop i data) @ drop (i + 4) (c_buf (view h))"
    using Suc.prems ctl_sizes(1) [OF ctl, of h] by (subst v) (simp add: le_bytes_word)
  have rest: "c_ptr (view ?h2) = i + 4" "same_chip (view h) (view ?h2)"
    by (subst v, simp add: same_chip_def)+
  have rec: "write_words b (Suc n) i data h = write_words b n (i + 4) data ?h2"
    by (simp add: Let_def)
  have "c_buf (view (write_words b n (i + 4) data ?h2)) = take (i + 4) (c_buf (view ?h2))
      @ take (4 * n) (drop (i + 4) data) @ drop (i + 4 + 4 * n) (c_buf (view ?h2))
      \<and> same_chip (view ?h2) (view (write_words b n (i + 4) data ?h2))"
    using Suc.IH [of ?h2 "i + 4"] Suc.prems rest by simp
  then show ?case
    unfolding rec using replace_four [OF _ _ buf] Suc.prems ctl_sizes(1) [OF ctl, of h] rest(2)
    by (auto intro: same_chip_trans)
qed simp

section \<open>Pages and blocks of the flash\<close>

lemma word_count_page: "word_count 0x210 = 132"
  by (simp add: word_count_def)

lemma read_page_spec:
  assumes ctl: "controller b view bs" and "page_sz_phys g = 0x210" "0x210 \<le> length data"
  shows "returns (sfcx_read_page b g data address True h) (\<lambda>(s, d, h').
    d = c_flash (view h) (of_nat address) @ drop 0x210 data \<and> same_chip (view h) (view h'))"
proof -
  let ?h0 = "snd (sfcx_readreg b SFCX_STATUS h)"
  let ?h2 = "sfcx_writereg b SFCX_ADDRESS (of_nat address) (sfcx_writereg b SFCX_STATUS (fst (sfcx_readreg b SFCX_STATUS h)) ?h0)"
  let ?h3 = "sfcx_writereg b SFCX_COMMAND PHY_PAGE_TO_BUF ?h2"
  have v2: "c_flash (view ?h2) = c_flash (view h)" "c_address (view ?h2) = of_nat address" "same_chip (view h) (view ?h2)"
    by (simp_all add: ctl_write [OF ctl] ctl_read [OF ctl] same_chip_def)
  have "view ?h3 = (chip_command bs PHY_PAGE_TO_BUF (view ?h2))\<lparr>c_busy := c_busy (view ?h3)\<rparr>"
    by (rule ctl_command [OF ctl]) simp
  then have v3: "view ?h3 = (view ?h2)\<lparr>c_buf := c_flash (view h) (of_nat address), c_busy := c_busy (view ?h3)\<rparr>"
    by (simp add: chip_command_def command_codes v2)
  obtain s h4 where w: "wait_busy b ?h3 = Some (s, h4)" and v4: "view h4 = (view ?h3)\<lparr>c_busy := 0\<rparr>"
    using wait_busy_returns [OF ctl, of ?h3] by (auto simp: returns_iff)
  let ?h5 = "sfcx_writereg b SFCX_ADDRESS 0 h4"
  have v5: "c_ptr (view ?h5) = 0" "c_buf (view ?h5) = c_flash (view h) (of_nat address)" "same_chip (view h) (view ?h5)"
    unfolding ctl_write [OF ctl] v4 by (subst v3, insert v2(3), simp add: same_chip_def)+
  show ?thesis
    using read_words_spec [OF ctl v5(1), of 132 data] assms(2,3) v5 ctl_sizes(2) [OF ctl, of h "of_nat address"]
      same_chip_trans [OF v5(3)]
    by (simp add: sfcx_read_page_def case_prod_beta Let_def w word_count_page)
qed

lemma wp_bits:
  "(c OR CONFIG_WP_EN) AND CONFIG_WP_EN \<noteq> 0" "(c AND NOT CONFIG_WP_EN) AND CONFIG_WP_EN = 0"
  "(c OR CONFIG_WP_EN) AND NOT CONFIG_WP_EN = c AND NOT CONFIG_WP_EN"
proof -
  have w: "CONFIG_WP_EN = push_bit 3 1"
    by (simp add: CONFIG_WP_EN_def)
  have "bit ((c OR CONFIG_WP_EN) AND CONFIG_WP_EN) 3"
    unfolding w by (simp add: bit_simps)
  then show "(c OR CONFIG_WP_EN) AND CONFIG_WP_EN \<noteq> 0"
    by auto
  show "(c AND NOT CONFIG_WP_EN) AND CONFIG_WP_EN = 0"
    "(c OR CONFIG_WP_EN) AND NOT CONFIG_WP_EN = c AND NOT CONFIG_WP_EN"
    by (rule bit_word_eqI; auto simp: bit_simps)+
qed

text \<open>The common frame of programming and erasing: two unlock commands, then the operation.\<close>

lemma unlocked_command:
  assumes ctl: "controller b view bs"
    and "u \<in> {UNLOCK_CMD_0, UNLOCK_CMD_1}" "u' \<in> {UNLOCK_CMD_0, UNLOCK_CMD_1}" "cmd \<in> {WRITE_PAGE_TO_PHY, BLOCK_ERASE}"
  shows "returns (do { (_, h) \<leftarrow> wait_busy b (sfcx_writereg b SFCX_COMMAND u' (sfcx_writereg b SFCX_COMMAND u h));
      wait_busy b (sfcx_writereg b SFCX_COMMAND cmd h) })
    (\<lambda>(_, h'). view h' = (chip_command bs cmd ((view h)\<lparr>c_unlock := [u', u], c_busy := 0\<rparr>))\<lparr>c_busy := 0\<rparr>)"
proof -
  let ?h1 = "sfcx_writereg b SFCX_COMMAND u h"
  let ?h2 = "sfcx_writereg b SFCX_COMMAND u' ?h1"
  have "view ?h1 = (chip_command bs u (view h))\<lparr>c_busy := c_busy (view ?h1)\<rparr>"
    using assms by (intro ctl_command) auto
  then have v1: "view ?h1 = (view h)\<lparr>c_unlock := take 2 (u # c_unlock (view h)), c_busy := c_busy (view ?h1)\<rparr>"
    using assms(2) by (auto simp: chip_command_def command_codes)
  have "view ?h2 = (chip_command bs u' (view ?h1))\<lparr>c_busy := c_busy (view ?h2)\<rparr>"
    using assms by (intro ctl_command) auto
  then have v2: "view ?h2 = (view ?h1)\<lparr>c_unlock := take 2 (u' # c_unlock (view ?h1)), c_busy := c_busy (view ?h2)\<rparr>"
    using assms(3) by (auto simp: chip_command_def command_codes)
  have v2': "(view ?h2)\<lparr>c_busy := 0\<rparr> = (view h)\<lparr>c_unlock := [u', u], c_busy := 0\<rparr>"
    by (subst v2, subst (1 2) v1) simp
  obtain s h3 where w: "wait_busy b ?h2 = Some (s, h3)" and v3: "view h3 = (view h)\<lparr>c_unlock := [u', u], c_busy := 0\<rparr>"
    using wait_busy_returns [OF ctl, of ?h2] v2' by (auto simp: returns_iff)
  let ?h4 = "sfcx_writereg b SFCX_COMMAND cmd h3"
  have "view ?h4 = (chip_command bs cmd (view h3))\<lparr>c_busy := c_busy (view ?h4)\<rparr>"
    using assms(4) by (intro ctl_command [OF ctl]) auto
  then have v4: "(view ?h4)\<lparr>c_busy := 0\<rparr> = (chip_command bs cmd (view h3))\<lparr>c_busy := 0\<rparr>"
    by (metis (no_types, lifting) chip.update_convs(7) chip.cases)
  show ?thesis
    using wait_busy_returns [OF ctl, of ?h4] v4 v3 by (simp add: w)
qed

lemma unlocked_commandE:
  assumes "controller b view bs"
    and "u \<in> {UNLOCK_CMD_0, UNLOCK_CMD_1}" "u' \<in> {UNLOCK_CMD_0, UNLOCK_CMD_1}" "cmd \<in> {WRITE_PAGE_TO_PHY, BLOCK_ERASE}"
  obtains s h1 s' h2 where "wait_busy b (sfcx_writereg b SFCX_COMMAND u' (sfcx_writereg b SFCX_COMMAND u h)) = Some (s, h1)"
    and "wait_busy b (sfcx_writereg b SFCX_COMMAND cmd h1) = Some (s', h2)"
    and "view h2 = (chip_command bs cmd ((view h)\<lparr>c_unlock := [u', u], c_busy := 0\<rparr>))\<lparr>c_busy := 0\<rparr>"
  using unlocked_command [OF assms, of h] by (auto simp: returns_iff Option.bind_eq_Some_conv)

lemma write_page_spec:
  assumes ctl: "controller b view bs" and "page_sz_phys g = 0x210" "0x210 \<le> length data"
  shows "returns (sfcx_write_page b g data address h) (\<lambda>(s, h').
    c_flash (view h') = (c_flash (view h))(of_nat address :=
      program_page (c_flash (view h) (of_nat address)) (take 0x210 data))
    \<and> c_config (view h') = c_config (view h) AND NOT CONFIG_WP_EN)"
proof -
  let ?h1 = "sfcx_writereg b SFCX_STATUS 0xFF h"
  let ?h2 = "snd (sfcx_readreg b SFCX_CONFIG ?h1)"
  let ?h3 = "sfcx_writereg b SFCX_ADDRESS 0 (sfcx_writereg b SFCX_CONFIG (c_config (view h) OR CONFIG_WP_EN) ?h2)"
  let ?h4 = "sfcx_writereg b SFCX_ADDRESS (of_nat address) (write_words b 132 0 data ?h3)"
  have v3: "view ?h3 = (view h)\<lparr>c_config := c_config (view h) OR CONFIG_WP_EN, c_address := 0, c_ptr := 0\<rparr>"
    by (simp add: ctl_write [OF ctl] ctl_read [OF ctl])
  have "c_buf (view (write_words b 132 0 data ?h3)) = take 0x210 data
      \<and> same_chip (view ?h3) (view (write_words b 132 0 data ?h3))"
    using write_words_spec [OF ctl, of ?h3 0 132 data] assms(3) ctl_sizes(1) [OF ctl, of ?h3] v3 by simp
  then have v4: "c_buf (view ?h4) = take 0x210 data" "c_config (view ?h4) = c_config (view h) OR CONFIG_WP_EN"
    "c_flash (view ?h4) = c_flash (view h)" "c_address (view ?h4) = of_nat address"
    unfolding v3 by (simp_all add: ctl_write [OF ctl] same_chip_def)
  obtain s h5 s' h6 where w5: "wait_busy b (sfcx_writereg b SFCX_COMMAND UNLOCK_CMD_1 (sfcx_writereg b SFCX_COMMAND UNLOCK_CMD_0 ?h4)) = Some (s, h5)"
    and w6: "wait_busy b (sfcx_writereg b SFCX_COMMAND WRITE_PAGE_TO_PHY h5) = Some (s', h6)"
    and v6: "view h6 = (chip_command bs WRITE_PAGE_TO_PHY ((view ?h4)\<lparr>c_unlock := [UNLOCK_CMD_1, UNLOCK_CMD_0], c_busy := 0\<rparr>))\<lparr>c_busy := 0\<rparr>"
    by (rule unlocked_commandE [OF ctl, of UNLOCK_CMD_0 UNLOCK_CMD_1 WRITE_PAGE_TO_PHY ?h4]) simp_all
  have v6': "c_flash (view h6) = (c_flash (view h))(of_nat address :=
      program_page (c_flash (view h) (of_nat address)) (take 0x210 data))"
    "c_config (view h6) = c_config (view h) OR CONFIG_WP_EN"
    unfolding v6 using v4 wp_bits(1) [of "c_config (view h)"] by (simp_all add: chip_command_def command_codes)
  have c: "fst (sfcx_readreg b SFCX_CONFIG ?h1) = c_config (view h)"
    by (simp add: ctl_write [OF ctl] ctl_read [OF ctl])
  show ?thesis
    using v6' by (simp add: sfcx_write_page_def case_prod_beta Let_def assms(2) word_count_page c w5 w6
        ctl_write [OF ctl] ctl_read [OF ctl] wp_bits)
qed

lemma erase_block_spec:
  assumes ctl: "controller b view bs"
  shows "returns (sfcx_erase_block b address h) (\<lambda>(s, h').
    c_flash (view h') = (\<lambda>a. if unat a div bs = unat (of_nat address :: u32) div bs then blank_page else c_flash (view h) a)
    \<and> c_config (view h') = c_config (view h) AND NOT CONFIG_WP_EN)"
proof -
  let ?h1 = "snd (sfcx_readreg b SFCX_CONFIG h)"
  let ?h3 = "sfcx_writereg b SFCX_ADDRESS (of_nat address) (sfcx_writereg b SFCX_STATUS 0xFF
      (sfcx_writereg b SFCX_CONFIG (c_config (view h) OR CONFIG_WP_EN) ?h1))"
  obtain s3 h4 where w4: "wait_busy b ?h3 = Some (s3, h4)" and v4: "view h4 = (view ?h3)\<lparr>c_busy := 0\<rparr>"
    using wait_busy_returns [OF ctl, of ?h3] by (auto simp: returns_iff)
  have v4': "c_config (view h4) = c_config (view h) OR CONFIG_WP_EN" "c_flash (view h4) = c_flash (view h)"
    "c_address (view h4) = of_nat address"
    unfolding v4 by (simp_all add: ctl_write [OF ctl] ctl_read [OF ctl])
  obtain s h5 s' h6 where w5: "wait_busy b (sfcx_writereg b SFCX_COMMAND UNLOCK_CMD_0 (sfcx_writereg b SFCX_COMMAND UNLOCK_CMD_1 h4)) = Some (s, h5)"
    and w6: "wait_busy b (sfcx_writereg b SFCX_COMMAND BLOCK_ERASE h5) = Some (s', h6)"
    and v6: "view h6 = (chip_command bs BLOCK_ERASE ((view h4)\<lparr>c_unlock := [UNLOCK_CMD_0, UNLOCK_CMD_1], c_busy := 0\<rparr>))\<lparr>c_busy := 0\<rparr>"
    by (rule unlocked_commandE [OF ctl, of UNLOCK_CMD_1 UNLOCK_CMD_0 BLOCK_ERASE h4]) simp_all
  have v6': "c_flash (view h6) = (\<lambda>a. if unat a div bs = unat (of_nat address :: u32) div bs then blank_page else c_flash (view h) a)"
    "c_config (view h6) = c_config (view h) OR CONFIG_WP_EN"
    unfolding v6 using v4' wp_bits(1) [of "c_config (view h)"]
    by (simp_all add: chip_command_def command_codes cong: if_cong)
  have c: "fst (sfcx_readreg b SFCX_CONFIG h) = c_config (view h)"
    by (simp add: ctl_read [OF ctl])
  show ?thesis
    using v6' by (simp add: sfcx_erase_block_def case_prod_beta Let_def c w4 w5 w6
        ctl_write [OF ctl] ctl_read [OF ctl] wp_bits)
qed

text \<open>The address of page \<open>q\<close> of the block at \<open>address\<close>, and page \<open>q\<close> of a raw image.\<close>

definition page_at :: "nat \<Rightarrow> nat \<Rightarrow> u32" where
  "page_at address q = of_nat (address + q * 0x200)"

definition image_page :: "u8 list \<Rightarrow> nat \<Rightarrow> u8 list" where
  "image_page data q = take 0x210 (drop (q * 0x210) data)"

lemma read_pages_spec:
  assumes ctl: "controller b view bs" and g: "page_sz_phys g = 0x210" "page_sz g = 0x200"
  shows "(p + n) * 0x210 \<le> length data \<Longrightarrow>
    returns (read_pages b g n p address True status data h) (\<lambda>(s, d, h').
      d = take (p * 0x210) data @ concat (map (\<lambda>q. c_flash (view h) (page_at address q)) [p..<p + n])
          @ drop ((p + n) * 0x210) data \<and> same_chip (view h) (view h'))"
proof (induction n arbitrary: p status data h)
  case (Suc n)
  let ?P = "\<lambda>q. c_flash (view h) (page_at address q)"
  have l: "0x210 \<le> length (drop (p * 0x210) data)"
    using Suc.prems by (simp add: algebra_simps)
  obtain s d h1 where r: "sfcx_read_page b g (drop (p * 0x210) data) (address + p * 0x200) True h = Some (s, d, h1)"
    and d: "d = ?P p @ drop 0x210 (drop (p * 0x210) data)" and sc: "same_chip (view h) (view h1)"
    using read_page_spec [OF ctl g(1) l, of "address + p * 0x200" h] unfolding page_at_def
    by (rule returnsE) auto
  let ?d = "take (p * 0x210) data @ d"
  have len: "length (?P p) = 0x210"
    by (rule ctl_sizes(2) [OF ctl])
  have t: "take ((p + 1) * 0x210) ?d = take (p * 0x210) data @ ?P p"
    and dr: "drop ((p + 1 + n) * 0x210) ?d = drop ((p + Suc n) * 0x210) data"
    using Suc.prems len by (simp_all add: d algebra_simps)
  have "returns (read_pages b g n (p + 1) address True (status OR s) ?d h1) (\<lambda>(s, d', h').
      d' = take ((p + 1) * 0x210) ?d @ concat (map (\<lambda>q. c_flash (view h1) (page_at address q)) [p + 1..<p + 1 + n])
          @ drop ((p + 1 + n) * 0x210) ?d \<and> same_chip (view h1) (view h'))"
    using Suc.prems len by (intro Suc.IH) (simp add: d)
  moreover have "[p..<p + Suc n] = p # [p + 1..<p + 1 + n]"
    by (simp add: upt_conv_Cons del: upt_Suc)
  ultimately show ?case
    using sc unfolding t dr
    by (auto simp: g r same_chip_def simp del: upt_Suc elim!: returns_mono)
qed simp

text \<open>The status of a block collects the reading errors of its pages.\<close>

lemma or_and_zero: "(x OR y) AND m = 0 \<longleftrightarrow> x AND m = 0 \<and> y AND m = (0 :: u32)"
  unfolding bit.conj_disj_distrib2 or_eq_0_iff ..

lemma read_page_status:
  assumes "reads_report b faulty" "sfcx_read_page b g data address True h = Some (s, d, h')"
  shows "(s AND (STATUS_BB_ER OR STATUS_ECC_ER) \<noteq> 0) = faulty (of_nat address)"
proof -
  obtain h1 h2 where "wait_busy b (sfcx_writereg b SFCX_COMMAND PHY_PAGE_TO_BUF
      (sfcx_writereg b SFCX_ADDRESS (of_nat address) h1)) = Some (s, h2)"
    using assms(2) by (auto simp: sfcx_read_page_def Let_def case_prod_beta split: bind_splits)
  then show ?thesis
    using assms(1) unfolding reads_report_def by blast
qed

lemma read_pages_status:
  assumes "reads_report b faulty" "page_sz g = 0x200"
  shows "read_pages b g n p address True status data h = Some (s, d, h') \<Longrightarrow>
    (s AND (STATUS_BB_ER OR STATUS_ECC_ER) \<noteq> 0) =
      (status AND (STATUS_BB_ER OR STATUS_ECC_ER) \<noteq> 0 \<or> (\<exists>q \<in> {p..<p + n}. faulty (page_at address q)))"
proof (induction n arbitrary: p status data h)
  case (Suc n)
  obtain s1 d1 h1 data1 where r: "sfcx_read_page b g (drop (p * page_sz_phys g) data) (address + p * 0x200) True h = Some (s1, d1, h1)"
    and rest: "read_pages b g n (p + 1) address True (status OR s1) data1 h1 = Some (s, d, h')"
    using Suc.prems assms(2) by (auto simp: Let_def split: bind_splits)
  have "(s1 AND (STATUS_BB_ER OR STATUS_ECC_ER) \<noteq> 0) = faulty (page_at address p)"
    using read_page_status [OF assms(1) r] by (simp add: page_at_def)
  moreover have "{p..<p + Suc n} = insert p {p + 1..<p + 1 + n}"
    by auto
  ultimately show ?case
    using Suc.IH [OF rest] by (simp add: or_and_zero)
qed simp

lemma read_block_status:
  assumes "reads_report b faulty" "page_sz g = 0x200" "sfcx_read_block b g data address True h = Some (s, d, h')"
  shows "(s AND (STATUS_BB_ER OR STATUS_ECC_ER) = 0) = (\<forall>q < pages_in_block g. \<not> faulty (page_at address q))"
  using read_pages_status [OF assms(1,2) assms(3) [unfolded sfcx_read_block_def]] by auto

lemma read_block_spec:
  assumes ctl: "controller b view bs" and g: "page_sz_phys g = 0x210" "page_sz g = 0x200"
    and "length data = pages_in_block g * 0x210"
  shows "returns (sfcx_read_block b g data address True h) (\<lambda>(s, d, h').
      d = concat (map (\<lambda>q. c_flash (view h) (page_at address q)) [0..<pages_in_block g]) \<and> same_chip (view h) (view h'))"
  using read_pages_spec [OF ctl g, of 0 "pages_in_block g" data address 0 h] assms(4)
  by (simp add: sfcx_read_block_def)

lemma program_blank:
  assumes "length d = 0x210"
  shows "program_page blank_page d = d"
proof -
  have "0xFF AND x = x" for x :: u8
  proof -
    have "(0xFF :: u8) = - 1" by simp
    then show ?thesis by (simp only: and.left_neutral)
  qed
  then show ?thesis
    using assms by (intro nth_equalityI) (simp_all add: program_page_def blank_page_def)
qed

lemma unat_page_at:
  "address + q * 0x200 < 2 ^ 32 \<Longrightarrow> unat (page_at address q) = address + q * 0x200"
  unfolding page_at_def unsigned_of_nat by (simp add: take_bit_nat_eq_self)

lemma page_at_inj:
  assumes "page_at address q = page_at address q'" "address + q * 0x200 < 2 ^ 32" "address + q' * 0x200 < 2 ^ 32"
  shows "q = q'"
  using arg_cong [OF assms(1), of unat] unfolding unat_page_at [OF assms(2)] unat_page_at [OF assms(3)] by linarith

lemma write_pages_spec:
  assumes ctl: "controller b view bs" and g: "page_sz_phys g = 0x210" "page_sz g = 0x200"
  shows "(p + n) * 0x210 \<le> length data \<Longrightarrow> address + (p + n) * 0x200 \<le> 2 ^ 32 \<Longrightarrow>
    c_config (view h) AND CONFIG_WP_EN = 0 \<Longrightarrow> (\<forall>q \<in> {p..<p + n}. c_flash (view h) (page_at address q) = blank_page) \<Longrightarrow>
    returns (write_pages b g n p address status data h) (\<lambda>(s, h').
      (\<forall>q \<in> {p..<p + n}. c_flash (view h') (page_at address q) = image_page data q)
    \<and> (\<forall>a. (\<forall>q \<in> {p..<p + n}. a \<noteq> page_at address q) \<longrightarrow> c_flash (view h') a = c_flash (view h) a)
    \<and> c_config (view h') AND CONFIG_WP_EN = 0)"
proof (induction n arbitrary: p status h)
  case (Suc n)
  have l: "0x210 \<le> length (drop (p * 0x210) data)"
    using Suc.prems(1) by (simp add: algebra_simps)
  obtain s h1 where w: "sfcx_write_page b g (drop (p * 0x210) data) (address + p * 0x200) h = Some (s, h1)"
    and f: "c_flash (view h1) = (c_flash (view h))(page_at address p :=
        program_page (c_flash (view h) (page_at address p)) (image_page data p))"
    and c: "c_config (view h1) = c_config (view h) AND NOT CONFIG_WP_EN"
    using write_page_spec [OF ctl g(1) l, of "address + p * 0x200" h] unfolding page_at_def image_page_def
    by (rule returnsE) auto
  have f': "c_flash (view h1) = (c_flash (view h))(page_at address p := image_page data p)"
    using Suc.prems(1,4) by (simp add: f program_blank image_page_def)
  have other: "page_at address q \<noteq> page_at address p" if "q \<in> {p + 1..<p + 1 + n}" for q
  proof
    assume "page_at address q = page_at address p"
    moreover have "address + q * 0x200 < 2 ^ 32" "address + p * 0x200 < 2 ^ 32"
      using that Suc.prems(2) by simp_all
    ultimately have "q = p" by (rule page_at_inj)
    then show False using that by simp
  qed
  have "returns (write_pages b g n (p + 1) address (status OR s) data h1) (\<lambda>(s, h').
      (\<forall>q \<in> {p + 1..<p + 1 + n}. c_flash (view h') (page_at address q) = image_page data q)
    \<and> (\<forall>a. (\<forall>q \<in> {p + 1..<p + 1 + n}. a \<noteq> page_at address q) \<longrightarrow> c_flash (view h') a = c_flash (view h1) a)
    \<and> c_config (view h') AND CONFIG_WP_EN = 0)"
  proof (rule Suc.IH)
    show "(p + 1 + n) * 0x210 \<le> length data" "address + (p + 1 + n) * 0x200 \<le> 2 ^ 32"
      using Suc.prems(1,2) by simp_all
    show "c_config (view h1) AND CONFIG_WP_EN = 0"
      unfolding c by (rule wp_bits(2))
    show "\<forall>q \<in> {p + 1..<p + 1 + n}. c_flash (view h1) (page_at address q) = blank_page"
      using other Suc.prems(4) by (simp add: f')
  qed
  then show ?case
  proof (rule returnsE)
    fix x
    assume x: "write_pages b g n (p + 1) address (status OR s) data h1 = Some x"
      and px: "case x of (s, h') \<Rightarrow> (\<forall>q \<in> {p + 1..<p + 1 + n}. c_flash (view h') (page_at address q) = image_page data q)
        \<and> (\<forall>a. (\<forall>q \<in> {p + 1..<p + 1 + n}. a \<noteq> page_at address q) \<longrightarrow> c_flash (view h') a = c_flash (view h1) a)
        \<and> c_config (view h') AND CONFIG_WP_EN = 0"
    obtain s' h' where xs: "x = (s', h')" by fastforce
    have "c_flash (view h') (page_at address p) = c_flash (view h1) (page_at address p)"
      using px other [THEN not_sym] unfolding xs prod.case by blast
    then have "c_flash (view h') (page_at address p) = image_page data p"
      by (simp add: f')
    moreover have "{p..<p + Suc n} = insert p {p + 1..<p + 1 + n}"
      by auto
    ultimately show ?thesis
      using px x w unfolding xs prod.case by (simp add: g f')
  qed
qed simp

end
