(* ===== verification/Nand_Flash.thy ===== *)
theory Nand_Flash
  imports Nand_Device
begin

text \<open>
  Flashing an image, end to end: every block of the device that the image covers holds its part of the image
  afterwards if it was good, and is exactly what it was if it was marked bad or could not be read.
\<close>

unbundle bit_operations_syntax

section \<open>One block\<close>

text \<open>\<open>read\<close> on a regular file, seen as the bytes that are still to be read.\<close>

definition regular_file :: "u8 list file_ops \<Rightarrow> bool" where
  "regular_file fo \<longleftrightarrow> (\<forall>n f. f_read fo n f = (int (length (take n f)), take n f, drop n f))"

definition second_page :: "sfc \<Rightarrow> nat" where
  "second_page g = (if meta_type g = META_TYPE_2 then 8 else 1)"

definition marked_good :: "sfc \<Rightarrow> (u32 \<Rightarrow> u8 list) \<Rightarrow> nat \<Rightarrow> bool" where
  "marked_good g flash i \<longleftrightarrow> sfcx_is_pagevalid g (flash (page_at (i * block_sz g) 0)) \<and>
     sfcx_is_pagevalid g (flash (page_at (i * block_sz g) (second_page g)))"

text \<open>A good block: neither mark of a bad block is set, and no page of it has a reading error.\<close>

definition good_block :: "sfc \<Rightarrow> (u32 \<Rightarrow> bool) \<Rightarrow> (u32 \<Rightarrow> u8 list) \<Rightarrow> nat \<Rightarrow> bool" where
  "good_block g faulty flash i \<longleftrightarrow> marked_good g flash i \<and> (\<forall>q < pages_in_block g. \<not> faulty (page_at (i * block_sz g) q))"

text \<open>What flashing block \<open>i\<close> with the raw block \<open>d\<close> does to the flash.\<close>

definition block_flashed ::
    "sfc \<Rightarrow> (u32 \<Rightarrow> bool) \<Rightarrow> u8 list \<Rightarrow> nat \<Rightarrow> (u32 \<Rightarrow> u8 list) \<Rightarrow> (u32 \<Rightarrow> u8 list) \<Rightarrow> bool" where
  "block_flashed g faulty d i flash flash' \<longleftrightarrow>
     (if good_block g faulty flash i
      then (\<forall>q < pages_in_block g. flash' (page_at (i * block_sz g) q) = image_page d q) \<and>
        (\<forall>a. unat a div block_sz g \<noteq> i \<longrightarrow> flash' a = flash a)
      else flash' = flash)"

lemma geometry_facts:
  assumes "geometry_ok g"
  shows "page_sz g = 0x200" "page_sz_phys g = 0x210" "block_sz g = pages_in_block g * 0x200"
    "block_sz_phys g = pages_in_block g * 0x210" "0 < pages_in_block g" "0 < block_sz g"
    "second_page g < pages_in_block g"
  using assms by (auto simp: geometry_ok_def MAX_PAGE_SZ_def second_page_def)

lemma page_in_block:
  assumes "geometry_ok g" "Suc i * block_sz g \<le> 2 ^ 32" "q < pages_in_block g"
  shows "unat (page_at (i * block_sz g) q) = i * block_sz g + q * 0x200"
    and "unat (page_at (i * block_sz g) q) div block_sz g = i"
proof -
  have q: "q * 0x200 < block_sz g"
    using assms(3) geometry_facts(3) [OF assms(1)] by simp
  then have "i * block_sz g + q * 0x200 < 2 ^ 32"
    using assms(2) by simp
  then show u: "unat (page_at (i * block_sz g) q) = i * block_sz g + q * 0x200"
    by (rule unat_page_at)
  show "unat (page_at (i * block_sz g) q) div block_sz g = i"
    unfolding u using q by (intro div_nat_eqI) (simp_all add: algebra_simps)
qed

lemma pagevalid_append:
  assumes "page_sz g = 0x200" "0x210 \<le> length d"
  shows "sfcx_is_pagevalid g (d @ e) = sfcx_is_pagevalid g d"
  using assms by (cases "meta_type g") (simp_all add: sfcx_is_pagevalid_def valid_offset_def nth_append)

lemma drop_concat_pages:
  assumes "\<And>q. length (P q) = (k :: nat)" "m \<le> n"
  shows "drop (m * k) (concat (map P [0..<n])) = concat (map P [m..<n])"
proof -
  have l: "length (concat (map P [0..<m])) = m * k" for m
    by (induction m) (simp_all add: assms(1))
  have "[0..<n] = [0..<m] @ [m..<n]"
    using assms(2) upt_add_eq_append [of 0 m "n - m"] by simp
  then show ?thesis by (simp add: l)
qed

lemma reflash_block:
  assumes ctl: "controller b view (block_sz g)" and g: "geometry_ok g" and i: "Suc i * block_sz g \<le> 2 ^ 32"
    and data: "length data = block_sz_phys g"
  obtains s h1 s' h2 where "sfcx_erase_block b (i * block_sz g) h = Some (s, h1)"
    and "sfcx_write_block b g data (i * block_sz g) h1 = Some (s', h2)"
    and "\<forall>q < pages_in_block g. c_flash (view h2) (page_at (i * block_sz g) q) = image_page data q"
    and "\<forall>a. unat a div block_sz g \<noteq> i \<longrightarrow> c_flash (view h2) a = c_flash (view h) a"
    and "c_config (view h2) AND CONFIG_WP_EN = 0"
proof -
  note gf = geometry_facts [OF g]
  let ?a = "i * block_sz g"
  have "unat (of_nat ?a :: u32) div block_sz g = i"
    using page_in_block(2) [OF g i gf(5)] by (simp add: page_at_def)
  then obtain s h1 where e: "sfcx_erase_block b ?a h = Some (s, h1)"
    and f1: "\<And>a. c_flash (view h1) a = (if unat a div block_sz g = i then blank_page else c_flash (view h) a)"
    and c1: "c_config (view h1) = c_config (view h) AND NOT CONFIG_WP_EN"
    using erase_block_spec [OF ctl, of ?a h] by (auto elim!: returnsE)
  have blank: "\<forall>q \<in> {0..<0 + pages_in_block g}. c_flash (view h1) (page_at ?a q) = blank_page"
    using page_in_block(2) [OF g i] by (simp add: f1)
  have len: "(0 + pages_in_block g) * 0x210 \<le> length data" "?a + (0 + pages_in_block g) * 0x200 \<le> 2 ^ 32"
    using data i gf(3,4) by simp_all
  have wp: "c_config (view h1) AND CONFIG_WP_EN = 0"
    unfolding c1 by (rule wp_bits(2))
  obtain s' h2 where w: "write_pages b g (pages_in_block g) 0 ?a 0 data h1 = Some (s', h2)"
    and p: "\<forall>q \<in> {0..<0 + pages_in_block g}. c_flash (view h2) (page_at ?a q) = image_page data q"
    and o: "\<forall>a. (\<forall>q \<in> {0..<0 + pages_in_block g}. a \<noteq> page_at ?a q) \<longrightarrow> c_flash (view h2) a = c_flash (view h1) a"
    and c2: "c_config (view h2) AND CONFIG_WP_EN = 0"
    by (rule returnsE [OF write_pages_spec [OF ctl gf(2,1) len wp blank, of 0]]) auto
  have "c_flash (view h2) a = c_flash (view h) a" if "unat a div block_sz g \<noteq> i" for a
  proof -
    have "\<forall>q \<in> {0..<0 + pages_in_block g}. a \<noteq> page_at ?a q"
      using page_in_block(2) [OF g i] that by auto
    then have "c_flash (view h2) a = c_flash (view h1) a"
      using o by blast
    then show ?thesis using that by (simp add: f1)
  qed
  then show thesis
    using that [OF e _ _ _ c2] w p by (simp add: sfcx_write_block_def)
qed

lemma flash_one_spec:
  assumes ctl: "controller b view (block_sz g)" and rr: "reads_report b faulty"
    and g: "geometry_ok g" and fo: "regular_file fo" and i: "Suc i * block_sz g \<le> 2 ^ 32"
    and buf: "length buf = block_sz_phys g" and f: "block_sz_phys g \<le> length f"
    and wp: "c_config (view h) AND CONFIG_WP_EN = 0"
  shows "returns (flash_one b fo g (second_page g * 0x210) i (buf, h, f)) (\<lambda>r. \<exists>buf' h'.
    r = Inr (buf', h', drop (block_sz_phys g) f) \<and> length buf' = block_sz_phys g
    \<and> block_flashed g faulty (take (block_sz_phys g) f) i (c_flash (view h)) (c_flash (view h'))
    \<and> c_config (view h') AND CONFIG_WP_EN = 0)"
proof -
  note gf = geometry_facts [OF g]
  let ?n = "pages_in_block g"
  let ?a = "i * block_sz g"
  let ?P = "\<lambda>q. c_flash (view h) (page_at ?a q)"
  let ?d = "take (block_sz_phys g) f"
  obtain s d h1 where r: "sfcx_read_block b g buf ?a True h = Some (s, d, h1)"
    and d: "d = concat (map ?P [0..<?n])" and sc: "same_chip (view h) (view h1)"
    using read_block_spec [OF ctl gf(2,1), of buf ?a h] buf gf(4) by (auto elim!: returnsE)
  have len: "length (?P q) = 0x210" for q
    by (rule ctl_sizes(2) [OF ctl])
  have ld: "length d = block_sz_phys g"
    by (simp add: d gf(4) length_concat o_def len sum_list_triv)
  have dr: "drop (m * 0x210) d = ?P m @ concat (map ?P [Suc m..<?n])" if "m < ?n" for m
    using drop_concat_pages [of ?P "0x210" m ?n, OF len] that by (simp add: d upt_conv_Cons)
  have v0: "sfcx_is_pagevalid g d = sfcx_is_pagevalid g (?P 0)"
    using dr [of 0] gf(5) by (simp add: pagevalid_append gf(1) len)
  have v1: "sfcx_is_pagevalid g (drop (second_page g * 0x210) d) = sfcx_is_pagevalid g (?P (second_page g))"
    using dr [OF gf(7)] by (simp add: pagevalid_append gf(1) len)
  have rd: "f_read fo (?n * page_sz_phys g) f = (int (length ?d), ?d, drop (block_sz_phys g) f)"
    using fo by (simp add: regular_file_def gf)
  have pre: "drop (block_sz_phys g) d = []"
    using ld by simp
  obtain s2 h2 s3 h3 where e: "sfcx_erase_block b ?a h1 = Some (s2, h2)" "sfcx_write_block b g ?d ?a h2 = Some (s3, h3)"
    and p: "\<forall>q < ?n. c_flash (view h3) (page_at ?a q) = image_page ?d q"
    and o: "\<forall>a. unat a div block_sz g \<noteq> i \<longrightarrow> c_flash (view h3) a = c_flash (view h1) a"
    and c3: "c_config (view h3) AND CONFIG_WP_EN = 0"
    by (rule reflash_block [OF ctl g i, of ?d h1]) (simp add: f)
  have bb: "(x OR STATUS_BB_ER) AND (STATUS_BB_ER OR STATUS_ECC_ER) \<noteq> 0" for x
  proof -
    have "bit ((x OR push_bit 6 1) AND (push_bit 6 1 OR STATUS_ECC_ER)) 6"
      by (simp add: bit_simps)
    then show ?thesis by (auto simp: STATUS_BB_ER_def)
  qed
  have st: "(s AND (STATUS_BB_ER OR STATUS_ECC_ER) = 0) = (\<forall>q < ?n. \<not> faulty (page_at ?a q))"
    by (rule read_block_status [OF rr gf(1) r])
  have same: "\<not> good_block g faulty (c_flash (view h)) i \<Longrightarrow> block_flashed g faulty ?d i (c_flash (view h)) (c_flash (view h1))"
    "c_config (view h1) AND CONFIG_WP_EN = 0"
    using sc wp by (simp_all add: block_flashed_def same_chip_def)
  have new: "good_block g faulty (c_flash (view h)) i \<Longrightarrow> block_flashed g faulty ?d i (c_flash (view h)) (c_flash (view h3))"
    using p o sc by (simp add: block_flashed_def same_chip_def)
  show ?thesis
  proof (cases "good_block g faulty (c_flash (view h)) i")
    case True
    then have "sfcx_is_pagevalid g d" "sfcx_is_pagevalid g (drop (second_page g * 0x210) d)"
      "s AND (STATUS_BB_ER OR STATUS_ECC_ER) = 0"
      unfolding v0 v1 st by (simp_all add: good_block_def marked_good_def)
    then show ?thesis
      using new [OF True] c3 f by (simp add: flash_one_def r rd pre e Let_def)
  next
    case False
    then have "\<not> sfcx_is_pagevalid g d \<or> \<not> sfcx_is_pagevalid g (drop (second_page g * 0x210) d) \<or>
        s AND (STATUS_BB_ER OR STATUS_ECC_ER) \<noteq> 0"
      unfolding v0 v1 using st by (auto simp: good_block_def marked_good_def)
    then show ?thesis
      using same(1) [OF False] same(2) f by (auto simp: flash_one_def r rd pre bb Let_def)
  qed
qed

section \<open>The whole image\<close>

text \<open>Blocks \<open>i\<close> to \<open>i + n - 1\<close> are flashed from the raw image \<open>f\<close>, whose first block is for block \<open>i\<close>.\<close>

definition blocks_flashed ::
    "sfc \<Rightarrow> (u32 \<Rightarrow> bool) \<Rightarrow> u8 list \<Rightarrow> nat \<Rightarrow> nat \<Rightarrow> (u32 \<Rightarrow> u8 list) \<Rightarrow> (u32 \<Rightarrow> u8 list) \<Rightarrow> bool" where
  "blocks_flashed g faulty f i n flash flash' \<longleftrightarrow>
     (\<forall>j < n. let d = take (block_sz_phys g) (drop (j * block_sz_phys g) f); a = (i + j) * block_sz g in
        \<forall>q < pages_in_block g. flash' (page_at a q) =
          (if good_block g faulty flash (i + j) then image_page d q else flash (page_at a q))) \<and>
     (\<forall>a. unat a div block_sz g \<notin> {i..<i + n} \<longrightarrow> flash' a = flash a)"

lemma blocks_flashed_0: "blocks_flashed g faulty f i 0 flash flash"
  by (simp add: blocks_flashed_def)

lemma block_flashed_other:
  assumes "block_flashed g faulty d i flash flash'" "unat a div block_sz g \<noteq> i"
  shows "flash' a = flash a"
  using assms by (auto simp: block_flashed_def split: if_splits)

lemma blocks_flashed_Suc:
  assumes g: "geometry_ok g" and i: "(i + Suc n) * block_sz g \<le> 2 ^ 32"
    and one: "block_flashed g faulty (take (block_sz_phys g) f) i flash flash1"
    and rest: "blocks_flashed g faulty (drop (block_sz_phys g) f) (Suc i) n flash1 flash2"
  shows "blocks_flashed g faulty f i (Suc n) flash flash2"
proof -
  have blk: "unat (page_at (k * block_sz g) q) div block_sz g = k" if "k < i + Suc n" "q < pages_in_block g" for k q
    using page_in_block(2) [OF g _ that(2), of k] that(1) i mult_le_mono1 [of "Suc k" "i + Suc n" "block_sz g"]
    by linarith
  have outer: "flash2 a = flash1 a" if "unat a div block_sz g \<notin> {Suc i..<Suc i + n}" for a
    using rest that by (simp add: blocks_flashed_def)
  have first: "\<forall>q < pages_in_block g. flash2 (page_at (i * block_sz g) q) = flash1 (page_at (i * block_sz g) q)"
    using blk [of i] outer by simp
  have later: "flash1 (page_at (k * block_sz g) q) = flash (page_at (k * block_sz g) q)"
    if "i < k" "k < i + Suc n" "q < pages_in_block g" for k q
    using block_flashed_other [OF one] blk [OF that(2,3)] that(1) by simp
  have mg: "good_block g faulty flash1 k = good_block g faulty flash k" if "i < k" "k < i + Suc n" for k
    using later [OF that] geometry_facts(5,7) [OF g] by (simp add: good_block_def marked_good_def)
  show ?thesis
    unfolding blocks_flashed_def
  proof (intro conjI allI impI)
    fix j assume j: "j < Suc n"
    let ?a = "(i + j) * block_sz g"
    show "let d = take (block_sz_phys g) (drop (j * block_sz_phys g) f); a = ?a in
        \<forall>q < pages_in_block g. flash2 (page_at a q) =
          (if good_block g faulty flash (i + j) then image_page d q else flash (page_at a q))"
    proof (cases j)
      case 0
      then show ?thesis
        using first one by (auto simp: block_flashed_def split: if_splits)
    next
      case (Suc k)
      then have "k < n" using j by simp
      then have R: "let d = take (block_sz_phys g) (drop (k * block_sz_phys g) (drop (block_sz_phys g) f));
            a = (Suc i + k) * block_sz g in
          \<forall>q < pages_in_block g. flash2 (page_at a q) =
            (if good_block g faulty flash1 (Suc i + k) then image_page d q else flash1 (page_at a q))"
        using rest unfolding blocks_flashed_def by blast
      have ij: "Suc i + k = i + j" and kj: "k * block_sz_phys g + block_sz_phys g = j * block_sz_phys g"
        using Suc by simp_all
      have "i < i + j" "i + j < i + Suc n"
        using Suc j by simp_all
      then show ?thesis
        using R later [of "i + j"] mg [of "i + j"] unfolding drop_drop ij kj by (simp add: Let_def)
    qed
  next
    fix a :: u32 assume a: "unat a div block_sz g \<notin> {i..<i + Suc n}"
    then have "flash2 a = flash1 a" by (intro outer) auto
    moreover have "flash1 a = flash a"
      using a by (intro block_flashed_other [OF one]) auto
    ultimately show "flash2 a = flash a" by simp
  qed
qed

lemma flash_blocks_spec:
  assumes ctl: "controller b view (block_sz g)" and rr: "reads_report b faulty" and g: "geometry_ok g" and fo: "regular_file fo"
  shows "(i + n) * block_sz g \<le> 2 ^ 32 \<Longrightarrow> length buf = block_sz_phys g \<Longrightarrow> n * block_sz_phys g \<le> length f \<Longrightarrow>
    c_config (view h) AND CONFIG_WP_EN = 0 \<Longrightarrow>
    returns (flash_blocks b fo g (second_page g * 0x210) n i (buf, h, f)) (\<lambda>(ok, buf', h', f').
      ok \<and> blocks_flashed g faulty f i n (c_flash (view h)) (c_flash (view h')) \<and> c_config (view h') AND CONFIG_WP_EN = 0)"
proof (induction n arbitrary: i buf h f)
  case 0
  then show ?case by (simp add: blocks_flashed_0)
next
  case (Suc n)
  have i: "Suc i * block_sz g \<le> 2 ^ 32"
    using Suc.prems(1) mult_le_mono1 [of "Suc i" "i + Suc n" "block_sz g"] by linarith
  have f: "block_sz_phys g \<le> length f" "n * block_sz_phys g \<le> length (drop (block_sz_phys g) f)"
    using Suc.prems(3) by simp_all
  obtain buf' h' where r: "flash_one b fo g (second_page g * 0x210) i (buf, h, f) = Some (Inr (buf', h', drop (block_sz_phys g) f))"
    and b': "length buf' = block_sz_phys g"
    and one: "block_flashed g faulty (take (block_sz_phys g) f) i (c_flash (view h)) (c_flash (view h'))"
    and wp: "c_config (view h') AND CONFIG_WP_EN = 0"
    by (rule returnsE [OF flash_one_spec [OF ctl rr g fo i Suc.prems(2) f(1) Suc.prems(4)]]) auto
  have "(Suc i + n) * block_sz g \<le> 2 ^ 32"
    using Suc.prems(1) by simp
  then have "returns (flash_blocks b fo g (second_page g * 0x210) n (Suc i) (buf', h', drop (block_sz_phys g) f)) (\<lambda>(ok, buf'', h'', f').
      ok \<and> blocks_flashed g faulty (drop (block_sz_phys g) f) (Suc i) n (c_flash (view h')) (c_flash (view h''))
      \<and> c_config (view h'') AND CONFIG_WP_EN = 0)"
    by (rule Suc.IH [OF _ b' f(2) wp])
  then show ?case
    using blocks_flashed_Suc [OF g Suc.prems(1) one] by (auto simp: r elim!: returns_mono)
qed

section \<open>A controller that meets its specification\<close>

text \<open>A simulated chip, ill-sized states read as blank: the hypothesis \<open>controller\<close> can hold.\<close>

definition fit_page :: "u8 list \<Rightarrow> u8 list" where
  "fit_page xs = (if length xs = 0x210 then xs else blank_page)"

definition sim_view :: "chip \<Rightarrow> chip" where
  "sim_view c = c\<lparr>c_buf := fit_page (c_buf c), c_flash := fit_page \<circ> c_flash c\<rparr>"

text \<open>The first page of block 2 has a correction error.\<close>

definition sim_faulty :: "u32 \<Rightarrow> bool" where
  "sim_faulty a \<longleftrightarrow> a = 0x8000"

definition sim_status :: "chip \<Rightarrow> u32" where
  "sim_status c = (if c_busy c \<noteq> 0 then 1 else if sim_faulty (c_address c) then 0x204 else 0x200)"

definition sim_read :: "u32 \<Rightarrow> chip \<Rightarrow> u32 \<times> chip" where
  "sim_read a c = (
     if a = 0xea00c004 then (bswap32 (sim_status c), (sim_view c)\<lparr>c_busy := c_busy c - 1\<rparr>)
     else if a = 0xea00c000 then (bswap32 (c_config c), c)
     else if a = 0xea00c010 then (bswap32 (c_data c), c) else (0, c))"

definition sim_write :: "u32 \<Rightarrow> u32 \<Rightarrow> chip \<Rightarrow> chip" where
  "sim_write a v c = (let x = bswap32 v; c = sim_view c in
     if a = 0xea00c000 then c\<lparr>c_config := x\<rparr>
     else if a = 0xea00c00c then c\<lparr>c_address := x, c_ptr := if x = 0 then 0 else c_ptr c\<rparr>
     else if a = 0xea00c010 then c\<lparr>c_data := x\<rparr>
     else if a = 0xea00c008 then (chip_command 0x4000 x c)\<lparr>c_busy := 3\<rparr> else c)"

definition sim_bus :: "chip bus" where
  "sim_bus = \<lparr>mmio_read = sim_read, mmio_write = sim_write\<rparr>"

lemma bswap32_bswap32: "bswap32 (bswap32 x) = x" (is "?l = _")
proof (rule bit_word_eqI)
  fix n assume n: "n < LENGTH(32)"
  have m: "(0xFF :: u32) = mask 8" "(0xFF00 :: u32) = push_bit 8 (mask 8)" "(0xFF0000 :: u32) = push_bit 16 (mask 8)"
    by (simp_all add: mask_eq_exp_minus_1)
  have "n < 8 \<or> (\<exists>k < 8. n = 8 + k) \<or> (\<exists>k < 8. n = 16 + k) \<or> (\<exists>k < 8. n = 24 + k)"
    using n by simp presburger
  moreover have "\<not> bit x (32 + k)" for k
    using bit_imp_le_length [of x "32 + k"] by auto
  ultimately show "bit ?l n = bit x n"
    unfolding bswap32_def m
    by (elim disjE exE conjE) (simp_all add: bit_simps)
qed

lemma length_fit_page [simp]: "length (fit_page xs) = 0x210"
  by (simp add: fit_page_def blank_page_def)

lemma fit_page_id: "length xs = 0x210 \<Longrightarrow> fit_page xs = xs"
  by (simp add: fit_page_def)

lemma sim_view_sized:
  assumes "length (c_buf c) = 0x210" "\<And>a. length (c_flash c a) = 0x210"
  shows "sim_view c = c"
proof -
  have "fit_page \<circ> c_flash c = c_flash c"
    using assms(2) by (auto simp: fit_page_id)
  then show ?thesis
    using assms(1) by (simp add: sim_view_def fit_page_id)
qed

lemma sim_view_size [simp]:
  "length (c_buf (sim_view c)) = 0x210" "length (c_flash (sim_view c) a) = 0x210"
  by (simp_all add: sim_view_def)

lemma length_write_word:
  assumes "length buf = 0x210"
  shows "length (take 0x210 (take i buf @ le_bytes x @ drop (i + 4) buf)) = 0x210"
proof -
  have "length (le_bytes x) = 4"
    by (simp add: le_bytes_def)
  then have "0x210 \<le> length (take i buf @ le_bytes x @ drop (i + 4) buf)"
    using assms unfolding length_append length_take length_drop by linarith
  then show ?thesis
    by (simp only: length_take min_absorb2)
qed

lemma length_program_page: "length d = 0x210 \<Longrightarrow> length e = 0x210 \<Longrightarrow> length (program_page d e) = 0x210"
  by (simp add: program_page_def)

lemma length_blank_page: "length blank_page = 0x210"
  by (simp add: blank_page_def)

lemma if_both: "P x \<Longrightarrow> P y \<Longrightarrow> P (if c then x else y)"
  by simp

lemma sim_command_size:
  assumes "length (c_buf c) = 0x210" "\<And>a. length (c_flash c a) = 0x210"
  shows "length (c_buf (chip_command bs x c)) = 0x210 \<and> (\<forall>a. length (c_flash (chip_command bs x c) a) = 0x210)"
  unfolding chip_command_def
  by (intro if_both [where P = "\<lambda>c. length (c_buf c) = 0x210 \<and> (\<forall>a. length (c_flash c a) = 0x210)"])
     (simp_all add: assms length_write_word length_program_page length_blank_page del: length_take take_append)

lemma sim_view_idem: "sim_view (sim_view c) = sim_view c"
  by (rule sim_view_sized) simp_all

lemma sim_reads:
  "sfcx_readreg sim_bus SFCX_STATUS c = (sim_status c, (sim_view c)\<lparr>c_busy := c_busy c - 1\<rparr>)"
  "sfcx_readreg sim_bus SFCX_CONFIG c = (c_config c, c)" "sfcx_readreg sim_bus SFCX_DATA c = (c_data c, c)"
  by (simp_all add: sfcx_readreg_def sim_bus_def sim_read_def bswap32_bswap32 SFCX_STATUS_def SFCX_CONFIG_def SFCX_DATA_def)

lemma sim_writes:
  "sfcx_writereg sim_bus SFCX_STATUS x c = sim_view c"
  "sfcx_writereg sim_bus SFCX_CONFIG x c = (sim_view c)\<lparr>c_config := x\<rparr>"
  "sfcx_writereg sim_bus SFCX_DATA x c = (sim_view c)\<lparr>c_data := x\<rparr>"
  "sfcx_writereg sim_bus SFCX_ADDRESS x c = (sim_view c)\<lparr>c_address := x, c_ptr := if x = 0 then 0 else c_ptr (sim_view c)\<rparr>"
  "sfcx_writereg sim_bus SFCX_COMMAND x c = (chip_command 0x4000 x (sim_view c))\<lparr>c_busy := 3\<rparr>"
  by (simp_all add: sfcx_writereg_def sim_bus_def sim_write_def bswap32_bswap32 Let_def
      SFCX_STATUS_def SFCX_CONFIG_def SFCX_DATA_def SFCX_ADDRESS_def SFCX_COMMAND_def)

lemma sim_view_command:
  "sim_view ((chip_command 0x4000 x (sim_view c))\<lparr>c_busy := 3\<rparr>) = (chip_command 0x4000 x (sim_view c))\<lparr>c_busy := 3\<rparr>"
  using sim_command_size [of "sim_view c" "0x4000" x] by (intro sim_view_sized) simp_all

lemma sim_view_fields:
  "c_busy (sim_view c) = c_busy c" "c_config (sim_view c) = c_config c" "c_data (sim_view c) = c_data c"
  "c_address (sim_view c) = c_address c"
  by (simp_all add: sim_view_def)

lemma sim_view_update:
  "sim_view ((sim_view c)\<lparr>c_busy := n\<rparr>) = (sim_view c)\<lparr>c_busy := n\<rparr>"
  "sim_view ((sim_view c)\<lparr>c_config := x\<rparr>) = (sim_view c)\<lparr>c_config := x\<rparr>"
  "sim_view ((sim_view c)\<lparr>c_data := x\<rparr>) = (sim_view c)\<lparr>c_data := x\<rparr>"
  "sim_view ((sim_view c)\<lparr>c_address := x, c_ptr := n\<rparr>) = (sim_view c)\<lparr>c_address := x, c_ptr := n\<rparr>"
  by (rule sim_view_sized; simp)+

lemma sim_controller: "controller sim_bus sim_view 0x4000"
proof -
  have "\<exists>n. sim_view (sfcx_writereg sim_bus SFCX_COMMAND x h) = (chip_command 0x4000 x (sim_view h))\<lparr>c_busy := n\<rparr>" for x h
    unfolding sim_writes sim_view_command by blast
  then show ?thesis
    unfolding controller_def sim_reads sim_writes(1-4) sim_view_update
    by (simp add: sim_view_idem sim_view_fields STATUS_BUSY_def sim_status_def)
       (simp add: sim_view_update sim_view_fields)
qed

lemma sim_wait: "wait_busy sim_bus c = Some (s, h) \<Longrightarrow> s = sim_status (c\<lparr>c_busy := 0\<rparr>)"
proof (induction "c_busy c" arbitrary: c)
  case 0
  then show ?case
    by (subst (asm) wait_busy.simps) (auto simp: sim_reads sim_status_def STATUS_BUSY_def split: if_splits)
next
  case (Suc n)
  let ?c = "(sim_view c)\<lparr>c_busy := c_busy c - 1\<rparr>"
  have "sim_status c = 1"
    using Suc.hyps(2) by (simp add: sim_status_def)
  then have "wait_busy sim_bus ?c = Some (s, h)"
    using Suc.prems by (subst (asm) wait_busy.simps) (simp add: sim_reads STATUS_BUSY_def)
  from Suc.hyps(1) [OF _ this] Suc.hyps(2) show ?case
    by (simp add: sim_status_def sim_view_fields)
qed

lemma sim_reports: "reads_report sim_bus sim_faulty"
  unfolding reads_report_def
proof (intro allI impI)
  fix h a s h'
  let ?c = "sfcx_writereg sim_bus SFCX_COMMAND PHY_PAGE_TO_BUF (sfcx_writereg sim_bus SFCX_ADDRESS a h)"
  assume "wait_busy sim_bus ?c = Some (s, h')"
  then have "s = sim_status (?c\<lparr>c_busy := 0\<rparr>)"
    by (rule sim_wait)
  then show "(s AND (STATUS_BB_ER OR STATUS_ECC_ER) \<noteq> 0) = sim_faulty a"
    by (simp add: sim_writes sim_status_def chip_command_def command_codes sim_view_fields STATUS_BB_ER_def STATUS_ECC_ER_def)
qed

text \<open>A console with 16 MB of flash, all of it blank, and a file system whose file is its content.\<close>

definition sfc_16MB :: sfc where
  "sfc_16MB = (init_derived (small_block META_TYPE_0 0x400 0x3E0
     (blank_sfc\<lparr>page_sz := 0x200, meta_sz := 0x10, page_sz_phys := 0x210\<rparr>)))\<lparr>initialized := True\<rparr>"

definition blank_chip :: chip where
  "blank_chip = \<lparr>c_config = 0, c_address = 0, c_data = 0, c_buf = blank_page, c_ptr = 0, c_unlock = [], c_busy = 0,
     c_flash = (\<lambda>a. blank_page)\<rparr>"

definition plain_files :: "u8 list file_ops" where
  "plain_files = \<lparr>f_open = (\<lambda>_. 3), f_size = 0x1080000,
     f_read = (\<lambda>n f. (int (length (take n f)), take n f, drop n f)), f_malloc = (\<lambda>n. Some (replicate n 0))\<rparr>"

lemma sfc_16MB_ok: "geometry_ok sfc_16MB"
  unfolding sfc_16MB_def by (rule small_block_ok) (simp_all add: CONFIG_BLOCKS_def)

lemma sfc_16MB_sizes: "block_sz sfc_16MB = 0x4000" "block_sz_phys sfc_16MB = 0x4200"
  "pages_in_block sfc_16MB = 0x20" "page_sz_phys sfc_16MB = 0x210"
  by (simp_all add: sfc_16MB_def init_derived_def small_block_def blank_sfc_def Let_def)

section \<open>Properties\<close>

text \<open>
  C20: Flashing an image, on any controller that meets its documentation, comes to an end and
  reports success.  Every block the image covers that was good (neither mark of a bad block set, no reading
  error) then holds its part of the image, page by page; every other one is exactly what it was.  Nothing
  outside these blocks has changed, and the write bit is off again.
\<close>

theorem writeImage_flashes:
  assumes "controller b view (block_sz g)" "geometry_ok g" "regular_file fo"
    and "f_malloc fo (block_sz_phys g) = Some buf" "length buf = block_sz_phys g"
    and "len div block_sz_phys g * block_sz g \<le> 2 ^ 32" "len \<le> length img"
    and "c_config (view h) AND CONFIG_WP_EN = 0" "reads_report b faulty"
  shows "returns (rawflash_writeImage b fo g len (h, img)) (\<lambda>(ok, h', f').
    ok \<and> blocks_flashed g faulty img 0 (len div block_sz_phys g) (c_flash (view h)) (c_flash (view h'))
    \<and> c_config (view h') AND CONFIG_WP_EN = 0)"
proof -
  note gf = geometry_facts [OF assms(2)]
  have off: "(if meta_type g = META_TYPE_2 then 0x1080 else page_sz_phys g) = second_page g * 0x210"
    by (simp add: second_page_def gf(2))
  have m: "f_malloc fo (pages_in_block g * page_sz_phys g) = Some buf"
    using assms(4) gf(2,4) by simp
  have n: "(0 + len div block_sz_phys g) * block_sz g \<le> 2 ^ 32"
    using assms(6) by simp
  have l: "len div block_sz_phys g * block_sz_phys g \<le> length img"
    using assms(7) div_times_less_eq_dividend [of len "block_sz_phys g"] by (rule order_trans [rotated])
  show ?thesis
    using flash_blocks_spec [OF assms(1,9,2,3) n assms(5) l assms(8)]
    unfolding rawflash_writeImage_def prod.case m option.case Let_def off
    by (auto elim!: returns_mono)
qed

text \<open>
  A chip whose second block is marked bad; the third has a page with a reading error.  Flashing four blocks writes
  the first and the last.
\<close>

definition worn_chip :: chip where
  "worn_chip = blank_chip\<lparr>c_flash := (\<lambda>a. if a = 0x4000 then replicate 0x210 0 else blank_page)\<rparr>"

lemma worn_view: "sim_view worn_chip = worn_chip"
  by (rule sim_view_sized) (simp_all add: worn_chip_def blank_chip_def blank_page_def)

lemma worn_blocks:
  "good_block sfc_16MB sim_faulty (c_flash worn_chip) 0" "\<not> good_block sfc_16MB sim_faulty (c_flash worn_chip) 1"
  "\<not> good_block sfc_16MB sim_faulty (c_flash worn_chip) 2" "good_block sfc_16MB sim_faulty (c_flash worn_chip) 3"
proof -
  have sz: "page_sz sfc_16MB = 0x200" "meta_type sfc_16MB = META_TYPE_0"
    by (simp_all add: sfc_16MB_def init_derived_def small_block_def blank_sfc_def Let_def)
  have valid: "sfcx_is_pagevalid sfc_16MB blank_page" "\<not> sfcx_is_pagevalid sfc_16MB (replicate 0x210 0)"
    by (simp_all add: sfcx_is_pagevalid_def valid_offset_def sz blank_page_def)
  have page: "unat (page_at (i * 0x4000) q) = i * 0x4000 + q * 0x200" if "i < 4" "q < 0x20" for i q
    using that by (intro unat_page_at) simp
  have ne: "page_at (i * 0x4000) q \<noteq> 0x4000" "page_at (i * 0x4000) q \<noteq> 0x8000" if "i = 0 \<or> i = 3" "q < 0x20" for i q
    using page [of i q] that by (auto simp: word_unat_eq_iff)
  have good: "good_block sfc_16MB sim_faulty (c_flash worn_chip) i" if "i = 0 \<or> i = 3" for i
    using ne [OF that] valid(1)
    by (simp add: good_block_def marked_good_def sfc_16MB_sizes second_page_def sz worn_chip_def sim_faulty_def)
  show "good_block sfc_16MB sim_faulty (c_flash worn_chip) 0" "good_block sfc_16MB sim_faulty (c_flash worn_chip) 3"
    by (simp_all add: good)
  show "\<not> good_block sfc_16MB sim_faulty (c_flash worn_chip) 1"
    using valid(2) by (simp add: good_block_def marked_good_def sfc_16MB_sizes worn_chip_def page_at_def)
  show "\<not> good_block sfc_16MB sim_faulty (c_flash worn_chip) 2"
    by (auto simp: good_block_def sfc_16MB_sizes sim_faulty_def page_at_def intro!: exI [of _ 0])
qed

theorem writeImage_flashes_witness:
  "returns (rawflash_writeImage sim_bus plain_files sfc_16MB 0x10800 (worn_chip, replicate 0x10800 0x5A)) (\<lambda>(ok, h', f').
     ok \<and> c_flash (sim_view h') 0x200 = replicate 0x210 0x5A \<and> c_flash (sim_view h') 0x4000 = replicate 0x210 0
     \<and> c_flash (sim_view h') 0x8200 = blank_page \<and> c_flash (sim_view h') 0xFE00 = replicate 0x210 0x5A
     \<and> c_config (sim_view h') AND CONFIG_WP_EN = 0)"
proof -
  let ?img = "replicate 0x10800 (0x5A :: u8)"
  have "returns (rawflash_writeImage sim_bus plain_files sfc_16MB 0x10800 (worn_chip, ?img)) (\<lambda>(ok, h', f').
     ok \<and> blocks_flashed sfc_16MB sim_faulty ?img 0 4 (c_flash worn_chip) (c_flash (sim_view h'))
     \<and> c_config (sim_view h') AND CONFIG_WP_EN = 0)"
    using writeImage_flashes [of sim_bus sim_view sfc_16MB plain_files "replicate 0x4200 0" "0x10800" ?img worn_chip, OF _ _ _ _ _ _ _ _ sim_reports]
      sim_controller
    by (simp add: sfc_16MB_sizes sfc_16MB_ok regular_file_def plain_files_def worn_view)
       (simp add: worn_chip_def blank_chip_def)
  then show ?thesis
  proof (rule returns_mono, goal_cases)
    case (1 r)
    obtain ok h' f' where r: "r = (ok, h', f')"
      by (cases r)
    have fl: "blocks_flashed sfc_16MB sim_faulty ?img 0 4 (c_flash worn_chip) (c_flash (sim_view h'))"
      using 1(2) by (simp add: r)
    have block: "c_flash (sim_view h') (page_at (j * 0x4000) q) =
        (if good_block sfc_16MB sim_faulty (c_flash worn_chip) j then replicate 0x210 0x5A else c_flash worn_chip (page_at (j * 0x4000) q))"
      if "j < 4" "q < 0x20" for j q
    proof -
      have "j * 0x4200 + 0x4200 \<le> 0x10800" "q * 0x210 + 0x210 \<le> 0x4200"
        using that by simp_all
      then have "0x210 \<le> min (0x10800 - j * 0x4200) 0x4200 - q * 0x210" "0x210 \<le> min 0x4200 (0x10800 - j * 0x4200) - q * 0x210"
        by linarith+
      then have "image_page (take 0x4200 (drop (j * 0x4200) ?img)) q = replicate 0x210 0x5A"
        by (simp only: image_page_def drop_replicate take_replicate min_absorb1)
      then show ?thesis
        using fl that by (simp add: blocks_flashed_def sfc_16MB_sizes Let_def)
    qed
    have "c_flash (sim_view h') 0x200 = replicate 0x210 0x5A \<and> c_flash (sim_view h') 0x4000 = replicate 0x210 0
       \<and> c_flash (sim_view h') 0x8200 = blank_page \<and> c_flash (sim_view h') 0xFE00 = replicate 0x210 0x5A"
      using block [of 0 1] block [of 1 0] block [of 2 1] block [of 3 31] unfolding if_P [OF worn_blocks(1)]
        if_not_P [OF worn_blocks(2)] if_not_P [OF worn_blocks(3)] if_P [OF worn_blocks(4)]
      by (simp add: page_at_def worn_chip_def)
    then show ?case
      using 1(2) by (simp add: r)
  qed
qed

text \<open>
  C21: A page written to an erased block reads back as it was written: erasing the block, programming
  the raw page and reading it, on any controller that meets its documentation, all come to an end
  and yield the first 528 bytes of the buffer.
\<close>

theorem flash_page_roundtrip:
  assumes "controller b view bs" "page_sz_phys g = 0x210" "0x210 \<le> length data" "0x210 \<le> length buf"
  shows "returns (do {
      (_, h) \<leftarrow> sfcx_erase_block b address h;
      (_, h) \<leftarrow> sfcx_write_page b g data address h;
      sfcx_read_page b g buf address True h })
    (\<lambda>(_, page, _). page = take 0x210 data @ drop 0x210 buf)"
proof -
  obtain s h1 where e: "sfcx_erase_block b address h = Some (s, h1)"
    and f1: "c_flash (view h1) (of_nat address) = blank_page"
    by (rule returnsE [OF erase_block_spec [OF assms(1), of address h]]) auto
  have "length (take 0x210 data) = 0x210"
    using assms(3) by simp
  then obtain s' h2 where w: "sfcx_write_page b g data address h1 = Some (s', h2)"
    and f2: "c_flash (view h2) (of_nat address) = take 0x210 data"
    using program_blank [of "take 0x210 data"] f1
    by - (rule returnsE [OF write_page_spec [OF assms(1-3), of address h1]], auto)
  show ?thesis
    using read_page_spec [OF assms(1,2,4), of address h2] f2
    by (auto simp: e w elim!: returns_mono)
qed

theorem flash_page_roundtrip_witness:
  "returns (do {
      (_, h) \<leftarrow> sfcx_erase_block sim_bus 0x600 blank_chip;
      (_, h) \<leftarrow> sfcx_write_page sim_bus sfc_16MB (replicate 0x210 0x5A) 0x600 h;
      sfcx_read_page sim_bus sfc_16MB (replicate 0x210 0) 0x600 True h })
    (\<lambda>(_, page, _). page = replicate 0x210 0x5A)"
  using flash_page_roundtrip [OF sim_controller sfc_16MB_sizes(4), of "replicate 0x210 0x5A" "replicate 0x210 0" "0x600" blank_chip]
  by simp

end
