(* ===== verification/Malloc.thy ===== *)
theory Malloc
  imports Xenon_Prelude
begin

text \<open>
  The memory pool allocator \<^verbatim>\<open>nocfe/lib_malloc.c\<close> (used by the USB stack).

  The pool lives in a memory of 32-bit words, \<open>mem\<close>, from addresses to values.  A memory node is
  six words at its address (\<open>sizeof(memnode_t)\<close> is 24), so headers, back pointers and user data
  share one memory, as in the source.  Unsigned arithmetic wraps at 32 bits (\<open>w32\<close>).  Walking the
  list of nodes is \<open>None\<close> if it never ends.
\<close>

unbundle bit_operations_syntax

type_synonym mem = "nat \<Rightarrow> nat"

definition w32 :: "nat \<Rightarrow> nat" where
  "w32 x = x mod 2 ^ 32"

text \<open>\<open>d & ~(a - 1)\<close> and the unsigned difference of C.\<close>

definition clear_low :: "nat \<Rightarrow> nat \<Rightarrow> nat" where
  "clear_low d a = d - (d AND (a - 1))"

definition usub :: "nat \<Rightarrow> nat \<Rightarrow> nat" where
  "usub x y = w32 (x + (2 ^ 32 - y))"

section \<open>Nodes and pools\<close>

definition MEMNODE_SEAL :: nat where "MEMNODE_SEAL = 0xFAAFA123"
definition MINBLKSIZE :: nat where "MINBLKSIZE = 64"
definition sizeof_memnode :: nat where "sizeof_memnode = 24"

text \<open>Addresses of the fields of \<open>memnode_t\<close>; \<open>memnode_free\<close> is 0 and \<open>memnode_alloc\<close> is 1.\<close>

definition m_seal :: "nat \<Rightarrow> nat" where "m_seal m = m"
definition m_next :: "nat \<Rightarrow> nat" where "m_next m = m + 4"
definition m_length :: "nat \<Rightarrow> nat" where "m_length m = m + 8"
definition m_status :: "nat \<Rightarrow> nat" where "m_status m = m + 12"
definition m_data :: "nat \<Rightarrow> nat" where "m_data m = m + 16"

definition memnode_free :: nat where "memnode_free = 0"
definition memnode_alloc :: nat where "memnode_alloc = 1"

definition memnode_data :: "nat \<Rightarrow> nat" where
  "memnode_data m = m + sizeof_memnode"

record mempool =
  root :: nat
  base :: nat
  plength :: nat

definition kmeminit :: "nat \<Rightarrow> nat \<Rightarrow> mem \<Rightarrow> mempool \<times> mem" where
  "kmeminit buffer len mem = (let
     mem = mem(m_seal buffer := MEMNODE_SEAL);
     mem = mem(m_length buffer := usub len sizeof_memnode);
     mem = mem(m_data buffer := memnode_data buffer);
     mem = mem(m_status buffer := memnode_free);
     mem = mem(m_next buffer := 0)
   in (\<lparr>root = buffer, base = buffer, plength = len\<rparr>, mem))"

definition kmempoolbase :: "mempool \<Rightarrow> nat" where
  "kmempoolbase pool = base pool"

definition kmempoolsize :: "mempool \<Rightarrow> nat" where
  "kmempoolsize pool = plength pool"

section \<open>Coalescing and freeing\<close>

definition absorb_next :: "nat \<Rightarrow> mem \<Rightarrow> mem" where
  "absorb_next m mem = (let n = mem (m_next m);
     mem = mem(m_length m := w32 (mem (m_length m) + (sizeof_memnode + mem (m_length n))));
     mem = mem(m_seal n := 0)
   in mem(m_next m := mem (m_next n)))"

definition both_free :: "nat \<Rightarrow> mem \<Rightarrow> bool" where
  "both_free m mem \<longleftrightarrow> mem (m_next m) \<noteq> 0 \<and> mem (m_status m) = memnode_free \<and>
     mem (m_status (mem (m_next m))) = memnode_free"

text \<open>One pass over the list.  The result tells whether the seals were intact, and counts the merges.\<close>

partial_function (option) compact_pass :: "nat \<Rightarrow> nat \<Rightarrow> mem \<Rightarrow> (bool \<times> nat \<times> mem) option" where
  [code]: "compact_pass m compacted mem =
     (if m = 0 then Some (True, compacted, mem)
      else if mem (m_seal m) \<noteq> MEMNODE_SEAL then Some (False, compacted, mem)
      else let (compacted, mem) =
             (if both_free m mem then (compacted + 1, absorb_next m mem) else (compacted, mem))
           in compact_pass (mem (m_next m)) compacted mem)"

partial_function (option) kmemcompact :: "mempool \<Rightarrow> mem \<Rightarrow> mem option" where
  [code]: "kmemcompact pool mem = do {
     (ok, compacted, mem) \<leftarrow> compact_pass (root pool) 0 mem;
     if ok \<and> compacted > 0 then kmemcompact pool mem else Some mem }"

definition kfree :: "mempool \<Rightarrow> nat \<Rightarrow> mem \<Rightarrow> mem option" where
  "kfree pool ptr mem = (
     if ptr < base pool \<or> ptr \<ge> base pool + plength pool then Some mem
     else let m = mem (ptr - 4) in
       if mem (m_seal m) \<noteq> MEMNODE_SEAL then Some mem
       else kmemcompact pool (mem(m_status m := memnode_free)))"

section \<open>Allocation\<close>

definition kmalloc_align :: "nat \<Rightarrow> nat" where
  "kmalloc_align align = (if align < 4 then 8 else align)"

definition kmalloc_size :: "nat \<Rightarrow> nat" where
  "kmalloc_size sz = (let sz = (if sz = 0 then 4 else sz) in
     if sz AND 3 \<noteq> 0 then clear_low (w32 (sz + 4)) 4 else sz)"

definition kmalloc_realsize :: "nat \<Rightarrow> nat \<Rightarrow> nat \<Rightarrow> nat" where
  "kmalloc_realsize sz ptralign daddr = w32 (sz +
     (if daddr AND (ptralign - 1) \<noteq> 0 then w32 (sz + (ptralign - (daddr AND (ptralign - 1)))) else 0))"

partial_function (option) kmalloc_find :: "nat \<Rightarrow> nat \<Rightarrow> nat \<Rightarrow> mem \<Rightarrow> nat option" where
  [code]: "kmalloc_find sz ptralign m mem =
     (if m = 0 then Some 0
      else if mem (m_status m) = memnode_alloc then kmalloc_find sz ptralign (mem (m_next m)) mem
      else if mem (m_length m) < kmalloc_realsize sz ptralign (memnode_data m)
      then kmalloc_find sz ptralign (mem (m_next m)) mem
      else Some m)"

definition align_up :: "nat \<Rightarrow> nat \<Rightarrow> nat" where
  "align_up daddr ptralign = (if daddr AND (ptralign - 1) \<noteq> 0 then clear_low (w32 (daddr + ptralign)) ptralign else daddr)"

definition kmalloc_split :: "nat \<Rightarrow> nat \<Rightarrow> mem \<Rightarrow> mem" where
  "kmalloc_split m daddr mem = (let
     newm = align_up daddr 4;
     blkend = w32 (memnode_data m + mem (m_length m));
     mem = mem(m_next newm := mem (m_next m));
     mem = mem(m_length m := usub newm (memnode_data m));
     mem = mem(m_next m := newm);
     mem = mem(m_status m := memnode_alloc);
     mem = mem(m_seal newm := MEMNODE_SEAL);
     mem = mem(m_data newm := memnode_data newm);
     mem = mem(m_length newm := usub blkend (memnode_data newm))
   in mem(m_status newm := memnode_free))"

text \<open>\<open>kmalloc\<close> returns NULL (0) when no node is large enough.\<close>

definition kmalloc :: "mempool \<Rightarrow> nat \<Rightarrow> nat \<Rightarrow> mem \<Rightarrow> (nat \<times> mem) option" where
  "kmalloc pool sz align mem = (let ptralign = kmalloc_align align; sz = kmalloc_size sz in do {
     m \<leftarrow> kmalloc_find sz ptralign (root pool) mem;
     if m = 0 then Some (0, mem) else let
       realsize = kmalloc_realsize sz ptralign (memnode_data m);
       daddr = align_up (memnode_data m) ptralign;
       mem = mem(m_data m := daddr);
       mem = mem(m_status m := memnode_alloc);
       mem = mem(daddr - 4 := m)
     in if mem (m_length m) - realsize < MINBLKSIZE then Some (daddr, mem)
        else Some (daddr, kmalloc_split m (w32 (daddr + sz)) mem) })"

section \<open>Statistics\<close>

text \<open>The fields are C integers, in two's complement; adding an unsigned length to one wraps at 32 bits, and comparing
  one with an unsigned length compares unsigned numbers.\<close>

record memstats =
  mem_totalbytes :: u32
  mem_allocbytes :: u32
  mem_freebytes :: u32
  mem_allocnodes :: u32
  mem_freenodes :: u32
  mem_largest :: u32

definition stats_node :: "nat \<Rightarrow> mem \<Rightarrow> memstats \<Rightarrow> memstats" where
  "stats_node m mem s = (
     if mem (m_status m) \<noteq> 0
     then s\<lparr>mem_allocnodes := mem_allocnodes s + 1, mem_allocbytes := mem_allocbytes s + of_nat (mem (m_length m))\<rparr>
     else s\<lparr>mem_freenodes := mem_freenodes s + 1, mem_freebytes := mem_freebytes s + of_nat (mem (m_length m)),
            mem_largest := (if of_nat (mem (m_length m)) > mem_largest s then of_nat (mem (m_length m)) else mem_largest s)\<rparr>)"

text \<open>The checks of one node; the loop stops with -1 at the first node that fails.\<close>

definition node_consistent :: "nat \<Rightarrow> mem \<Rightarrow> bool" where
  "node_consistent m mem \<longleftrightarrow> mem (m_seal m) = MEMNODE_SEAL \<and>
     \<not> (mem (m_next m) \<noteq> 0 \<and> w32 (memnode_data m + mem (m_length m)) \<noteq> mem (m_next m)) \<and>
     \<not> (mem (m_next m) \<noteq> 0 \<and> mem (m_next m) < m) \<and> \<not> mem (m_data m) < m \<and>
     \<not> (mem (m_status m) = memnode_alloc \<and> mem (mem (m_data m) - 4) \<noteq> m)"

partial_function (option) stats_loop :: "nat \<Rightarrow> mem \<Rightarrow> memstats \<Rightarrow> (int \<times> memstats) option" where
  [code]: "stats_loop m mem s = (if m = 0 then Some (0, s)
     else let s = stats_node m mem s in
       if node_consistent m mem then stats_loop (mem (m_next m)) mem s else Some (-1, s))"

definition kmemstats :: "mempool \<Rightarrow> mem \<Rightarrow> (int \<times> memstats) option" where
  "kmemstats pool mem = stats_loop (root pool) mem \<lparr>mem_totalbytes = of_nat (plength pool), mem_allocbytes = 0,
     mem_freebytes = 0, mem_allocnodes = 0, mem_freenodes = 0, mem_largest = 0\<rparr>"

section \<open>The default pool\<close>

text \<open>The pool is set up once over the static array of 1 MB at address \<open>heap\<close>.\<close>

definition HEAP_SIZE :: nat where "HEAP_SIZE = 1 * 1024 * 1024"

definition kmem_init :: "nat \<Rightarrow> bool \<times> mempool \<times> mem \<Rightarrow> bool \<times> mempool \<times> mem" where
  "kmem_init heap = (\<lambda>(kmem_init_done, pool, mem).
     if kmem_init_done then (kmem_init_done, pool, mem) else (True, kmeminit heap HEAP_SIZE mem))"

end
