(* ===== verification/Malloc_Lemmas.thy ===== *)
theory Malloc_Lemmas
  imports Malloc
begin

text \<open>
  The representation invariant of a memory pool and what the allocator does to it.  A pool is
  represented by the list of its blocks, in address order: the nodes tile the pool exactly, their
  headers agree with the list, and every used block contains its user data and, in the word before
  it, the pointer back to its node.
\<close>

unbundle bit_operations_syntax

section \<open>Blocks\<close>

record blk =
  bl_len :: nat
  bl_used :: bool
  bl_data :: nat
  bl_size :: nat

definition extent :: "blk \<Rightarrow> nat" where
  "extent b = 24 + bl_len b"

definition span :: "blk list \<Rightarrow> nat" where
  "span bs = sum_list (map extent bs)"

lemma span_simps [simp]: "span [] = 0" "span (b # bs) = extent b + span bs" "span (xs @ ys) = span xs + span ys"
  by (simp_all add: span_def)

lemma extent_pos [simp]: "0 < extent b"
  by (simp add: extent_def)

lemma bl_len_extent: "bl_len b = extent b - 24"
  by (simp add: extent_def)

text \<open>The next pointer of a node that ends at \<open>a\<close>, in a pool that ends at \<open>e\<close>.\<close>

definition nxt :: "nat \<Rightarrow> nat \<Rightarrow> nat" where
  "nxt e a = (if a = e then 0 else a)"

definition blk_ok :: "nat \<Rightarrow> blk \<Rightarrow> bool" where
  "blk_ok a b \<longleftrightarrow> 4 dvd a \<and> 4 dvd bl_len b \<and> a + 24 \<le> bl_data b \<and>
     (bl_used b \<longrightarrow> 4 dvd bl_data b \<and> 0 < bl_size b \<and> bl_data b + bl_size b \<le> a + extent b)"

definition node_at :: "mem \<Rightarrow> nat \<Rightarrow> nat \<Rightarrow> blk \<Rightarrow> bool" where
  "node_at mem e a b \<longleftrightarrow> mem a = MEMNODE_SEAL \<and> mem (a + 4) = nxt e (a + extent b) \<and> mem (a + 8) = bl_len b \<and>
     mem (a + 12) = (if bl_used b then 1 else 0) \<and> mem (a + 16) = bl_data b \<and>
     (bl_used b \<longrightarrow> mem (bl_data b - 4) = a) \<and> blk_ok a b"

fun seg :: "mem \<Rightarrow> nat \<Rightarrow> nat \<Rightarrow> blk list \<Rightarrow> bool" where
  "seg mem e a [] \<longleftrightarrow> True"
| "seg mem e a (b # bs) \<longleftrightarrow> node_at mem e a b \<and> seg mem e (a + extent b) bs"

lemma seg_append: "seg mem e a (xs @ ys) \<longleftrightarrow> seg mem e a xs \<and> seg mem e (a + span xs) ys"
  by (induction xs arbitrary: a) (auto simp: add.assoc)

lemma node_at_frame:
  assumes "\<And>x. a \<le> x \<Longrightarrow> x < a + extent b \<Longrightarrow> mem' x = mem x"
  shows "node_at mem' e a b = node_at mem e a b"
proof -
  have bk: "a + 20 \<le> bl_data b - 4 \<and> bl_data b - 4 < a + extent b" if "blk_ok a b" "bl_used b"
    using that by (auto simp: blk_ok_def extent_def)
  have "mem' a = mem a" "mem' (a + 4) = mem (a + 4)" "mem' (a + 8) = mem (a + 8)"
    "mem' (a + 12) = mem (a + 12)" "mem' (a + 16) = mem (a + 16)"
    by (rule assms; simp add: extent_def)+
  moreover have "mem' (bl_data b - 4) = mem (bl_data b - 4)" if "blk_ok a b" "bl_used b"
    using bk [OF that] by (intro assms) simp_all
  ultimately show ?thesis
    by (auto simp: node_at_def)
qed

lemma seg_frame:
  "(\<And>x. a \<le> x \<Longrightarrow> x < a + span bs \<Longrightarrow> mem' x = mem x) \<Longrightarrow> seg mem' e a bs = seg mem e a bs"
proof (induction bs arbitrary: a)
  case (Cons b bs)
  have "node_at mem' e a b = node_at mem e a b"
    by (rule node_at_frame) (simp add: Cons.prems)
  moreover have "seg mem' e (a + extent b) bs = seg mem e (a + extent b) bs"
    by (rule Cons.IH) (simp add: Cons.prems)
  ultimately show ?case by simp
qed simp

definition pool_ok :: "mempool \<Rightarrow> mem \<Rightarrow> blk list \<Rightarrow> bool" where
  "pool_ok pool mem bs \<longleftrightarrow> bs \<noteq> [] \<and> root pool = base pool \<and> 0 < base pool \<and> base pool + plength pool < 2 ^ 32 \<and>
     span bs = plength pool \<and> seg mem (base pool + plength pool) (base pool) bs"

lemma pool_ok_root: "pool_ok pool mem bs \<Longrightarrow> root pool = nxt (base pool + plength pool) (base pool)"
  by (cases bs) (auto simp: pool_ok_def nxt_def extent_def)

text \<open>The live allocations, and the cells that belong to free blocks.\<close>

definition allocs :: "blk list \<Rightarrow> (nat \<times> nat) list" where
  "allocs bs = map (\<lambda>b. (bl_data b, bl_size b)) (filter bl_used bs)"

lemma allocs_simps [simp]:
  "allocs [] = []" "allocs (b # bs) = (if bl_used b then (bl_data b, bl_size b) # allocs bs else allocs bs)"
  "allocs (xs @ ys) = allocs xs @ allocs ys"
  by (simp_all add: allocs_def)

fun free_cells :: "nat \<Rightarrow> blk list \<Rightarrow> nat set" where
  "free_cells a [] = {}"
| "free_cells a (b # bs) = (if bl_used b then {} else {a..<a + extent b}) \<union> free_cells (a + extent b) bs"

lemma free_cells_append: "free_cells a (xs @ ys) = free_cells a xs \<union> free_cells (a + span xs) ys"
  by (induction xs arbitrary: a) (auto simp: add.assoc)

lemma free_cells_range: "free_cells a bs \<subseteq> {a..<a + span bs}"
proof (induction bs arbitrary: a)
  case (Cons b bs)
  show ?case
    using Cons [of "a + extent b"] by auto
qed simp

lemma alloc_range:
  "seg mem e a bs \<Longrightarrow> (q, t) \<in> set (allocs bs) \<Longrightarrow> a + 24 \<le> q \<and> q + t \<le> a + span bs \<and> 4 dvd q"
proof (induction bs arbitrary: a)
  case (Cons b bs)
  have ih: "(q, t) \<in> set (allocs bs) \<Longrightarrow> a + extent b + 24 \<le> q \<and> q + t \<le> a + extent b + span bs \<and> 4 dvd q"
    by (rule Cons.IH) (use Cons.prems in simp_all)
  show ?case
  proof (cases "(q, t) \<in> set (allocs bs)")
    case True
    then show ?thesis using ih by auto
  next
    case False
    then have "bl_used b" "q = bl_data b" "t = bl_size b" using Cons.prems(2) by (auto split: if_splits)
    then show ?thesis using Cons.prems(1) by (auto simp: node_at_def blk_ok_def)
  qed
qed simp

text \<open>User data never overlaps the free cells, nor other user data.\<close>

lemma alloc_not_free:
  "seg mem e a bs \<Longrightarrow> (q, t) \<in> set (allocs bs) \<Longrightarrow> q \<le> x \<Longrightarrow> x < q + t \<Longrightarrow> x \<notin> free_cells a bs"
proof (induction bs arbitrary: a)
  case (Cons b bs)
  show ?case
  proof (cases "(q, t) \<in> set (allocs bs)")
    case True
    then have "x \<notin> free_cells (a + extent b) bs" "a + extent b \<le> x"
      using Cons alloc_range [of mem e "a + extent b" bs q t] by auto
    then show ?thesis by simp
  next
    case False
    then have "bl_used b" "x < a + extent b"
      using Cons.prems by (auto simp: node_at_def blk_ok_def split: if_splits)
    then show ?thesis
      using free_cells_range [of "a + extent b" bs] by auto
  qed
qed simp

definition disjoint_allocs :: "(nat \<times> nat) list \<Rightarrow> bool" where
  "disjoint_allocs = sorted_wrt (\<lambda>(p, s) (q, t). p + s \<le> q)"

lemma allocs_disjoint: "seg mem e a bs \<Longrightarrow> disjoint_allocs (allocs bs)"
proof (induction bs arbitrary: a)
  case Nil
  then show ?case by (simp add: disjoint_allocs_def)
next
  case (Cons b bs)
  have d: "disjoint_allocs (allocs bs)"
    by (rule Cons.IH [of "a + extent b"]) (use Cons.prems in simp)
  have "bl_used b \<Longrightarrow> (q, t) \<in> set (allocs bs) \<Longrightarrow> bl_data b + bl_size b \<le> q" for q t
    using Cons.prems alloc_range [of mem e "a + extent b" bs q t] by (auto simp: node_at_def blk_ok_def)
  then show ?case
    using d by (auto simp: disjoint_allocs_def)
qed

section \<open>Coalescing\<close>

definition join :: "blk \<Rightarrow> blk \<Rightarrow> blk" where
  "join b c = b\<lparr>bl_len := bl_len b + extent c\<rparr>"

text \<open>One pass of the compaction, and its fixed points.\<close>

fun pass :: "blk list \<Rightarrow> blk list" where
  "pass [] = []"
| "pass [b] = [b]"
| "pass (b # c # bs) = (if \<not> bl_used b \<and> \<not> bl_used c then join b c # pass bs else b # pass (c # bs))"

fun coalesced :: "blk list \<Rightarrow> bool" where
  "coalesced (b # c # bs) \<longleftrightarrow> (bl_used b \<or> bl_used c) \<and> coalesced (c # bs)"
| "coalesced bs \<longleftrightarrow> True"

text \<open>The normal form: neighbouring free blocks, here with length and state only, are one.\<close>

definition shape :: "blk list \<Rightarrow> (nat \<times> bool) list" where
  "shape = map (\<lambda>b. (bl_len b, bl_used b))"

fun cons_norm :: "nat \<times> bool \<Rightarrow> (nat \<times> bool) list \<Rightarrow> (nat \<times> bool) list" where
  "cons_norm (l, False) ((k, False) # xs) = (l + (24 + k), False) # xs"
| "cons_norm b xs = b # xs"

definition norm :: "(nat \<times> bool) list \<Rightarrow> (nat \<times> bool) list" where
  "norm xs = foldr cons_norm xs []"

lemma norm_simps [simp]: "norm [] = []" "norm (b # xs) = cons_norm b (norm xs)"
  by (simp_all add: norm_def)

lemma extent_join [simp]: "extent (join b c) = extent b + extent c" "bl_used (join b c) = bl_used b"
  by (simp_all add: join_def extent_def)

lemma cons_norm_join: "cons_norm (l, False) (cons_norm (k, False) xs) = cons_norm (l + (24 + k), False) xs"
  by (cases "((k, False), xs)" rule: cons_norm.cases) auto

lemma norm_pass: "norm (shape (pass bs)) = norm (shape bs)"
  by (induction bs rule: pass.induct) (auto simp: shape_def join_def extent_def cons_norm_join)

lemma span_pass [simp]: "span (pass bs) = span bs"
  by (induction bs rule: pass.induct) auto

lemma allocs_pass [simp]: "allocs (pass bs) = allocs bs"
  by (induction bs rule: pass.induct) (auto simp: join_def)

lemma free_cells_pass [simp]: "free_cells a (pass bs) = free_cells a bs"
proof (induction bs arbitrary: a rule: pass.induct)
  case (3 b c bs)
  then show ?case
    by (auto simp: add.assoc)
qed simp_all

lemma length_pass: "length (pass bs) \<le> length bs"
  by (induction bs rule: pass.induct) auto

lemma pass_stops: "length (pass bs) = length bs \<Longrightarrow> coalesced bs"
proof (induction bs rule: pass.induct)
  case (3 b c bs)
  then show ?case
    using length_pass [of bs] by (auto split: if_splits)
qed simp_all

lemma pass_coalesced: "coalesced bs \<Longrightarrow> pass bs = bs"
  by (induction bs rule: pass.induct) auto

lemma norm_coalesced: "coalesced bs \<Longrightarrow> norm (shape bs) = shape bs"
proof (induction bs rule: coalesced.induct)
  case (1 b c bs)
  then have "norm (shape (c # bs)) = shape (c # bs)" by simp
  then show ?case
    using 1(2) by (cases "bl_used b"; cases "bl_used c") (simp_all add: shape_def)
qed (simp_all add: shape_def)

lemma pass_nonempty [simp]: "pass bs = [] \<longleftrightarrow> bs = []"
  by (cases bs rule: pass.cases) auto

text \<open>Merging a node with the next one.\<close>

lemma join_node:
  assumes "node_at mem e a b" "node_at mem e (a + extent b) c" "\<not> bl_used b" "\<not> bl_used c"
    and "a + extent b + extent c \<le> e" "e < 2 ^ 32"
  shows "node_at (absorb_next a mem) e a (join b c)"
proof -
  have n: "mem (a + 4) = a + extent b"
    using assms(1,5) extent_pos [of c] by (auto simp: node_at_def nxt_def)
  have l: "w32 (bl_len b + (24 + bl_len c)) = bl_len b + extent c"
    using assms(5,6) by (simp add: w32_def extent_def)
  have "extent b \<ge> 24" "4 dvd a" by (simp add: extent_def, use assms(1) in \<open>simp add: node_at_def blk_ok_def\<close>)
  then show ?thesis
    using assms(1-4) l
    by (simp add: absorb_next_def m_next_def m_length_def m_seal_def sizeof_memnode_def n Let_def node_at_def blk_ok_def
        join_def extent_def add.assoc)
qed

lemma absorb_frame:
  assumes "mem (a + 4) = n" "x \<notin> {a..<a + 24}" "x \<noteq> n"
  shows "absorb_next a mem x = mem x"
  using assms by (auto simp: absorb_next_def m_next_def m_length_def m_seal_def Let_def)

lemma node_next:
  assumes "node_at mem e a b"
  shows "mem (m_next a) = nxt e (a + extent b)" "mem (m_seal a) = MEMNODE_SEAL"
    "mem (m_status a) = (if bl_used b then memnode_alloc else memnode_free)" "mem (m_length a) = bl_len b"
    "mem (m_data a) = bl_data b" "bl_used b \<Longrightarrow> mem (bl_data b - 4) = a"
  using assms by (simp_all add: node_at_def m_next_def m_seal_def m_status_def m_length_def m_data_def memnode_alloc_def memnode_free_def)

lemma both_free_iff:
  assumes "node_at mem e a b" "node_at mem e (a + extent b) c" "a + extent b < e" "0 < a"
  shows "both_free a mem \<longleftrightarrow> \<not> bl_used b \<and> \<not> bl_used c"
proof -
  have "mem (m_next a) = a + extent b"
    using node_next(1) [OF assms(1)] assms(3) by (simp add: nxt_def)
  then show ?thesis
    using node_next(3) [OF assms(1)] node_next(3) [OF assms(2)] assms(4)
    by (simp add: both_free_def memnode_alloc_def memnode_free_def)
qed

lemma node_at_before:
  assumes "node_at mem e a b" "\<forall>x. x \<notin> free_cells (a + extent b) bs \<longrightarrow> mem' x = mem x"
  shows "node_at mem' e a b"
proof -
  have "mem' x = mem x" if "x < a + extent b" for x
    using that assms(2) free_cells_range [of "a + extent b" bs] by (meson atLeastLessThan_iff not_le subsetD)
  then have "node_at mem' e a b = node_at mem e a b"
    by (intro node_at_frame) simp
  then show ?thesis using assms(1) by simp
qed

lemma compact_pass_spec:
  "seg mem e a bs \<Longrightarrow> a + span bs = e \<Longrightarrow> 0 < a \<Longrightarrow> e < 2 ^ 32 \<Longrightarrow>
   returns (compact_pass (nxt e a) n mem) (\<lambda>(ok, n', mem'). ok \<and> n' + length (pass bs) = n + length bs
     \<and> seg mem' e a (pass bs) \<and> (\<forall>x. x \<notin> free_cells a bs \<longrightarrow> mem' x = mem x))"
proof (induction bs arbitrary: a n mem rule: pass.induct)
  case (3 b c bs)
  let ?a' = "a + extent b + extent c"
  have nb: "node_at mem e a b" and nc: "node_at mem e (a + extent b) c" and sb: "seg mem e ?a' bs"
    using "3.prems"(1) by simp_all
  have lt: "a < e" "a + extent b < e" "?a' \<le> e"
    using "3.prems"(2) extent_pos [of b] extent_pos [of c] by (simp_all del: extent_pos)
  have bf: "both_free a mem \<longleftrightarrow> \<not> bl_used b \<and> \<not> bl_used c"
    by (rule both_free_iff [OF nb nc lt(2) "3.prems"(3)])
  have step: "compact_pass (nxt e a) n mem = (if both_free a mem
      then compact_pass (absorb_next a mem (m_next a)) (n + 1) (absorb_next a mem)
      else compact_pass (nxt e (a + extent b)) n mem)"
    using lt(1) "3.prems"(3) node_next(1,2) [OF nb] by (subst compact_pass.simps) (simp add: nxt_def)
  show ?case
  proof (cases "\<not> bl_used b \<and> \<not> bl_used c")
    case True
    let ?m = "absorb_next a mem"
    have j: "node_at ?m e a (join b c)"
      using join_node [OF nb nc _ _ lt(3) "3.prems"(4)] True by simp
    have fr: "?m x = mem x" if "x \<notin> {a..<?a'}" for x
      using that lt(2) node_next(1) [OF nb] extent_pos [of c]
      by (intro absorb_frame [of _ _ "a + extent b"]) (auto simp: m_next_def nxt_def extent_def)
    have "seg ?m e ?a' bs"
      using sb seg_frame [of ?a' bs ?m mem e] fr by auto
    then have "returns (compact_pass (nxt e ?a') (n + 1) ?m) (\<lambda>(ok, n', mem'). ok \<and> n' + length (pass bs) = n + 1 + length bs
        \<and> seg mem' e ?a' (pass bs) \<and> (\<forall>x. x \<notin> free_cells ?a' bs \<longrightarrow> mem' x = ?m x))"
      by (rule "3.IH"(1) [OF True]) (use "3.prems"(2-4) in \<open>simp_all add: add.assoc\<close>)
    moreover have "?m (m_next a) = nxt e ?a'"
      using node_next(1) [OF j] by (simp add: add.assoc)
    moreover have "seg mem' e a (pass (b # c # bs)) \<and> (\<forall>x. x \<notin> free_cells a (b # c # bs) \<longrightarrow> mem' x = mem x)"
      if s': "seg mem' e ?a' (pass bs)" and f': "\<forall>x. x \<notin> free_cells ?a' bs \<longrightarrow> mem' x = ?m x" for mem'
    proof
      have "node_at mem' e a (join b c)"
        by (rule node_at_before [OF j, of bs]) (use f' in \<open>simp add: add.assoc\<close>)
      then show "seg mem' e a (pass (b # c # bs))"
        using s' True by (simp add: add.assoc)
      show "\<forall>x. x \<notin> free_cells a (b # c # bs) \<longrightarrow> mem' x = mem x"
        using f' fr True by (auto simp: add.assoc)
    qed
    ultimately show ?thesis
      unfolding step using True bf by (auto elim!: returns_mono simp del: seg.simps free_cells.simps)
  next
    case False
    have "returns (compact_pass (nxt e (a + extent b)) n mem) (\<lambda>(ok, n', mem'). ok \<and> n' + length (pass (c # bs)) = n + length (c # bs)
        \<and> seg mem' e (a + extent b) (pass (c # bs)) \<and> (\<forall>x. x \<notin> free_cells (a + extent b) (c # bs) \<longrightarrow> mem' x = mem x))"
      by (rule "3.IH"(2) [OF False]) (use "3.prems" in \<open>simp_all add: add.assoc\<close>)
    moreover have "seg mem' e a (pass (b # c # bs)) \<and> (\<forall>x. x \<notin> free_cells a (b # c # bs) \<longrightarrow> mem' x = mem x)"
      if s': "seg mem' e (a + extent b) (pass (c # bs))"
        and f': "\<forall>x. x \<notin> free_cells (a + extent b) (c # bs) \<longrightarrow> mem' x = mem x" for mem'
    proof
      have "node_at mem' e a b"
        using nb f' by (rule node_at_before)
      then show "seg mem' e a (pass (b # c # bs))"
        using s' False by auto
      show "\<forall>x. x \<notin> free_cells a (b # c # bs) \<longrightarrow> mem' x = mem x"
        using f' by (subst free_cells.simps) blast
    qed
    ultimately show ?thesis
      unfolding step using False bf by (auto elim!: returns_mono simp del: seg.simps free_cells.simps)
  qed
next
  case 1
  then show ?case by (subst compact_pass.simps) (simp add: nxt_def)
next
  case (2 b)
  then have nb: "node_at mem e a b" "a + extent b = e" by simp_all
  then have n: "mem (m_next a) = 0" using node_next(1) [OF nb(1)] by (simp add: nxt_def)
  have "nxt e a = a" using nb(2) extent_pos [of b] by (simp add: nxt_def del: extent_pos)
  then show ?case
    using 2 n node_next(2) [OF nb(1)]
    by (subst compact_pass.simps) (simp add: both_free_def compact_pass.simps)
qed

text \<open>Compaction ends, with the pool in normal form; user data does not move.\<close>

lemma kmemcompact_spec:
  "pool_ok pool mem bs \<Longrightarrow> returns (kmemcompact pool mem) (\<lambda>mem'. \<exists>bs'. pool_ok pool mem' bs' \<and> coalesced bs'
     \<and> shape bs' = norm (shape bs) \<and> allocs bs' = allocs bs
     \<and> (\<forall>x. x \<notin> free_cells (base pool) bs \<longrightarrow> mem' x = mem x))"
proof (induction "length bs" arbitrary: bs mem rule: less_induct)
  case less
  let ?e = "base pool + plength pool"
  have ok: "seg mem ?e (base pool) bs" "base pool + span bs = ?e" "0 < base pool" "?e < 2 ^ 32"
    using less.prems by (simp_all add: pool_ok_def)
  obtain n mem' where p: "compact_pass (root pool) 0 mem = Some (True, n, mem')"
    and n: "n + length (pass bs) = length bs" and sg: "seg mem' ?e (base pool) (pass bs)"
    and fr: "\<forall>x. x \<notin> free_cells (base pool) bs \<longrightarrow> mem' x = mem x"
    by (rule returnsE [OF compact_pass_spec [OF ok, of 0, folded pool_ok_root [OF less.prems]]]) auto
  have ok': "pool_ok pool mem' (pass bs)"
    using less.prems sg by (simp add: pool_ok_def)
  show ?case
  proof (cases "n = 0")
    case True
    then have "coalesced bs" using n by (intro pass_stops) simp
    then show ?thesis
      using ok' fr True pass_coalesced [of bs] by (subst kmemcompact.simps) (auto simp: p norm_coalesced)
  next
    case False
    then have "returns (kmemcompact pool mem') (\<lambda>mem''. \<exists>bs'. pool_ok pool mem'' bs' \<and> coalesced bs'
       \<and> shape bs' = norm (shape (pass bs)) \<and> allocs bs' = allocs (pass bs)
       \<and> (\<forall>x. x \<notin> free_cells (base pool) (pass bs) \<longrightarrow> mem'' x = mem' x))"
      using n ok' by (intro less.hyps) simp_all
    then show ?thesis
      using False fr by (subst kmemcompact.simps) (auto simp: p norm_pass elim!: returns_mono)
  qed
qed

end
