(* ===== verification/Malloc_Claims.thy ===== *)
theory Malloc_Claims
  imports Malloc_Lemmas
begin

text \<open>
  Correctness of the memory pool allocator: allocation hands out aligned memory that overlaps
  nothing that is live, freeing gives it back and coalesces the pool, and the consistency check of
  the source accepts every pool the operations can produce.
\<close>

unbundle bit_operations_syntax

section \<open>Alignment\<close>

lemma and_mask_mod: "d AND (2 ^ k - Suc 0) = d mod 2 ^ k" for d :: nat
  by (simp only: One_nat_def [symmetric] mask_eq_exp_minus_1 [symmetric] take_bit_eq_mask [symmetric] take_bit_eq_mod)

lemma align_up_eq:
  assumes "al = 2 ^ k" "d + al < 2 ^ 32"
  shows "align_up d al = (if al dvd d then d else d + (al - d mod al))"
proof (cases "al dvd d")
  case True
  then show ?thesis by (simp add: align_up_def assms(1) and_mask_mod)
next
  case False
  then have "d mod al \<noteq> 0" by (simp add: dvd_eq_mod_eq_0)
  moreover have "w32 (d + al) = d + al" using assms(2) by (simp add: w32_def)
  moreover have "d mod al \<le> al" using assms(1) by (simp add: less_imp_le)
  ultimately show ?thesis
    using False by (simp add: align_up_def clear_low_def assms(1) and_mask_mod)
qed

lemma align_up_props:
  assumes "al = 2 ^ k" "d + al < 2 ^ 32"
  shows "al dvd align_up d al" "d \<le> align_up d al"
proof -
  show "d \<le> align_up d al"
    using align_up_eq [OF assms] by simp
  show "al dvd align_up d al"
  proof (cases "al dvd d")
    case False
    have "d mod al < al" using assms(1) by simp
    then have "d + (al - d mod al) = al * (d div al) + al"
      using mult_div_mod_eq [of al d] by linarith
    then show ?thesis using False align_up_eq [OF assms] by simp
  qed (simp add: align_up_eq [OF assms])
qed

text \<open>What the search of the source asks of a free block whose data starts at \<open>d\<close>: the size counts twice if \<open>d\<close> is not
  aligned.\<close>

definition need :: "nat \<Rightarrow> nat \<Rightarrow> nat \<Rightarrow> nat" where
  "need s al d = s + (if al dvd d then 0 else s + (al - d mod al))"

lemma realsize_need:
  assumes "al = 2 ^ k" "2 * s + al < 2 ^ 32"
  shows "kmalloc_realsize s al d = need s al d"
proof -
  define r where "r = d mod al"
  have r: "d AND (al - 1) = r" "al dvd d \<longleftrightarrow> r = 0"
    by (simp_all add: assms(1) r_def and_mask_mod dvd_eq_mod_eq_0)
  have "s + (al - r) < 2 ^ 32" "s + (s + (al - r)) < 2 ^ 32" "s < 2 ^ 32"
    using assms(2) by linarith+
  then have "w32 (s + (al - r)) = s + (al - r)" "w32 (s + (s + (al - r))) = s + (s + (al - r))" "w32 s = s"
    by (simp_all add: w32_def)
  then show ?thesis
    unfolding kmalloc_realsize_def need_def r r_def [symmetric] by simp
qed

lemma kmalloc_size_props:
  assumes "sz + 4 < 2 ^ 32"
  shows "4 dvd kmalloc_size sz" "sz \<le> kmalloc_size sz" "0 < kmalloc_size sz" "kmalloc_size sz \<le> sz + 4"
proof -
  have m: "x AND 3 = x mod 4" for x :: nat
    using and_mask_mod [of x 2] by simp
  have w: "w32 (sz + 4) = sz + 4" using assms by (simp add: w32_def)
  have "kmalloc_size sz = (if sz = 0 then 4 else if sz mod 4 = 0 then sz else sz + 4 - sz mod 4)"
    by (simp add: kmalloc_size_def clear_low_def m w Let_def)
  moreover have "4 dvd sz + 4 - sz mod 4"
    by presburger
  ultimately show "4 dvd kmalloc_size sz" "sz \<le> kmalloc_size sz" "0 < kmalloc_size sz" "kmalloc_size sz \<le> sz + 4"
    using mod_less_divisor [of 4 sz] by (auto simp del: mod_less_divisor)
qed

text \<open>The rounding wraps for the largest sizes: the request becomes one for no bytes at all.\<close>

lemma kmalloc_size_wraps:
  assumes "2 ^ 32 - 3 \<le> sz" "sz < 2 ^ 32"
  shows "kmalloc_size sz = 0"
proof -
  have "sz = 0xFFFFFFFD \<or> sz = 0xFFFFFFFE \<or> sz = 0xFFFFFFFF"
    using assms by simp linarith
  then show ?thesis
    by (elim disjE) (simp_all add: kmalloc_size_def clear_low_def w32_def Let_def)
qed

section \<open>Replacing a block\<close>

lemma pool_replace:
  assumes ok: "pool_ok pool mem (pre @ xs @ post)" and ys: "span ys = span xs" "ys \<noteq> []"
    and sg: "seg mem' (base pool + plength pool) (base pool + span pre) ys"
    and fr: "\<And>x. x \<notin> {base pool + span pre..<base pool + span pre + span xs} \<Longrightarrow> mem' x = mem x"
  shows "pool_ok pool mem' (pre @ ys @ post)"
proof -
  let ?e = "base pool + plength pool" and ?a = "base pool + span pre"
  have "seg mem ?e (base pool) pre" "seg mem ?e (?a + span xs) post"
    using ok by (simp_all add: pool_ok_def seg_append)
  then have "seg mem' ?e (base pool) pre" "seg mem' ?e (?a + span xs) post"
    using seg_frame [of "base pool" pre mem' mem ?e] seg_frame [of "?a + span xs" post mem' mem ?e] fr by simp_all
  then show ?thesis
    using ok ys sg by (simp add: pool_ok_def seg_append)
qed

lemma pool_node:
  assumes "pool_ok pool mem (pre @ b # post)"
  shows "node_at mem (base pool + plength pool) (base pool + span pre) b"
    "base pool + span pre + extent b \<le> base pool + plength pool"
  using assms by (auto simp: pool_ok_def seg_append)

section \<open>Freeing\<close>

lemma mark_free:
  assumes ok: "pool_ok pool mem (pre @ b # post)"
  shows "pool_ok pool (mem(m_status (base pool + span pre) := memnode_free)) (pre @ b\<lparr>bl_used := False\<rparr> # post)"
proof -
  let ?e = "base pool + plength pool" and ?a = "base pool + span pre"
  let ?b = "b\<lparr>bl_used := False\<rparr>"
  let ?m = "mem(m_status ?a := memnode_free)"
  have ext: "extent ?b = extent b"
    by (simp add: extent_def)
  have nd': "node_at ?m ?e ?a ?b"
    using pool_node(1) [OF ok] by (simp add: node_at_def blk_ok_def m_status_def memnode_free_def ext)
  have "pool_ok pool ?m (pre @ [?b] @ post)"
  proof (rule pool_replace [where xs = "[b]"])
    show "pool_ok pool mem (pre @ [b] @ post)" using ok by simp
    show "seg ?m ?e ?a [?b]" using nd' by simp
  qed (auto simp: ext m_status_def extent_def)
  then show ?thesis by simp
qed

lemma kfree_spec:
  assumes ok: "pool_ok pool mem (pre @ b # post)" and used: "bl_used b"
  shows "returns (kfree pool (bl_data b) mem) (\<lambda>mem'. \<exists>bs'. pool_ok pool mem' bs' \<and> coalesced bs'
    \<and> shape bs' = norm (shape (pre @ b\<lparr>bl_used := False\<rparr> # post)) \<and> allocs bs' = allocs pre @ allocs post
    \<and> (\<forall>x. x \<notin> free_cells (base pool) (pre @ b\<lparr>bl_used := False\<rparr> # post) \<longrightarrow> mem' x = mem x))"
proof -
  let ?e = "base pool + plength pool" and ?a = "base pool + span pre"
  let ?b = "b\<lparr>bl_used := False\<rparr>"
  let ?m = "mem(m_status ?a := memnode_free)"
  have nd: "node_at mem ?e ?a b" and le: "?a + extent b \<le> ?e"
    using pool_node [OF ok] by simp_all
  have dat: "?a + 24 \<le> bl_data b" "bl_data b + bl_size b \<le> ?a + extent b" "0 < bl_size b"
    using nd used by (simp_all add: node_at_def blk_ok_def)
  have k: "kfree pool (bl_data b) mem = kmemcompact pool ?m"
    using node_next(2,6) [OF nd] used dat le by (simp add: kfree_def)
  show ?thesis
    using kmemcompact_spec [OF mark_free [OF ok]] unfolding k
  proof (rule returns_mono)
    fix mem'
    assume A: "\<exists>bs'. pool_ok pool mem' bs' \<and> coalesced bs' \<and> shape bs' = norm (shape (pre @ ?b # post))
      \<and> allocs bs' = allocs (pre @ ?b # post) \<and> (\<forall>x. x \<notin> free_cells (base pool) (pre @ ?b # post) \<longrightarrow> mem' x = ?m x)"
    have "m_status ?a \<in> free_cells (base pool) (pre @ ?b # post)"
      by (simp add: free_cells_append m_status_def extent_def)
    then have "?m x = mem x" if "x \<notin> free_cells (base pool) (pre @ ?b # post)" for x
      using that by auto
    moreover have "allocs (pre @ ?b # post) = allocs pre @ allocs post"
      by simp
    ultimately show "\<exists>bs'. pool_ok pool mem' bs' \<and> coalesced bs'
      \<and> shape bs' = norm (shape (pre @ ?b # post)) \<and> allocs bs' = allocs pre @ allocs post
      \<and> (\<forall>x. x \<notin> free_cells (base pool) (pre @ ?b # post) \<longrightarrow> mem' x = mem x)"
      using A by metis
  qed
qed

section \<open>Allocating\<close>

definition fits :: "nat \<Rightarrow> nat \<Rightarrow> nat \<Rightarrow> blk \<Rightarrow> bool" where
  "fits s al a b \<longleftrightarrow> \<not> bl_used b \<and> need s al (a + 24) \<le> bl_len b"

lemma not_fits:
  "\<not> fits s al a b \<Longrightarrow> \<not> bl_used b \<Longrightarrow> bl_len b < (if al dvd a + 24 then s else (al - (a + 24) mod al) + 2 * s)"
  by (auto simp: fits_def need_def split: if_splits)

text \<open>First fit.\<close>

lemma find_spec:
  assumes al: "al = 2 ^ k" "2 * s + al < 2 ^ 32"
  shows "seg mem e a bs \<Longrightarrow> a + span bs = e \<Longrightarrow> 0 < a \<Longrightarrow>
    returns (kmalloc_find s al (nxt e a) mem) (\<lambda>m.
      m = 0 \<and> (\<forall>pre b post. bs = pre @ b # post \<longrightarrow> \<not> fits s al (a + span pre) b)
    \<or> (\<exists>pre b post. bs = pre @ b # post \<and> m = a + span pre \<and> fits s al m b))"
proof (induction bs arbitrary: a)
  case Nil
  then show ?case by (subst kmalloc_find.simps) (simp add: nxt_def)
next
  case (Cons b bs)
  have nd: "node_at mem e a b" using Cons.prems(1) by simp
  have "nxt e a = a" using Cons.prems(2) extent_pos [of b] by (simp add: nxt_def del: extent_pos)
  then have step: "kmalloc_find s al (nxt e a) mem
      = (if fits s al a b then Some a else kmalloc_find s al (nxt e (a + extent b)) mem)"
    using Cons.prems(3) node_next [OF nd]
    by (subst kmalloc_find.simps)
       (simp add: fits_def realsize_need [OF al] memnode_data_def sizeof_memnode_def memnode_alloc_def memnode_free_def)
  show ?case
  proof (cases "fits s al a b")
    case True
    then have "b # bs = [] @ b # bs \<and> a = a + span [] \<and> fits s al a b" by simp
    then show ?thesis unfolding step using True by (simp only: if_True returns_Some) blast
  next
    case False
    have "returns (kmalloc_find s al (nxt e (a + extent b)) mem) (\<lambda>m.
        m = 0 \<and> (\<forall>pre c post. bs = pre @ c # post \<longrightarrow> \<not> fits s al (a + extent b + span pre) c)
      \<or> (\<exists>pre c post. bs = pre @ c # post \<and> m = a + extent b + span pre \<and> fits s al m c))"
      using Cons.prems by (intro Cons.IH) simp_all
    then show ?thesis
      unfolding step if_not_P [OF False]
    proof (rule returns_mono)
      fix m
      assume "m = 0 \<and> (\<forall>pre c post. bs = pre @ c # post \<longrightarrow> \<not> fits s al (a + extent b + span pre) c)
        \<or> (\<exists>pre c post. bs = pre @ c # post \<and> m = a + extent b + span pre \<and> fits s al m c)"
      then show "m = 0 \<and> (\<forall>pre c post. b # bs = pre @ c # post \<longrightarrow> \<not> fits s al (a + span pre) c)
        \<or> (\<exists>pre c post. b # bs = pre @ c # post \<and> m = a + span pre \<and> fits s al m c)"
      proof
        assume none: "m = 0 \<and> (\<forall>pre c post. bs = pre @ c # post \<longrightarrow> \<not> fits s al (a + extent b + span pre) c)"
        then have "\<forall>pre c post. b # bs = pre @ c # post \<longrightarrow> \<not> fits s al (a + span pre) c"
          using False by (auto simp: Cons_eq_append_conv add.assoc)
        then show ?thesis using none by simp
      next
        assume "\<exists>pre c post. bs = pre @ c # post \<and> m = a + extent b + span pre \<and> fits s al m c"
        then obtain pre c post where "b # bs = (b # pre) @ c # post \<and> m = a + span (b # pre) \<and> fits s al m c"
          by (auto simp: add.assoc)
        then show ?thesis by blast
      qed
    qed
  qed
qed

text \<open>The place of the user data in a block that fits.\<close>

lemma fits_place:
  assumes al: "al = 2 ^ k" "4 dvd al" and "blk_ok a b" "fits s al a b" "a + extent b + al < 2 ^ 32" "4 dvd s" "0 < s"
  defines "d \<equiv> align_up (a + 24) al"
  shows "al dvd d" "4 dvd d" "a + 24 \<le> d" "d + s + (bl_len b - need s al (a + 24)) \<le> a + extent b"
proof -
  have lt: "a + 24 + al < 2 ^ 32" using assms(5) by (simp add: extent_def)
  show "al dvd d" "a + 24 \<le> d" using align_up_props [OF al(1) lt] by (simp_all add: d_def)
  with al(2) show "4 dvd d" by (blast intro: dvd_trans)
  have "need s al (a + 24) \<le> bl_len b" using assms(4) by (simp add: fits_def)
  then show "d + s + (bl_len b - need s al (a + 24)) \<le> a + extent b"
    unfolding d_def align_up_eq [OF al(1) lt] need_def extent_def by (auto split: if_splits)
qed

text \<open>A block is taken as a whole, or split.\<close>

definition taken :: "nat \<Rightarrow> nat \<Rightarrow> blk \<Rightarrow> blk" where
  "taken d s b = b\<lparr>bl_used := True, bl_data := d, bl_size := s\<rparr>"

definition front :: "nat \<Rightarrow> nat \<Rightarrow> nat \<Rightarrow> blk" where
  "front a d s = \<lparr>bl_len = d + s - (a + 24), bl_used = True, bl_data = d, bl_size = s\<rparr>"

definition rest :: "nat \<Rightarrow> nat \<Rightarrow> blk" where
  "rest n e = \<lparr>bl_len = e - (n + 24), bl_used = False, bl_data = n + 24, bl_size = 0\<rparr>"

definition mark :: "nat \<Rightarrow> nat \<Rightarrow> mem \<Rightarrow> mem" where
  "mark a d mem = (mem(m_data a := d, m_status a := memnode_alloc))(d - 4 := a)"

lemma taken_node:
  assumes "node_at mem e a b" "4 dvd d" "a + 24 \<le> d" "d + s \<le> a + extent b" "0 < s"
  shows "node_at (mark a d mem) e a (taken d s b)"
proof -
  have "d - 4 \<ge> a + 20" using assms(3) by simp
  then show ?thesis
    using assms by (auto simp: node_at_def blk_ok_def mark_def taken_def extent_def m_data_def m_status_def memnode_alloc_def)
qed

lemma mark_frame: "a + 24 \<le> d \<Longrightarrow> d \<le> a + extent b \<Longrightarrow> x \<notin> {a..<a + extent b} \<Longrightarrow> mark a d mem x = mem x"
  by (auto simp: mark_def m_data_def m_status_def extent_def)

lemma usub_eq:
  assumes "y \<le> x" "x < 2 ^ 32"
  shows "usub x y = x - y"
proof -
  have "x + (2 ^ 32 - y) = (x - y) + 2 ^ 32"
    using assms by simp
  moreover have "(x - y) mod 2 ^ 32 = x - y"
    using assms by (intro mod_less) linarith
  ultimately show ?thesis
    by (simp only: usub_def w32_def mod_add_self2)
qed

lemma split_nodes:
  assumes nd: "node_at mem e a b" and d: "4 dvd d" "a + 24 \<le> d" and s: "4 dvd s" "0 < s"
    and n: "d + s + 24 \<le> a + extent b" and e: "a + extent b \<le> e" "e < 2 ^ 32"
  defines "m \<equiv> kmalloc_split a (d + s) (mark a d mem)"
  shows "seg m e a [front a d s, rest (d + s) (a + extent b)]"
    "\<And>x. x \<notin> {a..<a + extent b} \<Longrightarrow> m x = mem x"
proof -
  define k where "k = d + s"
  have dk: "a + 20 \<le> d - 4" "d - 4 < k" "a + 24 < k" "4 dvd k" "k + 24 \<le> a + extent b"
    using d s n by (simp_all add: k_def)
  have four: "4 dvd a" "4 dvd bl_len b" "4 dvd extent b"
    using nd by (simp_all add: node_at_def blk_ok_def extent_def)
  have up: "align_up k 4 = k"
    using and_mask_mod [of k 2] dk(4) by (simp add: align_up_def dvd_eq_mod_eq_0)
  have us: "usub k (a + 24) = k - (a + 24)" "usub (a + extent b) (k + 24) = a + extent b - (k + 24)"
    using dk e by (intro usub_eq; linarith)+
  have fields: "mark a d mem (a + 4) = nxt e (a + extent b)" "mark a d mem (a + 8) = bl_len b"
    "mark a d mem a = MEMNODE_SEAL" "mark a d mem (a + 16) = d" "mark a d mem (d - 4) = a"
    using nd dk(1) by (simp_all add: node_at_def mark_def m_data_def m_status_def)
  have w: "w32 (a + 24 + bl_len b) = a + extent b"
    using e by (simp add: w32_def extent_def)
  have m: "m = (mark a d mem)(k + 4 := nxt e (a + extent b), a + 8 := k - (a + 24), a + 4 := k, a + 12 := 1,
      k := MEMNODE_SEAL, k + 16 := k + 24, k + 8 := a + extent b - (k + 24), k + 12 := 0)"
    unfolding m_def kmalloc_split_def k_def [symmetric] up Let_def m_next_def m_length_def m_status_def m_seal_def m_data_def
      memnode_data_def sizeof_memnode_def memnode_alloc_def memnode_free_def fields w us ..
  have ex: "a + extent (front a d s) = k" "k + extent (rest k (a + extent b)) = a + extent b"
    using dk by (simp_all add: front_def rest_def extent_def k_def)
  have "blk_ok a (front a d s)" "blk_ok k (rest k (a + extent b))"
    using four dk d s by (simp_all add: blk_ok_def extent_def front_def rest_def k_def)
  moreover have "nxt e k = k"
    using dk(5) e(1) by (simp add: nxt_def)
  ultimately show "seg m e a [front a d s, rest (d + s) (a + extent b)]"
    unfolding k_def [symmetric] seg.simps node_at_def ex
    using dk fields by (simp add: m front_def rest_def k_def [symmetric])
  show "m x = mem x" if "x \<notin> {a..<a + extent b}" for x
  proof -
    have "mark a d mem x = mem x"
      using dk(2,5) d(2) that by (intro mark_frame) simp_all
    then show ?thesis using that dk by (auto simp: m)
  qed
qed

text \<open>A request the 32-bit arithmetic of the allocator can represent, on a pool away from the end of memory.\<close>

definition request_ok :: "mempool \<Rightarrow> nat \<Rightarrow> nat \<Rightarrow> bool" where
  "request_ok pool sz align \<longleftrightarrow> (align < 4 \<or> (\<exists>k < 32. align = 2 ^ k)) \<and> 2 * (sz + 4) + kmalloc_align align < 2 ^ 32 \<and>
     base pool + plength pool + kmalloc_align align < 2 ^ 32"

lemma request_align:
  assumes "request_ok pool sz align"
  obtains k where "kmalloc_align align = 2 ^ k" "4 dvd kmalloc_align align"
proof (cases "align < 4")
  case True
  then show thesis using that [of 3] by (simp add: kmalloc_align_def)
next
  case False
  then obtain k where k: "align = 2 ^ k" using assms by (auto simp: request_ok_def)
  then have "2 \<le> k" using False power_increasing [of k 1 "2 :: nat"] by (cases "k \<le> 1") auto
  then have "4 dvd align" unfolding k using le_imp_power_dvd [of 2 k "2 :: nat"] by simp
  then show thesis using that [of k] k False by (simp add: kmalloc_align_def)
qed

text \<open>What replaces the block \<open>b\<close> at \<open>a\<close>.\<close>

definition allocated :: "nat \<Rightarrow> nat \<Rightarrow> nat \<Rightarrow> blk \<Rightarrow> blk list \<Rightarrow> bool" where
  "allocated a d s b ys \<longleftrightarrow> ys = [taken d s b] \<or>
     ys = [front a d s, rest (d + s) (a + extent b)] \<and> a + 24 \<le> d \<and> d + s + 24 \<le> a + extent b"

lemma allocated_span: "allocated a d s b ys \<Longrightarrow> span ys = extent b \<and> ys \<noteq> []"
  by (auto simp: allocated_def taken_def front_def rest_def extent_def)

lemma kmalloc_spec:
  assumes ok: "pool_ok pool mem bs" and rq: "request_ok pool sz align"
  defines "s \<equiv> kmalloc_size sz" and "al \<equiv> kmalloc_align align"
  shows "returns (kmalloc pool sz align mem) (\<lambda>(p, mem').
      p = 0 \<and> mem' = mem \<and> (\<forall>pre b post. bs = pre @ b # post \<longrightarrow> \<not> fits s al (base pool + span pre) b)
    \<or> (\<exists>pre b post ys. bs = pre @ b # post \<and> \<not> bl_used b \<and> p \<noteq> 0 \<and> al dvd p
        \<and> allocated (base pool + span pre) p s b ys \<and> pool_ok pool mem' (pre @ ys @ post)
        \<and> (\<forall>x. x \<notin> {base pool + span pre..<base pool + span pre + extent b} \<longrightarrow> mem' x = mem x)))"
proof -
  let ?e = "base pool + plength pool"
  obtain k where al: "al = 2 ^ k" "4 dvd al"
    using request_align [OF rq] by (auto simp: al_def)
  have rq': "2 * (sz + 4) + al < 2 ^ 32" and ea: "?e + al < 2 ^ 32"
    using rq unfolding request_ok_def al_def by blast+
  have "sz + 4 < 2 ^ 32"
    using rq' by simp
  then have s: "4 dvd s" "0 < s" "s \<le> sz + 4"
    using kmalloc_size_props [of sz] by (simp_all add: s_def)
  then have rs: "2 * s + al < 2 ^ 32"
    using rq' by simp
  have sg: "seg mem ?e (base pool) bs" "base pool + span bs = ?e" "0 < base pool"
    using ok by (simp_all add: pool_ok_def)
  obtain m where m: "kmalloc_find s al (root pool) mem = Some m"
    and cs: "m = 0 \<and> (\<forall>pre b post. bs = pre @ b # post \<longrightarrow> \<not> fits s al (base pool + span pre) b)
      \<or> (\<exists>pre b post. bs = pre @ b # post \<and> m = base pool + span pre \<and> fits s al m b)"
    by (rule returnsE [OF find_spec [OF al(1) rs sg, folded pool_ok_root [OF ok]]]) blast
  show ?thesis
  proof (cases "m = 0")
    case True
    then have "\<forall>pre b post. bs = pre @ b # post \<longrightarrow> \<not> fits s al (base pool + span pre) b"
      using cs sg(3) by auto
    then show ?thesis
      using m True by (simp add: kmalloc_def Let_def s_def [symmetric] al_def [symmetric])
  next
    case False
    then obtain pre b post where bs: "bs = pre @ b # post" "m = base pool + span pre" and fit: "fits s al m b"
      using cs by blast
    have nd: "node_at mem ?e m b" and le: "m + extent b \<le> ?e"
      using pool_node [of pool mem pre b post] ok bs by simp_all
    define d where "d = align_up (m + 24) al"
    have "blk_ok m b" using nd by (simp add: node_at_def)
    from fits_place [OF al this fit _ s(1,2)] le ea
    have d: "al dvd d" "4 dvd d" "m + 24 \<le> d" "d + s + (bl_len b - need s al (m + 24)) \<le> m + extent b"
      unfolding d_def by linarith+
    have w: "w32 (d + s) = d + s"
      using d(4) le ea by (simp add: w32_def)
    have "m + 8 \<noteq> d - 4"
      using d(3) by linarith
    then have len: "mark m d mem (m_length m) = bl_len b"
      using node_next(4) [OF nd] by (simp add: mark_def m_length_def m_data_def m_status_def)
    have run: "kmalloc pool sz align mem = Some (d, if bl_len b - need s al (m + 24) < MINBLKSIZE
        then mark m d mem else kmalloc_split m (d + s) (mark m d mem))"
      unfolding kmalloc_def Let_def s_def [symmetric] al_def [symmetric] m Option.bind.bind_lunit
        realsize_need [OF al(1) rs] memnode_data_def sizeof_memnode_def d_def [symmetric] mark_def [symmetric] len w
      using False by simp
    obtain mem' ys where r: "kmalloc pool sz align mem = Some (d, mem')" and al': "allocated m d s b ys"
      and sg': "seg mem' ?e m ys" and fr: "\<And>x. x \<notin> {m..<m + extent b} \<Longrightarrow> mem' x = mem x"
    proof (cases "bl_len b - need s al (m + 24) < MINBLKSIZE")
      case True
      show thesis
      proof (rule that)
        show "kmalloc pool sz align mem = Some (d, mark m d mem)" using run True by simp
        show "allocated m d s b [taken d s b]" by (simp add: allocated_def)
        show "seg (mark m d mem) ?e m [taken d s b]" using taken_node [OF nd d(2,3) _ s(2)] d(4) by simp
        show "\<And>x. x \<notin> {m..<m + extent b} \<Longrightarrow> mark m d mem x = mem x"
          using d(3,4) by (intro mark_frame) simp_all
      qed
    next
      case False
      then have n: "d + s + 24 \<le> m + extent b"
        using d(4) by (simp add: MINBLKSIZE_def)
      have "?e < 2 ^ 32" using ea by linarith
      note sp = split_nodes [OF nd d(2,3) s(1,2) n le this]
      show thesis
      proof (rule that)
        show "kmalloc pool sz align mem = Some (d, kmalloc_split m (d + s) (mark m d mem))" using run False by simp
        show "allocated m d s b [front m d s, rest (d + s) (m + extent b)]" using d(3) n by (simp add: allocated_def)
      qed (use sp in simp_all)
    qed
    have "pool_ok pool mem' (pre @ ys @ post)"
    proof (rule pool_replace [where xs = "[b]"])
      show "pool_ok pool mem (pre @ [b] @ post)" using ok bs(1) by simp
      show "seg mem' ?e (base pool + span pre) ys" using sg' bs(2) by simp
    qed (use allocated_span [OF al'] fr bs(2) in simp_all)
    then have "\<exists>pre b post ys. bs = pre @ b # post \<and> \<not> bl_used b \<and> d \<noteq> 0 \<and> al dvd d
        \<and> allocated (base pool + span pre) d s b ys \<and> pool_ok pool mem' (pre @ ys @ post)
        \<and> (\<forall>x. x \<notin> {base pool + span pre..<base pool + span pre + extent b} \<longrightarrow> mem' x = mem x)"
      using bs fit d(1,3) al' fr by (intro exI [of _ pre] exI [of _ b] exI [of _ post] exI [of _ ys]) (simp add: fits_def)
    then show ?thesis
      unfolding r returns_Some prod.case by (rule disjI2)
  qed
qed

section \<open>Consequences of the representation\<close>

lemma allocated_allocs:
  assumes "allocated a d s b ys" "\<not> bl_used b"
  shows "allocs (pre @ ys @ post) = allocs pre @ (d, s) # allocs post" "allocs (pre @ b # post) = allocs pre @ allocs post"
  using assms by (auto simp: allocated_def taken_def front_def rest_def)

lemma live_kept:
  assumes "pool_ok pool mem bs" "\<forall>x. x \<notin> free_cells (base pool) bs \<longrightarrow> mem' x = mem x"
  shows "\<forall>(q, t) \<in> set (allocs bs). \<forall>x \<in> {q..<q + t}. mem' x = mem x"
  using assms alloc_not_free [of mem "base pool + plength pool" "base pool" bs] by (auto simp: pool_ok_def)

lemma allocs_split:
  assumes "allocs bs = xs @ (p, s) # ys"
  obtains pre b post where "bs = pre @ b # post" "bl_used b" "bl_data b = p" "bl_size b = s" "allocs pre = xs" "allocs post = ys"
  using assms
proof (induction bs arbitrary: xs thesis)
  case (Cons b bs)
  show ?case
  proof (cases "bl_used b")
    case False
    then have "allocs bs = xs @ (p, s) # ys" using Cons.prems(2) by simp
    from Cons.IH [OF _ this] obtain pre c post where "bs = pre @ c # post" "bl_used c" "bl_data c = p" "bl_size c = s"
      "allocs pre = xs" "allocs post = ys" by blast
    then show thesis using Cons.prems(1) [of "b # pre" c post] False by simp
  next
    case used: True
    show thesis
    proof (cases xs)
      case Nil
      then show thesis using Cons.prems(1) [of "[]" b bs] Cons.prems(2) used by simp
    next
      case (Cons x xs')
      then have "allocs bs = xs' @ (p, s) # ys" "x = (bl_data b, bl_size b)" using Cons.prems(2) used by simp_all
      from Cons.IH [OF _ this(1)] obtain pre c post where "bs = pre @ c # post" "bl_used c" "bl_data c = p" "bl_size c = s"
        "allocs pre = xs'" "allocs post = ys" by blast
      then show thesis using Cons.prems(1) [of "b # pre" c post] used Cons \<open>x = _\<close> by simp
    qed
  qed
qed simp

lemma pool_ok_allocs:
  assumes "pool_ok pool mem bs"
  shows "disjoint_allocs (allocs bs)"
    and "(p, s) \<in> set (allocs bs) \<Longrightarrow> base pool + 24 \<le> p \<and> p + s \<le> base pool + plength pool"
  using assms allocs_disjoint [of mem "base pool + plength pool" "base pool" bs]
    alloc_range [of mem "base pool + plength pool" "base pool" bs p s] by (auto simp: pool_ok_def)

lemma shape_append: "shape (xs @ ys) = shape xs @ shape ys" "shape (b # ys) = (bl_len b, bl_used b) # shape ys" "shape [] = []"
  by (simp_all add: shape_def)

lemma norm_middle: "norm zs = norm zs' \<Longrightarrow> norm (xs @ zs) = norm (xs @ zs')"
  by (induction xs) simp_all

text \<open>Freeing what was just allocated leaves a pool with the normal form it had.\<close>

lemma allocated_norm:
  assumes "allocated a d s b ys" "\<not> bl_used b"
  obtains c cs where "ys = c # cs" "bl_used c" "bl_data c = d"
    "norm (shape (pre @ c\<lparr>bl_used := False\<rparr> # cs @ post)) = norm (shape (pre @ b # post))"
    "allocs (pre @ cs @ post) = allocs (pre @ b # post)"
proof -
  from assms(1) consider "ys = [taken d s b]"
    | "ys = [front a d s, rest (d + s) (a + extent b)]" "d + s + 24 \<le> a + extent b" "a + 24 \<le> d"
    by (auto simp: allocated_def)
  then show thesis
  proof cases
    case 1
    then show thesis
      using that [of "taken d s b" "[]"] assms(2) by (simp add: taken_def shape_append)
  next
    case 2
    let ?l = "d + s - (a + 24)" and ?r = "a + extent b - (d + s + 24)"
    have "?l + (24 + ?r) = bl_len b"
      using 2(2,3) by (simp add: extent_def)
    then have "norm ((?l, False) # (?r, False) # shape post) = norm ((bl_len b, False) # shape post)"
      by (simp only: norm_simps cons_norm_join)
    then have "norm (shape pre @ (?l, False) # (?r, False) # shape post) = norm (shape pre @ (bl_len b, False) # shape post)"
      by (rule norm_middle)
    then show thesis
      using that [of "front a d s" "[rest (d + s) (a + extent b)]"] 2(1) assms(2)
      by (simp add: front_def rest_def shape_append)
  qed
qed

section \<open>The consistency check\<close>

lemma node_consistent:
  assumes "node_at mem e a b" "a + extent b \<le> e" "e < 2 ^ 32"
  shows "node_consistent a mem"
proof -
  have "w32 (a + 24 + bl_len b) = a + extent b"
    using assms(2,3) by (simp add: w32_def extent_def)
  then show ?thesis
    using node_next [OF assms(1)] assms(1)
    by (auto simp: node_consistent_def memnode_data_def sizeof_memnode_def nxt_def node_at_def blk_ok_def
        memnode_alloc_def memnode_free_def)
qed

text \<open>The bytes of the used and of the free blocks, and the longest free block.\<close>

definition bytes_in :: "(blk \<Rightarrow> bool) \<Rightarrow> blk list \<Rightarrow> nat" where
  "bytes_in P bs = sum_list (map bl_len (filter P bs))"

definition longest_free :: "blk list \<Rightarrow> nat" where
  "longest_free bs = foldr max (map bl_len (filter (Not \<circ> bl_used) bs)) 0"

definition stats_ok :: "blk list \<Rightarrow> memstats \<Rightarrow> memstats \<Rightarrow> bool" where
  "stats_ok bs s t \<longleftrightarrow> mem_totalbytes t = mem_totalbytes s \<and>
     mem_allocnodes t = mem_allocnodes s + of_nat (length (filter bl_used bs)) \<and>
     mem_freenodes t = mem_freenodes s + of_nat (length (filter (Not \<circ> bl_used) bs)) \<and>
     mem_allocbytes t = mem_allocbytes s + of_nat (bytes_in bl_used bs) \<and>
     mem_freebytes t = mem_freebytes s + of_nat (bytes_in (Not \<circ> bl_used) bs) \<and>
     unat (mem_largest t) = max (unat (mem_largest s)) (longest_free bs)"

lemma span_bytes: "span bs = bytes_in bl_used bs + bytes_in (Not \<circ> bl_used) bs + 24 * length bs"
  by (induction bs) (simp_all add: bytes_in_def extent_def)

lemma longest_free_le: "longest_free bs \<le> bytes_in (Not \<circ> bl_used) bs"
  by (induction bs) (auto simp: longest_free_def bytes_in_def)

lemma stats_node_ok:
  assumes "node_at mem e a b" "bl_len b < 2 ^ 32" "stats_ok bs (stats_node a mem s) t"
  shows "stats_ok (b # bs) s t"
proof -
  have u: "unat (of_nat (bl_len b) :: u32) = bl_len b"
    using assms(2) by (simp add: unsigned_of_nat take_bit_nat_eq_self)
  have mx: "unat (if x < of_nat (bl_len b) then of_nat (bl_len b) else x) = max (unat x) (bl_len b)" for x :: u32
    by (auto simp: word_less_nat_alt u)
  show ?thesis
    using assms(3) unfolding stats_ok_def stats_node_def node_next(3,4) [OF assms(1)]
    by (cases "bl_used b")
       (simp_all add: memnode_alloc_def memnode_free_def bytes_in_def longest_free_def mx max.assoc)
qed

lemma stats_loop_spec:
  "seg mem e a bs \<Longrightarrow> a + span bs = e \<Longrightarrow> 0 < a \<Longrightarrow> e < 2 ^ 32 \<Longrightarrow>
   returns (stats_loop (nxt e a) mem s) (\<lambda>(r, t). r = 0 \<and> stats_ok bs s t)"
proof (induction bs arbitrary: a s)
  case Nil
  then show ?case
    by (subst stats_loop.simps) (simp add: nxt_def stats_ok_def bytes_in_def longest_free_def)
next
  case (Cons b bs)
  have nd: "node_at mem e a b" using Cons.prems(1) by simp
  have c: "node_consistent a mem"
    using Cons.prems by (intro node_consistent [OF nd]) auto
  have "nxt e a = a" using Cons.prems(2) extent_pos [of b] by (simp add: nxt_def del: extent_pos)
  then have step: "stats_loop (nxt e a) mem s = stats_loop (nxt e (a + extent b)) mem (stats_node a mem s)"
    using Cons.prems(3) node_next(1) [OF nd] c by (subst stats_loop.simps) (simp add: Let_def)
  have "returns (stats_loop (nxt e (a + extent b)) mem (stats_node a mem s)) (\<lambda>(r, t). r = 0 \<and> stats_ok bs (stats_node a mem s) t)"
    using Cons.prems by (intro Cons.IH) simp_all
  moreover have "bl_len b < 2 ^ 32"
    using Cons.prems(2,4) by (simp add: extent_def)
  ultimately show ?case
    unfolding step using stats_node_ok [OF nd] by (auto elim!: returns_mono)
qed

lemma kmeminit_ok:
  assumes "0 < buffer" "4 dvd buffer" "4 dvd len" "24 \<le> len" "buffer + len < 2 ^ 32"
  shows "pool_ok (fst (kmeminit buffer len mem)) (snd (kmeminit buffer len mem)) [rest buffer (buffer + len)]"
proof -
  have "usub len 24 = len - 24" using assms by (intro usub_eq) simp_all
  then show ?thesis
    using assms
    by (simp add: pool_ok_def kmeminit_def rest_def extent_def node_at_def blk_ok_def nxt_def m_seal_def m_next_def
        m_length_def m_status_def m_data_def memnode_data_def sizeof_memnode_def memnode_free_def Let_def)
qed

text \<open>A pool of 1 KB at address \<open>0x1000\<close>.\<close>

definition sample_pool :: mempool where
  "sample_pool = fst (kmeminit 0x1000 0x400 (\<lambda>_. 0))"

definition sample_mem :: mem where
  "sample_mem = snd (kmeminit 0x1000 0x400 (\<lambda>_. 0))"

lemma sample_ok: "pool_ok sample_pool sample_mem [rest 0x1000 0x1400]"
  using kmeminit_ok [of "0x1000" "0x400" "\<lambda>_. 0"] by (simp add: sample_pool_def sample_mem_def)

lemma sample_fields: "base sample_pool = 0x1000" "plength sample_pool = 0x400"
  by (simp_all add: sample_pool_def kmeminit_def Let_def)

lemma sample_request: "request_ok sample_pool 10 0"
  by (simp add: request_ok_def sample_fields kmalloc_align_def)

section \<open>Properties\<close>

text \<open>
  C25: Allocation is safe.  \<open>kmalloc\<close> on a well-formed pool comes back.  If it returns NULL nothing
  has changed, and every free block was too short: shorter than the request where its data is aligned, and otherwise
  shorter than the padding and twice the request, since the source counts the size twice there.  If it does not, the
  result is aligned as requested, the pool is well formed with one more live allocation of at least the
  requested size, all live allocations lie in the pool and do not overlap, and the content of
  those that were live before is untouched.
\<close>

theorem kmalloc_correct:
  assumes "pool_ok pool mem bs" "request_ok pool sz align"
  shows "returns (kmalloc pool sz align mem) (\<lambda>(p, mem').
      if p = 0 then mem' = mem \<and> (\<forall>pre b post. bs = pre @ b # post \<and> \<not> bl_used b \<longrightarrow>
        (let d = base pool + span pre + 24; s = kmalloc_size sz; al = kmalloc_align align
         in bl_len b < (if al dvd d then s else (al - d mod al) + 2 * s)))
      else kmalloc_align align dvd p \<and> (\<exists>bs' xs ys s. pool_ok pool mem' bs' \<and> sz \<le> s
        \<and> allocs bs = xs @ ys \<and> allocs bs' = xs @ (p, s) # ys
        \<and> disjoint_allocs (allocs bs') \<and> base pool \<le> p \<and> p + sz \<le> base pool + plength pool
        \<and> (\<forall>(q, t) \<in> set (allocs bs). \<forall>x \<in> {q..<q + t}. mem' x = mem x)))"
  using kmalloc_spec [OF assms]
proof (rule returns_mono, goal_cases)
  case (1 r)
  obtain p mem' where r: "r = (p, mem')" by fastforce
  show ?case
  proof (cases "p = 0")
    case True
    then have "mem' = mem" and none: "\<And>pre b post. bs = pre @ b # post \<Longrightarrow>
        \<not> fits (kmalloc_size sz) (kmalloc_align align) (base pool + span pre) b"
      using 1(2) unfolding r by auto
    then show ?thesis
      using True not_fits unfolding r prod.case if_P [OF True] Let_def by blast
  next
    case False
    obtain pre b post ys where bs: "bs = pre @ b # post" "\<not> bl_used b" "kmalloc_align align dvd p"
      and al: "allocated (base pool + span pre) p (kmalloc_size sz) b ys" and ok': "pool_ok pool mem' (pre @ ys @ post)"
      and fr: "\<forall>x. x \<notin> {base pool + span pre..<base pool + span pre + extent b} \<longrightarrow> mem' x = mem x"
      using 1(2) False unfolding r by auto
    note as = allocated_allocs [OF al bs(2), of pre post]
    have "sz + 4 < 2 ^ 32" using assms(2) by (simp add: request_ok_def)
    then have s: "sz \<le> kmalloc_size sz" by (rule kmalloc_size_props)
    have "p + kmalloc_size sz \<le> base pool + plength pool" "base pool + 24 \<le> p"
      using pool_ok_allocs(2) [OF ok', of p "kmalloc_size sz"] as by simp_all
    moreover have "\<forall>x. x \<notin> free_cells (base pool) bs \<longrightarrow> mem' x = mem x"
      using fr bs(2) by (auto simp: bs(1) free_cells_append)
    note live_kept [OF assms(1) this]
    ultimately show ?thesis
      unfolding r prod.case if_not_P [OF False]
      using bs as ok' s pool_ok_allocs(1) [OF ok']
      by (intro conjI exI [of _ "pre @ ys @ post"] exI [of _ "allocs pre"] exI [of _ "allocs post"] exI [of _ "kmalloc_size sz"])
         simp_all
  qed
qed

theorem kmalloc_correct_witness:
  "returns (kmalloc sample_pool 10 0 sample_mem) (\<lambda>(p, mem'). p \<noteq> 0 \<and> 8 dvd p \<and> 0x1000 \<le> p \<and> p + 10 \<le> 0x1400)"
  using kmalloc_correct [OF sample_ok sample_request]
proof (rule returns_mono, goal_cases)
  case (1 r)
  obtain p mem' where r: "r = (p, mem')"
    by fastforce
  have "kmalloc_size 10 = 12"
    by (simp add: kmalloc_size_def clear_low_def w32_def)
  moreover have "(let d = base sample_pool + span [] + 24; s = kmalloc_size 10; al = kmalloc_align 0
      in bl_len (rest 0x1000 0x1400) < (if al dvd d then s else (al - d mod al) + 2 * s))" if "p = 0"
  proof -
    have "[rest 0x1000 0x1400] = [] @ rest 0x1000 0x1400 # [] \<and> \<not> bl_used (rest 0x1000 0x1400)"
      by (simp add: rest_def)
    then show ?thesis
      using 1(2) unfolding r prod.case if_P [OF that] by blast
  qed
  ultimately have "p \<noteq> 0"
    by (auto simp: sample_fields kmalloc_align_def rest_def)
  then show ?case
    using 1(2) by (auto simp: r sample_fields kmalloc_align_def)
qed

text \<open>
  C26: Freeing a live allocation comes back; exactly that allocation is gone, the others keep their
  place and their content, the pool is well formed, and no two neighbouring blocks are free.
\<close>

theorem kfree_correct:
  assumes "pool_ok pool mem bs" "allocs bs = xs @ (p, s) # ys"
  shows "returns (kfree pool p mem) (\<lambda>mem'. \<exists>bs'. pool_ok pool mem' bs' \<and> coalesced bs' \<and> allocs bs' = xs @ ys
    \<and> (\<forall>(q, t) \<in> set (xs @ ys). \<forall>x \<in> {q..<q + t}. mem' x = mem x))"
proof -
  obtain pre b post where bs: "bs = pre @ b # post" and b: "bl_used b" "bl_data b = p"
    and as: "allocs pre = xs" "allocs post = ys"
    by (rule allocs_split [OF assms(2)])
  let ?bs = "pre @ b\<lparr>bl_used := False\<rparr> # post"
  have ok: "pool_ok pool mem (pre @ b # post)"
    using assms(1) bs by simp
  have a: "allocs ?bs = xs @ ys"
    by (simp add: as)
  have live: "x \<notin> free_cells (base pool) ?bs" if "(q, t) \<in> set (xs @ ys)" "x \<in> {q..<q + t}" for q t x
    using mark_free [OF ok] alloc_not_free [of _ _ "base pool" ?bs q t x] that unfolding a [symmetric] pool_ok_def
    by auto
  show ?thesis
    using kfree_spec [OF ok b(1)] unfolding b(2) as
  proof (rule returns_mono)
    fix mem'
    assume "\<exists>bs'. pool_ok pool mem' bs' \<and> coalesced bs' \<and> shape bs' = norm (shape ?bs) \<and> allocs bs' = xs @ ys
      \<and> (\<forall>x. x \<notin> free_cells (base pool) ?bs \<longrightarrow> mem' x = mem x)"
    then obtain bs' where "pool_ok pool mem' bs' \<and> coalesced bs' \<and> allocs bs' = xs @ ys"
      and fr: "\<And>x. x \<notin> free_cells (base pool) ?bs \<Longrightarrow> mem' x = mem x"
      by blast
    moreover have "\<forall>(q, t) \<in> set (xs @ ys). \<forall>x \<in> {q..<q + t}. mem' x = mem x"
      using live fr by blast
    ultimately show "\<exists>bs'. pool_ok pool mem' bs' \<and> coalesced bs' \<and> allocs bs' = xs @ ys
      \<and> (\<forall>(q, t) \<in> set (xs @ ys). \<forall>x \<in> {q..<q + t}. mem' x = mem x)"
      by blast
  qed
qed

theorem kfree_correct_witness:
  "\<exists>bs. pool_ok sample_pool (mark 0x1000 0x1018 sample_mem) bs \<and> allocs bs = [(0x1018, 8)] \<and>
     returns (kfree sample_pool 0x1018 (mark 0x1000 0x1018 sample_mem))
       (\<lambda>mem'. \<exists>bs'. pool_ok sample_pool mem' bs' \<and> coalesced bs' \<and> allocs bs' = [])"
proof -
  let ?b = "taken 0x1018 8 (rest 0x1000 0x1400)" and ?m = "mark 0x1000 0x1018 sample_mem"
  have "node_at sample_mem 0x1400 0x1000 (rest 0x1000 0x1400)"
    using sample_ok by (simp add: pool_ok_def sample_fields)
  then have "node_at ?m 0x1400 0x1000 ?b"
    by (rule taken_node) (simp_all add: extent_def rest_def)
  then have ok: "pool_ok sample_pool ?m [?b]"
    using sample_ok by (simp add: pool_ok_def sample_fields taken_def extent_def rest_def)
  have a: "allocs [?b] = [] @ (0x1018, 8) # []"
    by (simp add: taken_def)
  have "returns (kfree sample_pool 0x1018 ?m)
      (\<lambda>mem'. \<exists>bs'. pool_ok sample_pool mem' bs' \<and> coalesced bs' \<and> allocs bs' = [])"
    using kfree_correct [OF ok a] by (rule returns_mono) auto
  then show ?thesis
    using ok a by (intro exI [of _ "[?b]"]) simp
qed

text \<open>
  C27: Allocating and freeing again gives the pool back: on a pool without neighbouring free blocks,
  the blocks have the same lengths and states as before, in the same order.
\<close>

theorem kmalloc_kfree_roundtrip:
  assumes "pool_ok pool mem bs" "request_ok pool sz align" "coalesced bs"
  shows "returns (do { (p, mem) \<leftarrow> kmalloc pool sz align mem; if p = 0 then Some mem else kfree pool p mem })
    (\<lambda>mem'. \<exists>bs'. pool_ok pool mem' bs' \<and> shape bs' = shape bs \<and> allocs bs' = allocs bs)"
  unfolding returns_bind using kmalloc_spec [OF assms(1,2)]
proof (rule returns_mono, goal_cases)
  case (1 r)
  obtain p mem' where r: "r = (p, mem')" by fastforce
  show ?case
  proof (cases "p = 0")
    case True
    then show ?thesis using 1(2) assms(1) unfolding r by auto
  next
    case False
    obtain pre b post ys where bs: "bs = pre @ b # post" "\<not> bl_used b"
      and al: "allocated (base pool + span pre) p (kmalloc_size sz) b ys" and ok': "pool_ok pool mem' (pre @ ys @ post)"
      using 1(2) False unfolding r by auto
    obtain c cs where c: "ys = c # cs" "bl_used c" "bl_data c = p"
      and n: "norm (shape (pre @ c\<lparr>bl_used := False\<rparr> # cs @ post)) = norm (shape (pre @ b # post))"
      and a: "allocs (pre @ cs @ post) = allocs (pre @ b # post)"
      by (rule allocated_norm [OF al bs(2)])
    have "returns (kfree pool p mem') (\<lambda>mem''. \<exists>bs'. pool_ok pool mem'' bs' \<and> coalesced bs'
        \<and> shape bs' = norm (shape (pre @ c\<lparr>bl_used := False\<rparr> # cs @ post)) \<and> allocs bs' = allocs pre @ allocs (cs @ post)
        \<and> (\<forall>x. x \<notin> free_cells (base pool) (pre @ c\<lparr>bl_used := False\<rparr> # cs @ post) \<longrightarrow> mem'' x = mem' x))"
      using kfree_spec [of pool mem' pre c "cs @ post"] ok' c by simp
    moreover have "norm (shape bs) = shape bs"
      by (rule norm_coalesced [OF assms(3)])
    ultimately show ?thesis
      using False a n unfolding r bs(1) by (auto elim!: returns_mono)
  qed
qed

theorem kmalloc_kfree_roundtrip_witness:
  "returns (do { (p, mem) \<leftarrow> kmalloc sample_pool 10 0 sample_mem; if p = 0 then Some mem else kfree sample_pool p mem })
    (\<lambda>mem'. \<exists>bs'. pool_ok sample_pool mem' bs' \<and> shape bs' = [(0x3E8, False)])"
proof -
  have "coalesced [rest 0x1000 0x1400]" "shape [rest 0x1000 0x1400] = [(0x3E8, False)]"
    by (simp_all add: shape_def rest_def)
  then show ?thesis
    using kmalloc_kfree_roundtrip [OF sample_ok sample_request] by (auto elim!: returns_mono simp del: returns_bind)
qed

text \<open>
  C28: The consistency check of the source, \<open>kmemstats\<close>, terminates and accepts every well-formed
  pool.  The numbers it reports, read as unsigned numbers, are right: the size of the pool, how many blocks are used
  and how many are free, the bytes of the used blocks and those of the free ones, and the length of the longest
  free block.
\<close>

theorem kmemstats_accepts:
  assumes "pool_ok pool mem bs"
  shows "returns (kmemstats pool mem) (\<lambda>(r, st). r = 0 \<and> unat (mem_totalbytes st) = plength pool
    \<and> unat (mem_allocnodes st) = length (filter bl_used bs) \<and> unat (mem_freenodes st) = length (filter (Not \<circ> bl_used) bs)
    \<and> unat (mem_allocbytes st) = sum_list (map bl_len (filter bl_used bs))
    \<and> unat (mem_freebytes st) = sum_list (map bl_len (filter (Not \<circ> bl_used) bs))
    \<and> unat (mem_largest st) = foldr max (map bl_len (filter (Not \<circ> bl_used) bs)) 0)"
proof -
  have pool: "seg mem (base pool + plength pool) (base pool) bs" "base pool + span bs = base pool + plength pool"
    "0 < base pool" "base pool + plength pool < 2 ^ 32" "span bs = plength pool"
    using assms by (simp_all add: pool_ok_def)
  have u: "unat (of_nat n :: u32) = n" if "n \<le> plength pool" for n
    using that pool(4) by (simp add: unsigned_of_nat take_bit_nat_eq_self)
  have n: "bytes_in bl_used bs \<le> plength pool" "bytes_in (Not \<circ> bl_used) bs \<le> plength pool"
    "length (filter P bs) \<le> plength pool" for P
    using span_bytes [of bs] pool(5) length_filter_le [of P bs] by linarith+
  from stats_loop_spec [OF pool(1-4), folded pool_ok_root [OF assms]]
  show ?thesis
    unfolding kmemstats_def
    by (rule returns_mono)
       (auto simp: stats_ok_def u n bytes_in_def [symmetric] longest_free_def [symmetric])
qed

theorem kmemstats_accepts_witness:
  "returns (kmemstats sample_pool sample_mem) (\<lambda>(r, st). r = 0 \<and> unat (mem_totalbytes st) = 0x400 \<and>
     unat (mem_freenodes st) = 1 \<and> unat (mem_allocbytes st) = 0 \<and> unat (mem_freebytes st) = 0x3E8 \<and> unat (mem_largest st) = 0x3E8)"
  using kmemstats_accepts [OF sample_ok]
  by (rule returns_mono) (auto simp: sample_fields rest_def)

end
