(* ===== verification/Mutex.thy ===== *)
theory Mutex
  imports Threads_Ops_Lemmas
begin

text \<open>
  Counting mutexes and condition variables, \<^verbatim>\<open>threads/mutex.c\<close> and \<^verbatim>\<open>threads/cond.c\<close>, on top of the
  thread model.  The state adds a store of \<open>MUTEX\<close> and of \<open>COND\<close> objects to the thread world; the
  waiting lists run through the \<open>NextThreadMutex\<close> and \<open>PreviousThreadMutex\<close> links of the threads.

  A thread that has to wait calls the scheduler and is resumed later.  What the rest of the system
  does in between is the parameter \<open>run\<close> of \<open>mutex_acquire\<close>.  The results of \<open>malloc\<close> are arguments.
\<close>

section \<open>State\<close>

record MUTEX =
  CurrentLockCount :: u32
  MaximumLockCount :: u32
  FirstWaiting :: tptr
  LastWaiting :: tptr

record COND =
  c_lock :: "nat option"
  waiting :: int
  signals :: int
  wait_sem :: "nat option"
  wait_done :: "nat option"

record sync =
  threads :: world
  mutexes :: "nat \<Rightarrow> MUTEX"
  conds :: "nat \<Rightarrow> COND"

definition supd :: "(world \<Rightarrow> world) \<Rightarrow> sync \<Rightarrow> sync" where
  "supd f st = st\<lparr>threads := f (threads st)\<rparr>"

definition mupd :: "nat \<Rightarrow> (MUTEX \<Rightarrow> MUTEX) \<Rightarrow> sync \<Rightarrow> sync" where
  "mupd a f st = st\<lparr>mutexes := (mutexes st)(a := f (mutexes st a))\<rparr>"

definition cupd :: "nat \<Rightarrow> (COND \<Rightarrow> COND) \<Rightarrow> sync \<Rightarrow> sync" where
  "cupd c f st = st\<lparr>conds := (conds st)(c := f (conds st c))\<rparr>"

definition mlock :: "nat \<Rightarrow> sync \<Rightarrow> sync option" where
  "mlock a st = map_option (\<lambda>s. st\<lparr>threads := s\<rparr>) (lock (MutexLock a) (threads st))"

definition munlock :: "nat \<Rightarrow> sync \<Rightarrow> sync" where
  "munlock a = supd (unlock (MutexLock a))"

text \<open>\<open>thread_get_current()->...\<close>\<close>

definition current :: "nat \<Rightarrow> sync \<Rightarrow> (nat \<times> sync) option" where
  "current c st = do {
     (pthr, s) \<leftarrow> thread_get_current c (threads st);
     p \<leftarrow> pthr;
     Some (p, st\<lparr>threads := s\<rparr>) }"

section \<open>Mutexes\<close>

definition mutex_create :: "nat option \<Rightarrow> u32 \<Rightarrow> sync \<Rightarrow> nat option \<times> sync" where
  "mutex_create malloc max_lock_count st = (case malloc of
     None \<Rightarrow> (None, st)
   | Some a \<Rightarrow> (Some a, munlock a (mupd a (\<lambda>_. \<lparr>CurrentLockCount = 0, MaximumLockCount = max_lock_count,
       FirstWaiting = None, LastWaiting = None\<rparr>) st)))"

text \<open>The object is locked when it is given to \<open>free\<close>.\<close>

definition mutex_destroy :: "nat \<Rightarrow> sync \<Rightarrow> sync option" where
  "mutex_destroy a st = mlock a st"

definition mutex_setlockcount :: "nat \<Rightarrow> u32 \<Rightarrow> sync \<Rightarrow> sync option" where
  "mutex_setlockcount a lock_count st = do {
     st \<leftarrow> mlock a st;
     Some (munlock a (mupd a (\<lambda>m. m\<lparr>MaximumLockCount := lock_count\<rparr>) st)) }"

definition mutex_sleep :: "dpc_call \<Rightarrow> nat \<Rightarrow> u32 \<Rightarrow> nat \<Rightarrow> sync \<Rightarrow> sync option" where
  "mutex_sleep call c milliseconds a st = do {
     let s = threads st;
     let sleep_time = millisecond_clock_time s + ucast milliseconds;
     let (_, s) = thread_raise_irql c 2 s;
     s \<leftarrow> lock (ProcessorLock c) s;
     cur \<leftarrow> CurrentThread (Processors s c);
     let s = tupd cur (\<lambda>t. t\<lparr>SleepTime := sleep_time\<rparr>) s;
     let s = unlock (MutexLock a) s;
     let s = unlock (ProcessorLock c) s;
     s \<leftarrow> system_call_handler call c s;
     Some (st\<lparr>threads := s\<rparr>) }"

definition mutex_enqueue :: "nat \<Rightarrow> nat \<Rightarrow> sync \<Rightarrow> sync" where
  "mutex_enqueue p a st = (let
     first = FirstWaiting (mutexes st a);
     last = LastWaiting (mutexes st a);
     st = supd (tupd p (\<lambda>t. t\<lparr>PreviousThreadMutex := last, NextThreadMutex := first\<rparr>)) st;
     st = (case first of
             Some f \<Rightarrow> supd (tupd f (\<lambda>t. t\<lparr>PreviousThreadMutex := Some p\<rparr>)) st
           | None \<Rightarrow> mupd a (\<lambda>m. m\<lparr>FirstWaiting := Some p\<rparr>) st);
     st = (case last of
             Some l \<Rightarrow> supd (tupd l (\<lambda>t. t\<lparr>NextThreadMutex := Some p\<rparr>)) st
           | None \<Rightarrow> st)
   in mupd a (\<lambda>m. m\<lparr>LastWaiting := Some p\<rparr>) st)"

definition mutex_unlink :: "nat \<Rightarrow> nat \<Rightarrow> sync \<Rightarrow> sync" where
  "mutex_unlink p a st = (let
     next = NextThreadMutex (ThreadPool (threads st) p);
     st = (case next of Some n \<Rightarrow> supd (tupd n (\<lambda>t. t\<lparr>PreviousThreadMutex :=
             PreviousThreadMutex (ThreadPool (threads st) p)\<rparr>)) st | None \<Rightarrow> st);
     st = (case PreviousThreadMutex (ThreadPool (threads st) p) of
             Some q \<Rightarrow> supd (tupd q (\<lambda>t. t\<lparr>NextThreadMutex := NextThreadMutex (ThreadPool (threads st) p)\<rparr>)) st
           | None \<Rightarrow> st);
     t = ThreadPool (threads st) p;
     st = mupd a (\<lambda>m. if FirstWaiting m = Some p then m\<lparr>FirstWaiting := NextThreadMutex t\<rparr> else m) st;
     st = mupd a (\<lambda>m. if LastWaiting m = Some p then m\<lparr>LastWaiting := PreviousThreadMutex t\<rparr> else m) st;
     st = mupd a (\<lambda>m. if FirstWaiting m = Some p then m\<lparr>FirstWaiting := None\<rparr> else m) st
   in mupd a (\<lambda>m. if LastWaiting m = Some p then m\<lparr>LastWaiting := None\<rparr> else m) st)"

text \<open>Up to the wait: either the mutex is taken (\<open>True\<close>) or the thread has gone to sleep.\<close>

definition mutex_acquire_begin :: "dpc_call \<Rightarrow> nat \<Rightarrow> nat \<Rightarrow> u32 \<Rightarrow> sync \<Rightarrow> (bool \<times> sync) option" where
  "mutex_acquire_begin call c a timeout st = do {
     st \<leftarrow> mlock a st;
     if CurrentLockCount (mutexes st a) < MaximumLockCount (mutexes st a)
     then Some (True, munlock a (mupd a (\<lambda>m. m\<lparr>CurrentLockCount := CurrentLockCount m + 1\<rparr>) st))
     else do {
       (p, st) \<leftarrow> current c st;
       let st = mutex_enqueue p a st;
       (q, st) \<leftarrow> current c st;
       let st = supd (tupd q (\<lambda>t. t\<lparr>WaitingForMutex := 1\<rparr>)) st;
       st \<leftarrow> mutex_sleep call c timeout a st;
       Some (False, st) } }"

text \<open>After the wait: a thread that is still marked as waiting leaves the list without the mutex.\<close>

definition mutex_acquire_end :: "nat \<Rightarrow> nat \<Rightarrow> sync \<Rightarrow> (bool \<times> sync) option" where
  "mutex_acquire_end c a st = do {
     st \<leftarrow> mlock a st;
     (p, st) \<leftarrow> current c st;
     if WaitingForMutex (ThreadPool (threads st) p) \<noteq> 0
     then do {
       (q, st) \<leftarrow> current c st;
       Some (False, munlock a (mutex_unlink q a st)) }
     else Some (True, munlock a st) }"

definition mutex_acquire :: "dpc_call \<Rightarrow> (sync \<Rightarrow> sync option) \<Rightarrow> nat \<Rightarrow> nat \<Rightarrow> u32 \<Rightarrow> sync \<Rightarrow> (bool \<times> sync) option" where
  "mutex_acquire call run c a timeout st = do {
     (taken, st) \<leftarrow> mutex_acquire_begin call c a timeout st;
     if taken then Some (True, st)
     else do { st \<leftarrow> run st; mutex_acquire_end c a st } }"

definition wake :: "nat \<Rightarrow> sync \<Rightarrow> sync" where
  "wake p = supd (tupd p (\<lambda>t. t\<lparr>WaitingForMutex := 0, SleepTime := 0\<rparr>))"

definition wake_first :: "nat \<Rightarrow> nat \<Rightarrow> sync \<Rightarrow> sync" where
  "wake_first p a st = (let
     st = mupd a (\<lambda>m. m\<lparr>FirstWaiting := NextThreadMutex (ThreadPool (threads st) p)\<rparr>) st;
     st = mupd a (\<lambda>m. if FirstWaiting m = Some p then m\<lparr>FirstWaiting := None\<rparr> else m) st;
     st = mupd a (\<lambda>m. if LastWaiting m = Some p then m\<lparr>LastWaiting := None\<rparr> else m) st;
     st = wake p st
   in mupd a (\<lambda>m. m\<lparr>CurrentLockCount := CurrentLockCount m + 1\<rparr>) st)"

partial_function (option) wake_loop :: "nat \<Rightarrow> sync \<Rightarrow> sync option" where
  [code]: "wake_loop a st = (case FirstWaiting (mutexes st a) of
     None \<Rightarrow> Some st
   | Some p \<Rightarrow> if CurrentLockCount (mutexes st a) < MaximumLockCount (mutexes st a)
       then wake_loop a (wake_first p a st) else Some st)"

definition mutex_release :: "nat \<Rightarrow> sync \<Rightarrow> sync option" where
  "mutex_release a st = do {
     st \<leftarrow> mlock a st;
     let st = mupd a (\<lambda>m. m\<lparr>CurrentLockCount := CurrentLockCount m - 1\<rparr>) st;
     st \<leftarrow> wake_loop a st;
     Some (munlock a st) }"

section \<open>Condition variables\<close>

definition MAX_SEMAPHORE :: u32 where "MAX_SEMAPHORE = 32 * 1024"
definition LOCK_INFINITE :: u32 where "LOCK_INFINITE = - 1"

definition cond_delete :: "nat option \<Rightarrow> sync \<Rightarrow> sync option" where
  "cond_delete c st = (case c of None \<Rightarrow> Some st | Some c \<Rightarrow> do {
     a \<leftarrow> wait_sem (conds st c); st \<leftarrow> mutex_destroy a st;
     a \<leftarrow> wait_done (conds st c); st \<leftarrow> mutex_destroy a st;
     a \<leftarrow> c_lock (conds st c); st \<leftarrow> mutex_destroy a st;
     Some st })"

text \<open>The first argument is the result of \<open>malloc\<close> for the object, the others those of its mutexes.\<close>

definition cond_create :: "nat option \<Rightarrow> nat option \<Rightarrow> nat option \<Rightarrow> nat option \<Rightarrow> sync \<Rightarrow> (nat option \<times> sync) option" where
  "cond_create mc ml ms md st = do {
     c \<leftarrow> mc;
     let (l, st) = mutex_create ml 1 st;
     let (ws, st) = mutex_create ms MAX_SEMAPHORE st;
     let (wd, st) = mutex_create md MAX_SEMAPHORE st;
     let st = cupd c (\<lambda>_. \<lparr>c_lock = l, waiting = 0, signals = 0, wait_sem = ws, wait_done = wd\<rparr>) st;
     if l = None \<or> ws = None \<or> wd = None
     then do { st \<leftarrow> cond_delete (Some c) st; Some (None, st) }
     else Some (Some c, st) }"

text \<open>\<open>mutex_acquire\<close> on a mutex pointer, with the result ignored as in the source.\<close>

definition acquire :: "dpc_call \<Rightarrow> (sync \<Rightarrow> sync option) \<Rightarrow> nat \<Rightarrow> nat option \<Rightarrow> sync \<Rightarrow> sync option" where
  "acquire call run cpu m st = do {
     a \<leftarrow> m;
     (_, st) \<leftarrow> mutex_acquire call run cpu a LOCK_INFINITE st;
     Some st }"

definition release :: "nat option \<Rightarrow> sync \<Rightarrow> sync option" where
  "release m st = Option.bind m (\<lambda>a. mutex_release a st)"

definition cond_wait :: "dpc_call \<Rightarrow> (sync \<Rightarrow> sync option) \<Rightarrow> nat \<Rightarrow> nat option \<Rightarrow> nat option \<Rightarrow> sync \<Rightarrow> sync option" where
  "cond_wait call run cpu cp m st = (case (cp, m) of (Some c, Some _) \<Rightarrow> do {
     st \<leftarrow> acquire call run cpu (c_lock (conds st c)) st;
     let st = cupd c (\<lambda>x. x\<lparr>waiting := waiting x + 1\<rparr>) st;
     st \<leftarrow> release (c_lock (conds st c)) st;
     st \<leftarrow> release m st;
     st \<leftarrow> acquire call run cpu (wait_sem (conds st c)) st;
     st \<leftarrow> acquire call run cpu (c_lock (conds st c)) st;
     st \<leftarrow> (if signals (conds st c) > 0 then do {
             st \<leftarrow> release (wait_done (conds st c)) st;
             Some (cupd c (\<lambda>x. x\<lparr>signals := signals x - 1\<rparr>) st) }
           else Some st);
     let st = cupd c (\<lambda>x. x\<lparr>waiting := waiting x - 1\<rparr>) st;
     st \<leftarrow> release (c_lock (conds st c)) st;
     acquire call run cpu m st }
   | _ \<Rightarrow> Some st)"

definition cond_signal :: "dpc_call \<Rightarrow> (sync \<Rightarrow> sync option) \<Rightarrow> nat \<Rightarrow> nat option \<Rightarrow> sync \<Rightarrow> sync option" where
  "cond_signal call run cpu cp st = (case cp of None \<Rightarrow> Some st | Some c \<Rightarrow> do {
     st \<leftarrow> acquire call run cpu (c_lock (conds st c)) st;
     if waiting (conds st c) > signals (conds st c) then do {
       let st = cupd c (\<lambda>x. x\<lparr>signals := signals x + 1\<rparr>) st;
       st \<leftarrow> release (wait_sem (conds st c)) st;
       st \<leftarrow> release (c_lock (conds st c)) st;
       acquire call run cpu (wait_done (conds st c)) st }
     else release (c_lock (conds st c)) st })"

primrec repeat :: "nat \<Rightarrow> (sync \<Rightarrow> sync option) \<Rightarrow> sync \<Rightarrow> sync option" where
  "repeat 0 f st = Some st"
| "repeat (Suc n) f st = Option.bind (f st) (repeat n f)"

definition cond_broadcast :: "dpc_call \<Rightarrow> (sync \<Rightarrow> sync option) \<Rightarrow> nat \<Rightarrow> nat option \<Rightarrow> sync \<Rightarrow> sync option" where
  "cond_broadcast call run cpu cp st = (case cp of None \<Rightarrow> Some st | Some c \<Rightarrow> do {
     st \<leftarrow> acquire call run cpu (c_lock (conds st c)) st;
     if waiting (conds st c) > signals (conds st c) then do {
       let num_waiting = nat (waiting (conds st c) - signals (conds st c));
       let st = cupd c (\<lambda>x. x\<lparr>signals := waiting x\<rparr>) st;
       st \<leftarrow> repeat num_waiting (\<lambda>st. release (wait_sem (conds st c)) st) st;
       st \<leftarrow> release (c_lock (conds st c)) st;
       repeat num_waiting (\<lambda>st. acquire call run cpu (wait_done (conds st c)) st) st }
     else release (c_lock (conds st c)) st })"

end
