(* ===== verification/Mutex_Claims.thy ===== *)
theory Mutex_Claims
  imports Mutex Threads_Claims
begin

text \<open>
  What mutexes and condition variables do: a release always ends and hands the mutex to a waiting
  thread; but the list of waiting threads is not kept when threads are woken, so that two waiters
  are enough to lose the mutex, and a condition variable starts with its semaphores full, so that
  waiting on it does not wait.
\<close>

section \<open>Field reads\<close>

lemma sync_reads [simp]:
  "threads (supd f st) = f (threads st)" "mutexes (supd f st) = mutexes st" "conds (supd f st) = conds st"
  "threads (mupd a g st) = threads st" "mutexes (mupd a g st) = (mutexes st)(a := g (mutexes st a))" "conds (mupd a g st) = conds st"
  "threads (cupd c k st) = threads st" "mutexes (cupd c k st) = mutexes st" "conds (cupd c k st) = (conds st)(c := k (conds st c))"
  by (simp_all add: supd_def mupd_def cupd_def)

lemma lock_reads [simp]:
  "locks (tupd p f s) = locks s" "locks (unlock l s) = (locks s)(l := False)"
  "ThreadPool (unlock l s) = ThreadPool s" "ThreadPool (tupd p f s) = (ThreadPool s)(p := f (ThreadPool s p))"
  by (simp_all add: tupd_def unlock_def)

text \<open>The mutex is not being operated on.\<close>

definition idle :: "nat \<Rightarrow> sync \<Rightarrow> bool" where
  "idle a st \<longleftrightarrow> \<not> locks (threads st) (MutexLock a)"

lemma mlock_idle:
  "idle a st \<Longrightarrow> mlock a st = Some (supd (\<lambda>s. s\<lparr>locks := (locks s)(MutexLock a := True)\<rparr>) st)"
  by (simp add: mlock_def lock_def idle_def supd_def)

lemma wake_first_reads:
  "mutexes (wake_first p a st) = (mutexes st)(a := (mutexes st a)\<lparr>
     CurrentLockCount := CurrentLockCount (mutexes st a) + 1,
     FirstWaiting := (let n = NextThreadMutex (ThreadPool (threads st) p) in if n = Some p then None else n),
     LastWaiting := (if LastWaiting (mutexes st a) = Some p then None else LastWaiting (mutexes st a))\<rparr>)"
  "ThreadPool (threads (wake_first p a st)) = (ThreadPool (threads st))(p := (ThreadPool (threads st) p)\<lparr>WaitingForMutex := 0, SleepTime := 0\<rparr>)"
  "locks (threads (wake_first p a st)) = locks (threads st)" "conds (wake_first p a st) = conds st"
  by (auto simp: wake_first_def wake_def Let_def)

section \<open>Releasing\<close>

lemma unat_u32_Suc: "unat (a :: u32) < unat (b :: u32) \<Longrightarrow> unat (a + 1) = Suc (unat a)"
  using unat_u32_less [of b] by (simp add: unat_word_ariths del: unat_u32_less)

text \<open>The wake-up loop ends: every round takes one of the free places of the mutex.\<close>

lemma wake_loop_returns:
  "returns (wake_loop a st) (\<lambda>st'.
     (FirstWaiting (mutexes st' a) = None \<or> \<not> CurrentLockCount (mutexes st' a) < MaximumLockCount (mutexes st' a))
   \<and> MaximumLockCount (mutexes st' a) = MaximumLockCount (mutexes st a)
   \<and> locks (threads st') = locks (threads st) \<and> conds st' = conds st \<and> (\<forall>b. b \<noteq> a \<longrightarrow> mutexes st' b = mutexes st b))"
proof (induction "unat (MaximumLockCount (mutexes st a)) - unat (CurrentLockCount (mutexes st a))" arbitrary: st rule: less_induct)
  case less
  show ?case
  proof (cases "FirstWaiting (mutexes st a)")
    case None
    then show ?thesis by (subst wake_loop.simps) simp
  next
    case (Some p)
    show ?thesis
    proof (cases "CurrentLockCount (mutexes st a) < MaximumLockCount (mutexes st a)")
      case False
      then show ?thesis using Some by (subst wake_loop.simps) simp
    next
      case True
      let ?st = "wake_first p a st"
      have "unat (CurrentLockCount (mutexes st a)) < unat (MaximumLockCount (mutexes st a))"
        using True by (simp add: word_less_nat_alt)
      moreover have "unat (CurrentLockCount (mutexes st a) + 1) = Suc (unat (CurrentLockCount (mutexes st a)))"
        using True by (intro unat_u32_Suc) (simp add: word_less_nat_alt)
      ultimately have "returns (wake_loop a ?st) (\<lambda>st'.
          (FirstWaiting (mutexes st' a) = None \<or> \<not> CurrentLockCount (mutexes st' a) < MaximumLockCount (mutexes st' a))
        \<and> MaximumLockCount (mutexes st' a) = MaximumLockCount (mutexes ?st a)
        \<and> locks (threads st') = locks (threads ?st) \<and> conds st' = conds ?st \<and> (\<forall>b. b \<noteq> a \<longrightarrow> mutexes st' b = mutexes ?st b))"
        by (intro less) (simp add: wake_first_reads)
      then show ?thesis
        using Some True by (subst wake_loop.simps) (auto simp: wake_first_reads elim!: returns_mono)
    qed
  qed
qed

lemma release_unfold:
  assumes "idle a st"
  shows "mutex_release a st = map_option (munlock a) (wake_loop a (mupd a (\<lambda>m. m\<lparr>CurrentLockCount := CurrentLockCount m - 1\<rparr>)
    (supd (\<lambda>s. s\<lparr>locks := (locks s)(MutexLock a := True)\<rparr>) st)))"
  using assms by (simp add: mutex_release_def mlock_idle map_option_case split: option.splits)

text \<open>The threads that wait for a mutex, seen from its two pointers: none, one alone, or two in a circle.\<close>

definition no_waiter :: "nat \<Rightarrow> sync \<Rightarrow> bool" where
  "no_waiter a st \<longleftrightarrow> FirstWaiting (mutexes st a) = None \<and> LastWaiting (mutexes st a) = None"

definition one_waiter :: "nat \<Rightarrow> nat \<Rightarrow> sync \<Rightarrow> bool" where
  "one_waiter a p st \<longleftrightarrow> FirstWaiting (mutexes st a) = Some p \<and> LastWaiting (mutexes st a) = Some p \<and>
     NextThreadMutex (ThreadPool (threads st) p) \<in> {None, Some p}"

definition two_waiters :: "nat \<Rightarrow> nat \<Rightarrow> nat \<Rightarrow> sync \<Rightarrow> bool" where
  "two_waiters a p q st \<longleftrightarrow> p \<noteq> q \<and> FirstWaiting (mutexes st a) = Some p \<and> LastWaiting (mutexes st a) = Some q \<and>
     NextThreadMutex (ThreadPool (threads st) p) = Some q \<and> NextThreadMutex (ThreadPool (threads st) q) = Some p"

text \<open>What queueing makes of these.\<close>

lemma enqueue_one:
  "no_waiter a st \<Longrightarrow> one_waiter a p (mutex_enqueue p a st)"
  by (simp add: no_waiter_def one_waiter_def mutex_enqueue_def Let_def)

lemma enqueue_two:
  "one_waiter a p st \<Longrightarrow> p \<noteq> q \<Longrightarrow> two_waiters a p q (mutex_enqueue q a st)"
  by (auto simp: one_waiter_def two_waiters_def mutex_enqueue_def Let_def)

lemma enqueue_keeps:
  "CurrentLockCount (mutexes (mutex_enqueue p a st) b) = CurrentLockCount (mutexes st b)"
  "MaximumLockCount (mutexes (mutex_enqueue p a st) b) = MaximumLockCount (mutexes st b)"
  "idle b (mutex_enqueue p a st) = idle b st"
  by (auto simp: mutex_enqueue_def Let_def idle_def split: option.splits)

text \<open>One round of the release of a full mutex, with its effect on the list.\<close>

lemma release_full:
  assumes "idle a st" "CurrentLockCount (mutexes st a) = MaximumLockCount (mutexes st a)" "0 < MaximumLockCount (mutexes st a)"
    and "FirstWaiting (mutexes st a) = Some p"
  shows "returns (mutex_release a st) (\<lambda>st'. idle a st'
    \<and> mutexes st' a = (mutexes st a)\<lparr>
        FirstWaiting := (let n = NextThreadMutex (ThreadPool (threads st) p) in if n = Some p then None else n),
        LastWaiting := (if LastWaiting (mutexes st a) = Some p then None else LastWaiting (mutexes st a))\<rparr>
    \<and> ThreadPool (threads st') = (ThreadPool (threads st))(p := (ThreadPool (threads st) p)\<lparr>WaitingForMutex := 0, SleepTime := 0\<rparr>))"
proof -
  let ?m = "mutexes st a"
  let ?st = "mupd a (\<lambda>m. m\<lparr>CurrentLockCount := CurrentLockCount m - 1\<rparr>) (supd (\<lambda>s. s\<lparr>locks := (locks s)(MutexLock a := True)\<rparr>) st)"
  have lt: "CurrentLockCount ?m - 1 < MaximumLockCount ?m"
    using assms(2,3) unat_minus_one [of "MaximumLockCount ?m"] by (simp add: word_less_nat_alt word_gt_0 unat_gt_0)
  have "wake_loop a ?st = wake_loop a (wake_first p a ?st)"
    using lt assms(4) by (subst wake_loop.simps) simp
  also have "\<dots> = Some (wake_first p a ?st)"
    using assms(2) by (subst wake_loop.simps) (simp add: wake_first_reads split: option.splits)
  finally show ?thesis
    by (simp add: release_unfold [OF assms(1)] munlock_def wake_first_reads idle_def)
qed

section \<open>Uncontended operations\<close>

lemma relock_idle:
  assumes "idle a st"
  shows "munlock a (mupd a f (supd (\<lambda>s. s\<lparr>locks := (locks s)(MutexLock a := True)\<rparr>) st)) = mupd a f st"
proof -
  have "(locks (threads st))(MutexLock a := False) = locks (threads st)"
    using assms by (simp add: idle_def fun_upd_idem)
  then show ?thesis
    by (simp add: munlock_def mupd_def supd_def unlock_def)
qed

lemma acquire_free:
  assumes "idle a st" "CurrentLockCount (mutexes st a) < MaximumLockCount (mutexes st a)"
  shows "acquire call run cpu (Some a) st = Some (mupd a (\<lambda>m. m\<lparr>CurrentLockCount := CurrentLockCount m + 1\<rparr>) st)"
  using assms relock_idle [OF assms(1)]
  by (simp add: acquire_def mutex_acquire_def mutex_acquire_begin_def mlock_idle)

lemma release_free:
  assumes "idle a st" "FirstWaiting (mutexes st a) = None"
  shows "release (Some a) st = Some (mupd a (\<lambda>m. m\<lparr>CurrentLockCount := CurrentLockCount m - 1\<rparr>) st)"
  using assms relock_idle [OF assms(1)]
  by (simp add: release_def release_unfold) (subst wake_loop.simps, simp)

lemma idle_updates [simp]: "idle a (mupd b f st) = idle a st" "idle a (cupd c g st) = idle a st"
  by (simp_all add: idle_def)

text \<open>A world at rest, for the examples.\<close>

definition rest_sync :: sync where
  "rest_sync = \<lparr>threads = zero_world,
     mutexes = (\<lambda>_. \<lparr>CurrentLockCount = 1, MaximumLockCount = 1, FirstWaiting = None, LastWaiting = None\<rparr>),
     conds = (\<lambda>_. \<lparr>c_lock = None, waiting = 0, signals = 0, wait_sem = None, wait_done = None\<rparr>)\<rparr>"

lemma rest_sync_props: "idle a rest_sync" "no_waiter a rest_sync" "CurrentLockCount (mutexes rest_sync a) = 1"
  "MaximumLockCount (mutexes rest_sync a) = 1"
  by (simp_all add: rest_sync_def zero_world_def idle_def no_waiter_def)

section \<open>Properties\<close>

text \<open>
  C30: A release ends, whatever the state of the list of waiting threads, and leaves the mutex
  usable: its spin lock is free and either no thread is listed as waiting or all places are taken.
  Other mutexes and the condition variables are untouched.
\<close>

theorem mutex_release_ends:
  assumes "idle a st"
  shows "returns (mutex_release a st) (\<lambda>st'. idle a st'
    \<and> (FirstWaiting (mutexes st' a) = None \<or> \<not> CurrentLockCount (mutexes st' a) < MaximumLockCount (mutexes st' a))
    \<and> MaximumLockCount (mutexes st' a) = MaximumLockCount (mutexes st a)
    \<and> conds st' = conds st \<and> (\<forall>b. b \<noteq> a \<longrightarrow> mutexes st' b = mutexes st b))"
proof -
  let ?st = "mupd a (\<lambda>m. m\<lparr>CurrentLockCount := CurrentLockCount m - 1\<rparr>) (supd (\<lambda>s. s\<lparr>locks := (locks s)(MutexLock a := True)\<rparr>) st)"
  obtain st' where w: "wake_loop a ?st = Some st'"
    and "FirstWaiting (mutexes st' a) = None \<or> \<not> CurrentLockCount (mutexes st' a) < MaximumLockCount (mutexes st' a)"
    "MaximumLockCount (mutexes st' a) = MaximumLockCount (mutexes ?st a)" "conds st' = conds ?st"
    "\<forall>b. b \<noteq> a \<longrightarrow> mutexes st' b = mutexes ?st b"
    by (rule returnsE [OF wake_loop_returns [of a ?st]]) blast
  then show ?thesis
    by (simp add: release_unfold [OF assms] munlock_def idle_def)
qed

theorem mutex_release_ends_witness:
  "returns (mutex_release 7 rest_sync) (\<lambda>st'. idle 7 st' \<and> MaximumLockCount (mutexes st' 7) = 1)"
  using mutex_release_ends [OF rest_sync_props(1)] by (rule returns_mono) (simp add: rest_sync_props)

text \<open>
  C29: Handing over with one waiter.  If one thread waits for a mutex all of whose places are taken,
  a release wakes exactly that thread, which keeps a place: the count stays at the maximum, the list
  is empty, and when the thread resumes on a processor, its \<open>mutex_acquire\<close> reports success without
  changing the mutex.
\<close>

theorem mutex_hands_over:
  assumes "idle a st" "one_waiter a p st" "CurrentLockCount (mutexes st a) = MaximumLockCount (mutexes st a)"
    "0 < MaximumLockCount (mutexes st a)"
  shows "returns (mutex_release a st) (\<lambda>st'. idle a st' \<and> no_waiter a st'
    \<and> CurrentLockCount (mutexes st' a) = MaximumLockCount (mutexes st a)
    \<and> WaitingForMutex (ThreadPool (threads st') p) = 0 \<and> SleepTime (ThreadPool (threads st') p) = 0
    \<and> (\<forall>q. q \<noteq> p \<longrightarrow> ThreadPool (threads st') q = ThreadPool (threads st) q)
    \<and> (\<forall>c. \<not> locks (threads st') ThreadListLock \<and> \<not> locks (threads st') (ProcessorLock c)
          \<and> CurrentThread (Processors (threads st') c) = Some p \<longrightarrow>
        returns (mutex_acquire_end c a st') (\<lambda>(taken, st''). taken \<and> mutexes st'' = mutexes st')))"
proof -
  have "FirstWaiting (mutexes st a) = Some p"
    using assms(2) by (simp add: one_waiter_def)
  from release_full [OF assms(1,3,4) this] show ?thesis
  proof (rule returns_mono, goal_cases)
    case (1 st')
    have "returns (mutex_acquire_end c a st') (\<lambda>(taken, st''). taken \<and> mutexes st'' = mutexes st')"
      if "\<not> locks (threads st') ThreadListLock" "\<not> locks (threads st') (ProcessorLock c)"
        "CurrentThread (Processors (threads st') c) = Some p" for c
    proof -
      let ?s = "(threads st')\<lparr>locks := (locks (threads st'))(MutexLock a := True)\<rparr>"
      have "thread_get_current c ?s = Some (CurrentThread (Processors ?s c), ?s)"
        using that by (intro thread_get_current_ok) simp_all
      then show ?thesis
        using 1(2) that(3) by (simp add: mutex_acquire_end_def mlock_idle current_def munlock_def)
    qed
    then show ?case
      using 1(2) assms(2,3) by (auto simp: one_waiter_def no_waiter_def Let_def)
  qed
qed

theorem mutex_hands_over_witness:
  "returns (mutex_release 7 (mutex_enqueue 3 7 rest_sync)) (\<lambda>st'. no_waiter 7 st' \<and> CurrentLockCount (mutexes st' 7) = 1)"
proof -
  have "one_waiter 7 3 (mutex_enqueue 3 7 rest_sync)" "idle 7 (mutex_enqueue 3 7 rest_sync)"
    by (simp_all add: enqueue_one enqueue_keeps rest_sync_props)
  then show ?thesis
    using mutex_hands_over [of 7 "mutex_enqueue 3 7 rest_sync" 3]
    by (auto simp: enqueue_keeps rest_sync_props elim!: returns_mono)
qed

text \<open>
  C31: Two waiters lose the mutex.  A mutex with one place is held; two threads queue for it; then
  the holder and the two threads release it in turn.  The mutex is free of owners, but its count is
  still one, so nobody can take it any more: the second wake-up leaves a thread listed that does not
  wait, and the third release gives the place to it.
\<close>

theorem mutex_two_waiters_lost:
  assumes "idle a st" "no_waiter a st" "CurrentLockCount (mutexes st a) = 1" "MaximumLockCount (mutexes st a) = 1" "p \<noteq> q"
  shows "returns (do { st \<leftarrow> mutex_release a (mutex_enqueue q a (mutex_enqueue p a st));
      st \<leftarrow> mutex_release a st; mutex_release a st })
    (\<lambda>st'. idle a st' \<and> CurrentLockCount (mutexes st' a) = 1 \<and> MaximumLockCount (mutexes st' a) = 1
      \<and> WaitingForMutex (ThreadPool (threads st') p) = 0 \<and> WaitingForMutex (ThreadPool (threads st') q) = 0)"
proof -
  let ?s0 = "mutex_enqueue q a (mutex_enqueue p a st)"
  have w: "two_waiters a p q ?s0"
    by (rule enqueue_two [OF enqueue_one [OF assms(2)] assms(5)])
  have c: "idle a ?s0" "CurrentLockCount (mutexes ?s0 a) = 1" "MaximumLockCount (mutexes ?s0 a) = 1"
    using assms(1,3,4) by (simp_all add: enqueue_keeps)
  obtain s1 where r1: "mutex_release a ?s0 = Some s1" and i1: "idle a s1"
    and m1: "mutexes s1 a = (mutexes ?s0 a)\<lparr>FirstWaiting := Some q, LastWaiting := Some q\<rparr>"
    and t1: "ThreadPool (threads s1) = (ThreadPool (threads ?s0))(p := (ThreadPool (threads ?s0) p)\<lparr>WaitingForMutex := 0, SleepTime := 0\<rparr>)"
    by (rule returnsE [OF release_full [OF c(1), of p]]) (use c w in \<open>auto simp: two_waiters_def\<close>)
  obtain s2 where r2: "mutex_release a s1 = Some s2" and i2: "idle a s2"
    and m2: "mutexes s2 a = (mutexes s1 a)\<lparr>FirstWaiting := Some p, LastWaiting := None\<rparr>"
    and t2: "ThreadPool (threads s2) = (ThreadPool (threads s1))(q := (ThreadPool (threads s1) q)\<lparr>WaitingForMutex := 0, SleepTime := 0\<rparr>)"
    by (rule returnsE [OF release_full [OF i1, of q]]) (use c w in \<open>auto simp: two_waiters_def m1 t1\<close>)
  obtain s3 where r3: "mutex_release a s2 = Some s3" and i3: "idle a s3"
    and m3: "mutexes s3 a = (mutexes s2 a)\<lparr>FirstWaiting := Some q, LastWaiting := None\<rparr>"
    and t3: "ThreadPool (threads s3) = (ThreadPool (threads s2))(p := (ThreadPool (threads s2) p)\<lparr>WaitingForMutex := 0, SleepTime := 0\<rparr>)"
    by (rule returnsE [OF release_full [OF i2, of p]]) (use c w in \<open>auto simp: two_waiters_def m1 m2 t1 t2\<close>)
  show ?thesis
    using c i3 assms(5) by (simp add: r1 r2 r3 m1 m2 m3 t1 t2 t3)
qed

theorem mutex_two_waiters_lost_witness:
  "returns (do { st \<leftarrow> mutex_release 7 (mutex_enqueue 4 7 (mutex_enqueue 3 7 rest_sync));
      st \<leftarrow> mutex_release 7 st; mutex_release 7 st })
    (\<lambda>st'. idle 7 st' \<and> CurrentLockCount (mutexes st' 7) = 1 \<and> MaximumLockCount (mutexes st' 7) = 1
      \<and> WaitingForMutex (ThreadPool (threads st') 3) = 0 \<and> WaitingForMutex (ThreadPool (threads st') 4) = 0)"
  by (rule mutex_two_waiters_lost) (simp_all add: rest_sync_props)

text \<open>
  C32: Waiting on a new condition variable does not wait.  Nobody has signalled it, yet \<open>cond_wait\<close>
  returns at once, holding the caller's mutex again, and no thread has been put to sleep, whatever
  the rest of the system would do meanwhile: the semaphore is created with all its 32768 places free
  instead of none.
\<close>

theorem cond_wait_does_not_wait:
  assumes "distinct [l, ws, wd, m]" "idle m st" "no_waiter m st"
    "CurrentLockCount (mutexes st m) = 1" "MaximumLockCount (mutexes st m) = 1"
  shows "returns (do { (cp, st) \<leftarrow> cond_create (Some c) (Some l) (Some ws) (Some wd) st;
      cond_wait call run cpu cp (Some m) st })
    (\<lambda>st'. mutexes st' m = mutexes st m \<and> waiting (conds st' c) = 0 \<and> signals (conds st' c) = 0
      \<and> ThreadPool (threads st') = ThreadPool (threads st))"
proof -
  let ?new = "\<lambda>n. \<lparr>CurrentLockCount = 0, MaximumLockCount = n, FirstWaiting = None, LastWaiting = None\<rparr>"
  let ?s = "cupd c (\<lambda>_. \<lparr>c_lock = Some l, waiting = 0, signals = 0, wait_sem = Some ws, wait_done = Some wd\<rparr>)
    (munlock wd (mupd wd (\<lambda>_. ?new MAX_SEMAPHORE) (munlock ws (mupd ws (\<lambda>_. ?new MAX_SEMAPHORE)
      (munlock l (mupd l (\<lambda>_. ?new 1) st))))))"
  have create: "cond_create (Some c) (Some l) (Some ws) (Some wd) st = Some (Some c, ?s)"
    by (simp add: cond_create_def mutex_create_def)
  have i: "idle l ?s" "idle ws ?s" "idle m ?s"
    using assms(2) by (simp_all add: idle_def munlock_def)
  have mx: "mutexes ?s l = ?new 1" "mutexes ?s ws = ?new MAX_SEMAPHORE" "mutexes ?s m = mutexes st m"
    using assms(1) by (auto simp: munlock_def)
  have co: "conds ?s c = \<lparr>c_lock = Some l, waiting = 0, signals = 0, wait_sem = Some ws, wait_done = Some wd\<rparr>"
    by simp
  have tp: "ThreadPool (threads ?s) = ThreadPool (threads st)"
    by (simp add: munlock_def)
  define s0 where "s0 = ?s"
  note facts = i [folded s0_def] mx [folded s0_def] co [folded s0_def] tp [folded s0_def]
  have "returns (cond_wait call run cpu (Some c) (Some m) s0)
    (\<lambda>st'. mutexes st' m = mutexes st m \<and> waiting (conds st' c) = 0 \<and> signals (conds st' c) = 0
      \<and> ThreadPool (threads st') = ThreadPool (threads st))"
    using assms(1,3-5)
    by (simp add: cond_wait_def facts acquire_free release_free MAX_SEMAPHORE_def no_waiter_def)
  then show ?thesis
    by (simp add: create s0_def)
qed

theorem cond_wait_does_not_wait_witness:
  "returns (do { (cp, st) \<leftarrow> cond_create (Some 20) (Some 1) (Some 2) (Some 3) rest_sync;
      cond_wait (\<lambda>_ _ _ _. Some) (\<lambda>_. None) 0 cp (Some 7) st })
    (\<lambda>st'. mutexes st' 7 = mutexes rest_sync 7 \<and> waiting (conds st' 20) = 0 \<and> signals (conds st' 20) = 0
      \<and> ThreadPool (threads st') = ThreadPool (threads rest_sync))"
  by (rule cond_wait_does_not_wait) (simp_all add: rest_sync_props)

end
