(* ===== verification/Console.thy ===== *)
theory Console
  imports Xenon_Prelude
begin

text \<open>
  The text console on the tiled framebuffer, \<^verbatim>\<open>console/console.c\<close>.  The framebuffer is a list of 32-bit
  pixels; an access outside it is \<open>None\<close>.  The font table is an argument (the 4096 bytes of
  \<^verbatim>\<open>font_8x16.h\<close>), and so are the display registers and the overscan setting that \<open>console_init\<close>
  reads.  Flushing the cache has no effect on what is modelled.
\<close>

unbundle bit_operations_syntax

record console =
  console_initialized :: bool
  console_width :: int
  console_height :: int
  console_size :: int
  color_bg :: u32
  color_fg :: u32
  console_oldbg :: u32
  console_oldfg :: u32
  console_fb :: "u32 list option"
  cursor_x :: int
  cursor_y :: int
  max_x :: int
  max_y :: int
  offset_x :: int
  offset_y :: int
  hooked :: bool

text \<open>The initial values of the variables.\<close>

definition console_reset :: console where
  "console_reset = \<lparr>console_initialized = False, console_width = 0, console_height = 0, console_size = 0,
     color_bg = 0x00000000, color_fg = 0xFFA0A000, console_oldbg = 0, console_oldfg = 0, console_fb = None,
     cursor_x = 0, cursor_y = 0, max_x = 0, max_y = 0, offset_x = 0, offset_y = 0, hooked = False\<rparr>"

record ati_info =
  ai_width :: u32
  ai_height :: u32

section \<open>Pixels\<close>

text \<open>The index of a pixel in the framebuffer: tiles of 32 by 32 pixels.\<close>

definition pixel_base :: "int \<Rightarrow> int \<Rightarrow> int \<Rightarrow> int" where
  "pixel_base width x y = (drop_bit 5 y * 32 * width + push_bit 10 (drop_bit 5 x) + (x AND 3) + push_bit 2 (y AND 1)
     + push_bit 3 (drop_bit 2 (x AND 31)) + push_bit 6 (drop_bit 1 (y AND 31))) XOR push_bit 2 (y AND 8)"

definition fb_write :: "int \<Rightarrow> u32 \<Rightarrow> console \<Rightarrow> console option" where
  "fb_write i color st = (case console_fb st of None \<Rightarrow> None
     | Some fb \<Rightarrow> if 0 \<le> i \<and> i < int (length fb) then Some (st\<lparr>console_fb := Some (fb[nat i := color])\<rparr>) else None)"

definition console_pset32 :: "int \<Rightarrow> int \<Rightarrow> u32 \<Rightarrow> console \<Rightarrow> console option" where
  "console_pset32 x y color st = fb_write (pixel_base (console_width st) x y) color st"

definition console_pset :: "int \<Rightarrow> int \<Rightarrow> u8 \<Rightarrow> u8 \<Rightarrow> u8 \<Rightarrow> console \<Rightarrow> console option" where
  "console_pset x y r g b = console_pset32 x y (push_bit 24 (ucast b) + push_bit 16 (ucast g) + push_bit 8 (ucast r))"

definition font_pixel :: "u8 list \<Rightarrow> u8 \<Rightarrow> nat \<Rightarrow> nat \<Rightarrow> bool" where
  "font_pixel font ch x y \<longleftrightarrow> drop_bit (7 - x) (font ! (unat ch * 16 + y)) AND 1 = 1"

text \<open>The pixels of a character in the order of the two loops.\<close>

definition glyph_pixels :: "(nat \<times> nat) list" where
  "glyph_pixels = List.product [0..<16] [0..<8]"

definition draw_pixel :: "u8 list \<Rightarrow> int \<Rightarrow> int \<Rightarrow> u8 \<Rightarrow> nat \<times> nat \<Rightarrow> console \<Rightarrow> console option" where
  "draw_pixel font x y c = (\<lambda>(ly, lx) st.
     console_pset32 (x + int lx) (y + int ly) (if font_pixel font c lx ly then color_fg st else color_bg st) st)"

fun each :: "('a \<Rightarrow> 's \<Rightarrow> 's option) \<Rightarrow> 'a list \<Rightarrow> 's \<Rightarrow> 's option" where
  "each f [] s = Some s"
| "each f (x # xs) s = Option.bind (f x s) (each f xs)"

definition console_draw_char :: "u8 list \<Rightarrow> int \<Rightarrow> int \<Rightarrow> u8 \<Rightarrow> console \<Rightarrow> console option" where
  "console_draw_char font x y c = each (draw_pixel font x y c) glyph_pixels"

section \<open>Screen\<close>

text \<open>The loops that store the background colour \<open>n\<close> times from an index on.\<close>

definition fb_fill :: "nat \<Rightarrow> nat \<Rightarrow> console \<Rightarrow> console option" where
  "fb_fill from n st = (if n = 0 then Some st else case console_fb st of None \<Rightarrow> None
     | Some fb \<Rightarrow> if from + n \<le> length fb
         then Some (st\<lparr>console_fb := Some (take from fb @ replicate n (color_bg st) @ drop (from + n) fb)\<rparr>) else None)"

definition console_clrscr :: "console \<Rightarrow> console option" where
  "console_clrscr st = (let count = console_width st * console_height st in
     if count < 0 then None
     else do {
       st \<leftarrow> fb_fill 0 (nat count) st;
       Some (st\<lparr>cursor_x := 0, cursor_y := 0\<rparr>) })"

text \<open>\<open>memcpy\<close> of one row of tiles, of \<open>bs\<close> pixels.\<close>

definition copy_row :: "nat \<Rightarrow> nat \<Rightarrow> nat \<Rightarrow> console \<Rightarrow> console option" where
  "copy_row bs lines l st = (case console_fb st of None \<Rightarrow> None
     | Some fb \<Rightarrow> if bs * l + bs \<le> length fb \<and> lines \<le> l
         then Some (st\<lparr>console_fb := Some (take (bs * (l - lines)) fb @ take bs (drop (bs * l) fb)
            @ drop (bs * (l - lines) + bs) fb)\<rparr>) else None)"

definition console_scroll32 :: "nat \<Rightarrow> console \<Rightarrow> console option" where
  "console_scroll32 lines st = (let bs = nat (console_width st * 32) in do {
     st \<leftarrow> each (copy_row bs lines) [lines..<nat ((console_height st + 31) div 32)] st;
     if console_size st < int (bs * lines) then None
     else fb_fill (nat (console_size st) - bs * lines) (bs * lines) st })"

definition console_newline :: "console \<Rightarrow> console option" where
  "console_newline st = (let st = st\<lparr>cursor_x := 0, cursor_y := cursor_y st + 1\<rparr> in
     if cursor_y st \<ge> max_y st then do {
       st \<leftarrow> console_scroll32 1 st;
       Some (st\<lparr>cursor_y := cursor_y st - 2\<rparr>) }
     else Some st)"

definition console_putch :: "u8 list \<Rightarrow> u8 \<Rightarrow> console \<Rightarrow> console option" where
  "console_putch font c st = (
     if console_fb st = None then Some st
     else if c = 0x0D then Some (st\<lparr>cursor_x := 0\<rparr>)
     else if c = 0x0A then console_newline st
     else do {
       st \<leftarrow> console_draw_char font (cursor_x st * 8 + offset_x st) (cursor_y st * 16 + offset_y st) c st;
       let st = st\<lparr>cursor_x := cursor_x st + 1\<rparr>;
       if cursor_x st \<ge> max_x st then console_newline st else Some st })"

definition console_stdout_hook :: "u8 list \<Rightarrow> u8 list \<Rightarrow> console \<Rightarrow> console option" where
  "console_stdout_hook font buf st = (if console_initialized st then each (console_putch font) buf st else Some st)"

section \<open>Set-up and queries\<close>

definition round32 :: "u32 \<Rightarrow> u32" where
  "round32 x = push_bit 5 (drop_bit 5 (x + 31))"

text \<open>\<open>fb\<close> is the memory at the base address the display registers hold.  The start-up message goes to the new
  hook while the console is still uninitialised, so it prints nothing.\<close>

definition console_init :: "ati_info \<Rightarrow> bool \<Rightarrow> u32 list \<Rightarrow> console \<Rightarrow> console option" where
  "console_init ai overscan fb st = (let
     st = st\<lparr>console_initialized := False, console_fb := Some fb\<rparr>;
     st = st\<lparr>console_width := uint (round32 (ai_width ai)), console_height := uint (round32 (ai_height ai))\<rparr>;
     st = st\<lparr>console_size := console_width st * console_height st\<rparr>;
     ox = (if overscan then ai_width ai div 28 else 0);
     oy = (if overscan then ai_height ai div 28 else 0);
     st = st\<lparr>offset_x := uint ox, offset_y := uint oy, cursor_x := 0, cursor_y := 0,
             max_x := uint ((ai_width ai - ox * 2) div 8), max_y := uint ((ai_height ai - oy * 2) div 16)\<rparr>
   in do {
     st \<leftarrow> console_clrscr st;
     Some (st\<lparr>hooked := True, console_initialized := True\<rparr>) })"

definition console_is_initialized :: "console \<Rightarrow> bool" where
  "console_is_initialized st = console_initialized st"

text \<open>The comparison \<open>> -1\<close> is unsigned: against \<open>0xFFFFFFFF\<close>.\<close>

definition console_set_colors :: "u32 \<Rightarrow> u32 \<Rightarrow> console \<Rightarrow> console" where
  "console_set_colors background foreground st = (let
     st = (if background > - 1 then st\<lparr>color_bg := background\<rparr> else st)
   in if foreground > - 1 then st\<lparr>color_fg := foreground\<rparr> else st)"

text \<open>What is stored through the two pointers, when they are not null.\<close>

definition console_get_dimensions :: "bool \<Rightarrow> bool \<Rightarrow> console \<Rightarrow> u32 option \<times> u32 option" where
  "console_get_dimensions width height st =
     (if width then Some (word_of_int (max_x st)) else None, if height then Some (word_of_int (max_y st)) else None)"

definition console_get_color :: "int \<Rightarrow> console \<Rightarrow> u32" where
  "console_get_color num st = (if num < 0 \<or> num > 1 then 0 else if num = 0 then color_bg st else color_fg st)"

text \<open>The macro \<open>PRINT_COL\<close>, behind the warnings and errors of the drivers, with the formatted text \<open>s\<close>.\<close>

definition PRINT_COL :: "u8 list \<Rightarrow> u32 \<Rightarrow> u32 \<Rightarrow> u8 list \<Rightarrow> console \<Rightarrow> console option" where
  "PRINT_COL font bg fg s st = (let
     st = st\<lparr>console_oldbg := color_bg st, console_oldfg := color_fg st\<rparr>;
     st = console_set_colors bg fg st
   in do {
     st \<leftarrow> (if hooked st then console_stdout_hook font s st else Some st);
     Some (console_set_colors (console_oldbg st) (console_oldfg st) st) })"

definition console_close :: "console \<Rightarrow> console" where
  "console_close st = st\<lparr>hooked := False\<rparr>"

end
