(* ===== verification/Console_Display.thy ===== *)
theory Console_Display
  imports Console
begin

text \<open>
  What the drawing routines of \<^verbatim>\<open>console.c\<close> do to the picture on the display.  The tiled addressing of
  \<open>console_pset32\<close> is a bijection between the pixels of the screen and the words of the framebuffer, so a state
  has a \<open>picture\<close>, a function of the coordinates, and drawing and scrolling are operations on it.
\<close>

unbundle bit_operations_syntax

section \<open>The tiled framebuffer\<close>

lemma xor_32_int: "(n :: int) XOR 32 = (if odd (n div 32) then n - 32 else n + 32)"
proof -
  have "n XOR 32 = flip_bit 5 n"
    by (simp add: flip_bit_eq_xor)
  then show ?thesis
    by (simp add: flip_bit_eq_if set_bit_eq unset_bit_eq bit_iff_odd)
qed

lemma bit3_int: "(y :: int) AND 8 = 8 * (y div 8 mod 2)"
proof -
  have "y AND 8 = push_bit 3 (drop_bit 3 y AND 1)"
    using bit_exp_iff [where 'a = int, of 3] by (intro bit_eqI) (auto simp: bit_simps)
  then show ?thesis
    by (simp add: push_bit_eq_mult drop_bit_eq_div and_one_eq)
qed

lemma low_bits_int: "(x :: int) AND 31 = x mod 32" "x AND 3 = x mod 4" "x AND 1 = x mod 2"
  using take_bit_eq_mask [of 5 x] take_bit_eq_mask [of 2 x]
  by (simp_all add: mask_eq_exp_minus_1 take_bit_eq_mod and_one_eq)

lemma tile_xor: "0 \<le> c \<Longrightarrow> c < 8 \<Longrightarrow> 0 \<le> d \<Longrightarrow> d < 8 \<Longrightarrow>
   (64 * a + 8 * c + d :: int) XOR (32 * (k mod 2)) = 64 * a + 8 * ((c + 4 * (k mod 2)) mod 8) + d"
proof -
  assume bounds: "0 \<le> c" "c < 8" "0 \<le> d" "d < 8"
  have "(64 * a + (8 * c + d)) div 32 = 2 * a + (8 * c + d) div 32"
    using div_mult_self2 [of 32 "8 * c + d" "2 * a"] by simp
  moreover have "(8 * c + d) div 32 = (if c < 4 then 0 else 1)"
    using bounds by auto
  ultimately have div: "odd ((64 * a + 8 * c + d) div 32) \<longleftrightarrow> \<not> c < 4"
    by (simp add: add.assoc)
  have c4: "(c + 4) mod 8 = (if c < 4 then c + 4 else c - 4)"
    using bounds mod_add_self2 [of "c - 4" 8] by (auto simp: add.commute simp del: mod_add_self2)
  consider "k mod 2 = 0" | "k mod 2 = 1"
    by linarith
  then show ?thesis
  proof cases
    case 2
    show ?thesis
      unfolding 2 by (simp add: xor_32_int div c4)
  qed (use bounds in simp)
qed

definition tile :: "int \<Rightarrow> int \<Rightarrow> int" where
  "tile x y = 64 * (y mod 32 div 2) + 8 * ((x mod 32 div 4 + 4 * (y div 8 mod 2)) mod 8) + (4 * (y mod 2) + x mod 4)"

lemma pixel_base_eq:
  "32 dvd w \<Longrightarrow> pixel_base w x y = 1024 * (y div 32 * (w div 32) + x div 32) + tile x y"
proof -
  assume "32 dvd w"
  then obtain v where w: "w = 32 * v"
    by blast
  have X: "0 \<le> x mod 32 div 4" "x mod 32 div 4 < 8" "0 \<le> 4 * (y mod 2) + x mod 4" "4 * (y mod 2) + x mod 4 < 8"
    by presburger+
  let ?a = "16 * (y div 32 * v + x div 32) + y mod 32 div 2"
  have "pixel_base w x y = (64 * ?a + 8 * (x mod 32 div 4) + (4 * (y mod 2) + x mod 4)) XOR (32 * (y div 8 mod 2))"
    by (simp add: pixel_base_def low_bits_int bit3_int push_bit_eq_mult drop_bit_eq_div w algebra_simps)
  also have "\<dots> = 64 * ?a + 8 * ((x mod 32 div 4 + 4 * (y div 8 mod 2)) mod 8) + (4 * (y mod 2) + x mod 4)"
    by (rule tile_xor [OF X])
  finally show ?thesis
    by (simp add: tile_def w)
qed

lemma tile_digits:
  fixes x y c :: int
  shows "0 \<le> y mod 32 div 2 \<and> y mod 32 div 2 < 16 \<and> 0 \<le> c mod 8 \<and> c mod 8 < 8 \<and> 0 \<le> 4 * (y mod 2) + x mod 4 \<and>
    4 * (y mod 2) + x mod 4 < 8"
  by auto

lemma digits_sum:
  fixes a b c :: int
  shows "0 \<le> a \<and> a < 16 \<and> 0 \<le> b \<and> b < 8 \<and> 0 \<le> c \<and> c < 8 \<Longrightarrow> 0 \<le> 64 * a + 8 * b + c \<and> 64 * a + 8 * b + c < 1024"
  by linarith

lemma tile_bounds: "0 \<le> tile x y" "tile x y < 1024"
  unfolding tile_def using digits_sum [OF tile_digits [of y "x mod 32 div 4 + 4 * (y div 8 mod 2)" x]] by blast+

lemma digit_unique: "0 \<le> b \<Longrightarrow> b < n \<Longrightarrow> 0 \<le> b' \<Longrightarrow> b' < n \<Longrightarrow> n * a + b = n * a' + b' \<Longrightarrow> a = a' \<and> b = (b' :: int)"
proof -
  assume *: "0 \<le> b" "b < n" "0 \<le> b'" "b' < n" and eq: "n * a + b = n * a' + b'"
  have "(n * a + b) div n = a" "(n * a' + b') div n = a'"
    using * by (simp_all add: div_pos_pos_trivial)
  then have "a = a'"
    using eq by simp
  then show ?thesis
    using eq by simp
qed

lemma digits_unique:
  fixes a b c :: int
  assumes "0 \<le> a \<and> a < 16 \<and> 0 \<le> b \<and> b < 8 \<and> 0 \<le> c \<and> c < 8"
    and "0 \<le> a' \<and> a' < 16 \<and> 0 \<le> b' \<and> b' < 8 \<and> 0 \<le> c' \<and> c' < 8"
    and eq: "64 * a + 8 * b + c = 64 * a' + 8 * b' + c'"
  shows "a = a' \<and> b = b' \<and> c = c'"
proof -
  have "a = a' \<and> 8 * b + c = 8 * b' + c'"
    by (rule digit_unique [of _ 64]) (use assms in linarith)+
  moreover from this have "b = b' \<and> c = c'"
    by (intro digit_unique [of _ 8]) (use assms in linarith)+
  ultimately show ?thesis
    by simp
qed

lemma add_right_cancel_mod8:
  "0 \<le> a \<Longrightarrow> a < 8 \<Longrightarrow> 0 \<le> b \<Longrightarrow> b < 8 \<Longrightarrow> (a + k) mod 8 = (b + k) mod 8 \<Longrightarrow> a = (b :: int)"
proof -
  assume *: "0 \<le> a" "a < 8" "0 \<le> b" "b < 8" and "(a + k) mod 8 = (b + k) mod 8"
  then have "((a + k) - k) mod 8 = ((b + k) - k) mod 8"
    by (intro mod_diff_cong) simp_all
  with * show ?thesis
    by simp
qed

lemma tile_inj:
  assumes "tile x y = tile x' y'" shows "x mod 32 = x' mod 32" "y mod 32 = y' mod 32"
proof -
  have *: "y mod 32 div 2 = y' mod 32 div 2 \<and>
     (x mod 32 div 4 + 4 * (y div 8 mod 2)) mod 8 = (x' mod 32 div 4 + 4 * (y' div 8 mod 2)) mod 8 \<and>
     4 * (y mod 2) + x mod 4 = 4 * (y' mod 2) + x' mod 4"
    by (rule digits_unique [OF tile_digits tile_digits assms [unfolded tile_def]])
  have **: "y mod 2 = y' mod 2 \<and> x mod 4 = x' mod 4"
    by (rule digit_unique [of _ 4]) (use * in simp_all)
  have mod2: "\<And>k :: int. k mod 32 = 2 * (k mod 32 div 2) + k mod 2"
  proof -
    fix k :: int
    have "k mod 2 = k mod 32 mod 2"
      by (simp add: mod_mod_cancel)
    then show "k mod 32 = 2 * (k mod 32 div 2) + k mod 2"
      by (metis mult_div_mod_eq)
  qed
  have mod4: "\<And>k :: int. k mod 32 = 4 * (k mod 32 div 4) + k mod 4"
  proof -
    fix k :: int
    have "k mod 4 = k mod 32 mod 4"
      by (simp add: mod_mod_cancel)
    then show "k mod 32 = 4 * (k mod 32 div 4) + k mod 4"
      by (metis mult_div_mod_eq)
  qed
  show y: "y mod 32 = y' mod 32"
    by (rule trans [OF mod2 [of y] trans [OF _ mod2 [of y', symmetric]]]) (use * ** in \<open>simp only:\<close>)
  have "\<And>k :: int. k div 8 mod 2 = k mod 32 div 8 mod 2"
    using zmod_zmult2_eq [of 4 _ 8] by (simp add: mod_mod_cancel)
  then have "y div 8 mod 2 = y' div 8 mod 2"
    using y by metis
  then have "(x mod 32 div 4 + 4 * (y div 8 mod 2)) mod 8 = (x' mod 32 div 4 + 4 * (y div 8 mod 2)) mod 8"
    using * by (simp only:)
  then have "x mod 32 div 4 = x' mod 32 div 4"
    by (rule add_right_cancel_mod8 [rotated 4]) auto
  with ** show "x mod 32 = x' mod 32"
    by (intro trans [OF mod4 [of x] trans [OF _ mod4 [of x', symmetric]]]) (simp only:)
qed

definition screen :: "int \<Rightarrow> int \<Rightarrow> (int \<times> int) set" where
  "screen w h = {0..<w} \<times> {0..<h}"

lemma pixel_base_inj: "32 dvd w \<Longrightarrow> inj_on (\<lambda>(x, y). pixel_base w x y) (screen w h)"
proof (rule inj_onI, safe)
  fix x y x' y'
  assume w: "32 dvd w" and xy: "(x, y) \<in> screen w h" "(x', y') \<in> screen w h"
    and base: "pixel_base w x y = pixel_base w x' y'"
  have bounds: "0 \<le> x" "x < w" "0 \<le> y" "0 \<le> x'" "x' < w" "0 \<le> y'"
    using xy by (auto simp: screen_def)
  have eq: "1024 * (y div 32 * (w div 32) + x div 32) + tile x y = 1024 * (y' div 32 * (w div 32) + x' div 32) + tile x' y'"
    using base by (simp only: pixel_base_eq [OF w])
  have *: "y div 32 * (w div 32) + x div 32 = y' div 32 * (w div 32) + x' div 32 \<and> tile x y = tile x' y'"
    by (rule digit_unique [of _ 1024]) (use eq tile_bounds in simp_all)
  have "y div 32 = y' div 32 \<and> x div 32 = x' div 32"
    by (rule digit_unique [of _ "w div 32"])
      (use * bounds w in \<open>auto simp: mult.commute pos_imp_zdiv_nonneg_iff elim!: dvdE\<close>)
  then show "x = x'" "y = y'"
    using * tile_inj [of x y x' y'] by (metis mult_div_mod_eq)+
qed

lemma pixel_base_bounds:
  assumes "32 dvd w" "32 dvd h" "(x, y) \<in> screen w h" shows "0 \<le> pixel_base w x y" "pixel_base w x y < w * h"
proof -
  obtain v u where vu: "w = 32 * v" "h = 32 * u"
    using assms by blast
  let ?t = "y div 32 * v + x div 32"
  have "0 \<le> x div 32" "0 \<le> y div 32" "x div 32 \<le> v - 1" "y div 32 \<le> u - 1" "0 \<le> v"
    using assms by (auto simp: screen_def vu)
  then have "0 \<le> ?t" "?t \<le> (u - 1) * v + (v - 1)"
    by (auto intro!: add_mono mult_right_mono)
  then have "0 \<le> ?t" "?t + 1 \<le> u * v"
    by (auto simp: algebra_simps)
  moreover have "pixel_base w x y = 1024 * ?t + tile x y"
    using assms by (simp add: pixel_base_eq vu)
  ultimately show "0 \<le> pixel_base w x y" "pixel_base w x y < w * h"
    using tile_bounds [of x y] by (auto simp: vu algebra_simps)
qed

lemma pixel_base_bij:
  assumes "32 dvd w" "32 dvd h" "0 \<le> w" "0 \<le> h"
  shows "bij_betw (\<lambda>(x, y). pixel_base w x y) (screen w h) {0..<w * h}"
  unfolding bij_betw_def
proof
  show inj: "inj_on (\<lambda>(x, y). pixel_base w x y) (screen w h)"
    by (rule pixel_base_inj) fact
  show "(\<lambda>(x, y). pixel_base w x y) ` screen w h = {0..<w * h}"
  proof (rule card_subset_eq)
    show "(\<lambda>(x, y). pixel_base w x y) ` screen w h \<subseteq> {0..<w * h}"
      using pixel_base_bounds [OF assms(1,2)] by auto
    show "card ((\<lambda>(x, y). pixel_base w x y) ` screen w h) = card {0..<w * h}"
      using assms by (simp add: card_image [OF inj]) (simp add: screen_def card_cartesian_product nat_mult_distrib)
  qed simp
qed

section \<open>The display as a picture\<close>

definition display_ok :: "console \<Rightarrow> bool" where
  "display_ok st \<longleftrightarrow> 32 dvd console_width st \<and> 32 dvd console_height st \<and> 0 < console_width st \<and> 0 < console_height st \<and>
     console_size st = console_width st * console_height st \<and>
     (case console_fb st of None \<Rightarrow> False | Some fb \<Rightarrow> int (length fb) = console_size st)"

definition picture :: "console \<Rightarrow> int \<times> int \<Rightarrow> u32" where
  "picture st p = (if p \<in> screen (console_width st) (console_height st)
     then the (console_fb st) ! nat (pixel_base (console_width st) (fst p) (snd p)) else 0)"

lemma display_okE:
  assumes "display_ok st"
  obtains fb where "console_fb st = Some fb" "int (length fb) = console_width st * console_height st"
  using assms by (auto simp: display_ok_def split: option.splits)

lemma display_ok_update: "display_ok st \<Longrightarrow> int (length fb) = console_size st \<Longrightarrow> display_ok (st\<lparr>console_fb := Some fb\<rparr>)"
  by (simp add: display_ok_def)

lemma console_pset32_draws:
  assumes ok: "display_ok st" and p: "(x, y) \<in> screen (console_width st) (console_height st)"
  obtains fb where "console_pset32 x y c st = Some (st\<lparr>console_fb := Some fb\<rparr>)" "display_ok (st\<lparr>console_fb := Some fb\<rparr>)"
    "picture (st\<lparr>console_fb := Some fb\<rparr>) = (picture st)((x, y) := c)"
proof -
  let ?w = "console_width st" and ?h = "console_height st"
  obtain fb where fb: "console_fb st = Some fb" "int (length fb) = ?w * ?h"
    using ok by (rule display_okE)
  have dvd: "32 dvd ?w" "32 dvd ?h" "console_size st = ?w * ?h"
    using ok by (auto simp: display_ok_def)
  have base: "0 \<le> pixel_base ?w x y" "pixel_base ?w x y < ?w * ?h"
    using pixel_base_bounds [OF dvd(1,2) p] by simp_all
  let ?fb = "fb[nat (pixel_base ?w x y) := c]"
  have "console_pset32 x y c st = Some (st\<lparr>console_fb := Some ?fb\<rparr>)"
    using base by (simp add: console_pset32_def fb_write_def fb)
  moreover have "display_ok (st\<lparr>console_fb := Some ?fb\<rparr>)"
    using ok by (intro display_ok_update) (simp_all add: fb dvd)
  moreover have "picture (st\<lparr>console_fb := Some ?fb\<rparr>) q = ((picture st)((x, y) := c)) q" for q
  proof (cases "q \<in> screen ?w ?h")
    case True
    obtain x' y' where q: "q = (x', y')"
      by fastforce
    have "pixel_base ?w x' y' = pixel_base ?w x y \<longleftrightarrow> (x', y') = (x, y)"
      using inj_on_eq_iff [OF pixel_base_inj [OF dvd(1)], of "(x', y')" ?h "(x, y)"] True p by (simp add: q)
    moreover have "0 \<le> pixel_base ?w x' y'" "pixel_base ?w x' y' < ?w * ?h"
      using pixel_base_bounds [OF dvd(1,2) True [unfolded q]] by simp_all
    ultimately show ?thesis
      using True base fb by (auto simp: picture_def q nth_list_update nat_eq_iff2 nat_less_iff)
  qed (use p in \<open>auto simp: picture_def\<close>)
  ultimately show thesis
    using that by blast
qed

section \<open>Characters\<close>

definition glyph :: "u8 list \<Rightarrow> u32 \<Rightarrow> u32 \<Rightarrow> u8 \<Rightarrow> nat \<times> nat \<Rightarrow> u32" where
  "glyph font bg fg c = (\<lambda>(ly, lx). if font_pixel font c lx ly then fg else bg)"

definition paint :: "(int \<times> int \<Rightarrow> u32) \<Rightarrow> int \<Rightarrow> int \<Rightarrow> (nat \<times> nat \<Rightarrow> u32) \<Rightarrow> (nat \<times> nat) set \<Rightarrow> int \<times> int \<Rightarrow> u32" where
  "paint pic x y g ps = (\<lambda>(px, py). if x \<le> px \<and> y \<le> py \<and> (nat (py - y), nat (px - x)) \<in> ps
     then g (nat (py - y), nat (px - x)) else pic (px, py))"

lemma paint_one: "(pic((x + int lx, y + int ly) := g (ly, lx))) = paint pic x y g {(ly, lx)}"
  by (auto simp: paint_def fun_eq_iff)

lemma paint_more: "paint (paint pic x y g ps) x y g qs = paint pic x y g (ps \<union> qs)"
  by (auto simp: paint_def fun_eq_iff)

lemma draw_pixels:
  "display_ok st \<Longrightarrow> \<forall>(ly, lx) \<in> set ps. (x + int lx, y + int ly) \<in> screen (console_width st) (console_height st) \<Longrightarrow>
   \<exists>fb. each (draw_pixel font x y c) ps st = Some (st\<lparr>console_fb := Some fb\<rparr>) \<and> display_ok (st\<lparr>console_fb := Some fb\<rparr>) \<and>
     picture (st\<lparr>console_fb := Some fb\<rparr>) = paint (picture st) x y (glyph font (color_bg st) (color_fg st) c) (set ps)"
proof (induction ps arbitrary: st)
  case Nil
  then show ?case
    by (auto simp: paint_def picture_def fun_eq_iff display_ok_def split: option.splits intro!: exI [of _ "the (console_fb st)"])
next
  case (Cons p ps)
  obtain ly lx where p: "p = (ly, lx)"
    by fastforce
  obtain fb where fb: "draw_pixel font x y c p st = Some (st\<lparr>console_fb := Some fb\<rparr>)" "display_ok (st\<lparr>console_fb := Some fb\<rparr>)"
    "picture (st\<lparr>console_fb := Some fb\<rparr>) = paint (picture st) x y (glyph font (color_bg st) (color_fg st) c) {p}"
    using console_pset32_draws [OF Cons.prems(1), of "x + int lx" "y + int ly" "glyph font (color_bg st) (color_fg st) c p"]
      Cons.prems(2) by (auto simp: p draw_pixel_def glyph_def paint_one [symmetric])
  from Cons.IH [OF fb(2)] Cons.prems(2) show ?case
    by (auto simp: fb(1) fb(3) paint_more)
qed

lemma glyph_pixels_set: "set glyph_pixels = {0..<16} \<times> {0..<8}"
  by (simp add: glyph_pixels_def)

lemma draw_char_paints:
  assumes "display_ok st" "0 \<le> x" "0 \<le> y" "x + 8 \<le> console_width st" "y + 16 \<le> console_height st"
  obtains fb where "console_draw_char font x y c st = Some (st\<lparr>console_fb := Some fb\<rparr>)"
    "display_ok (st\<lparr>console_fb := Some fb\<rparr>)"
    "picture (st\<lparr>console_fb := Some fb\<rparr>)
       = paint (picture st) x y (glyph font (color_bg st) (color_fg st) c) ({0..<16} \<times> {0..<8})"
proof -
  have "\<forall>(ly, lx) \<in> set glyph_pixels. (x + int lx, y + int ly) \<in> screen (console_width st) (console_height st)"
    using assms by (auto simp: glyph_pixels_set screen_def)
  from draw_pixels [OF assms(1) this, of font c] show thesis
    using that by (auto simp: console_draw_char_def glyph_pixels_set)
qed

section \<open>Scrolling\<close>

definition lifted :: "int \<Rightarrow> u32 \<Rightarrow> int \<Rightarrow> (int \<times> int \<Rightarrow> u32) \<Rightarrow> int \<times> int \<Rightarrow> u32" where
  "lifted h bg w pic = (\<lambda>(x, y). if (x, y) \<notin> screen w h then 0 else if y + 32 < h then pic (x, y + 32) else bg)"

lemma each_append: "each f (xs @ ys) s = Option.bind (each f xs s) (each f ys)"
proof (induction xs arbitrary: s)
  case (Cons x xs)
  then show ?case
    by (cases "f x s") simp_all
qed simp

lemma copy_rows:
  assumes "console_fb st = Some fb" "length fb = bs * Suc n" "k \<le> n"
  shows "each (copy_row bs 1) [1..<Suc k] st = Some (st\<lparr>console_fb := Some (take (bs * k) (drop bs fb) @ drop (bs * k) fb)\<rparr>)"
  using assms(3)
proof (induction k)
  case 0
  then show ?case
    using assms(1) by simp
next
  case (Suc k)
  let ?fb = "take (bs * k) (drop bs fb) @ drop (bs * k) fb"
  have kn: "bs * k \<le> bs * n"
    using Suc.prems by simp
  have len: "length (take (bs * k) (drop bs fb)) = bs * k" "length ?fb = bs * Suc n"
    using kn assms(2) unfolding length_append length_take length_drop mult_Suc_right by linarith+
  have bound: "bs * Suc k + bs \<le> bs * Suc n"
    using Suc.prems mult_le_mono2 [of "Suc (Suc k)" "Suc n" bs] by simp
  have "drop (bs * Suc k) ?fb = drop (bs + bs * k) fb" "drop (bs * k + bs) ?fb = drop (bs * Suc k) fb"
    using len(1) by (simp_all add: ac_simps)
  moreover have "take (bs * k) ?fb = take (bs * k) (drop bs fb)"
    using len(1) by simp
  moreover have "take (bs * k) (drop bs fb) @ take bs (drop (bs + bs * k) fb) = take (bs * Suc k) (drop bs fb)"
    by (simp add: take_add add.commute [of _ "bs * k"])
  ultimately have "copy_row bs 1 (Suc k) (st\<lparr>console_fb := Some ?fb\<rparr>)
     = Some (st\<lparr>console_fb := Some (take (bs * Suc k) (drop bs fb) @ drop (bs * Suc k) fb)\<rparr>)"
    using bound len(2) by (simp add: copy_row_def)
  then show ?case
    using Suc by (simp add: each_append)
qed

lemma scroll_memory:
  assumes ok: "display_ok st" and fb: "console_fb st = Some fb"
  shows "console_scroll32 1 st = Some (st\<lparr>console_fb :=
     Some (drop (nat (32 * console_width st)) fb @ replicate (nat (32 * console_width st)) (color_bg st))\<rparr>)"
proof -
  obtain n where n: "console_height st = 32 * int (Suc n)"
  proof -
    obtain m where m: "console_height st = 32 * m"
      using ok by (auto simp: display_ok_def)
    moreover have "0 < m"
      using ok m by (simp add: display_ok_def)
    ultimately show thesis
      using that [of "nat (m - 1)"] by simp
  qed
  define bs where "bs = nat (32 * console_width st)"
  have w: "console_width st * 32 = int bs"
    using ok by (simp add: bs_def display_ok_def)
  have bs: "0 < bs"
    using ok by (simp add: bs_def display_ok_def)
  have size: "console_size st = int (bs * Suc n)"
    using ok by (simp add: display_ok_def n w [symmetric] algebra_simps)
  have len: "length fb = bs * Suc n"
    using ok fb size by (simp add: display_ok_def del: of_nat_mult of_nat_Suc mult_Suc_right)
  have rows: "nat ((console_height st + 31) div 32) = Suc n"
    by (simp add: n)
  have "each (copy_row bs 1) [1..<Suc n] st = Some (st\<lparr>console_fb := Some (take (bs * n) (drop bs fb) @ drop (bs * n) fb)\<rparr>)"
    by (rule copy_rows [OF fb len]) simp
  moreover have "take (bs * n) (drop bs fb) = drop bs fb"
    by (simp add: len)
  ultimately have "each (copy_row bs 1) [1..<Suc n] st = Some (st\<lparr>console_fb := Some (drop bs fb @ drop (bs * n) fb)\<rparr>)"
    by simp
  moreover have "fb_fill (bs * n) bs (st\<lparr>console_fb := Some (drop bs fb @ drop (bs * n) fb)\<rparr>)
     = Some (st\<lparr>console_fb := Some (drop bs fb @ replicate bs (color_bg st))\<rparr>)"
    using bs by (simp add: fb_fill_def len)
  moreover have "\<not> console_size st < int (bs * 1)" "nat (console_size st) - bs * 1 = bs * n"
    unfolding size nat_int of_nat_less_iff by simp_all
  ultimately show ?thesis
    unfolding console_scroll32_def Let_def rows w nat_int bs_def [symmetric] by simp
qed

lemma pixel_below: "32 dvd w \<Longrightarrow> pixel_base w x (y + 32) = pixel_base w x y + 32 * w"
proof -
  assume w: "32 dvd w"
  have "(y + 32) div 8 mod 2 = y div 8 mod 2"
    using div_mult_self1 [of 8 y 4] mod_mult_self1 [of "y div 8" 2 2] by (simp add: add.commute)
  moreover have "(y + 32) mod 2 = y mod 2"
    using mod_mult_self1 [of y 16 2] by simp
  ultimately have "tile x (y + 32) = tile x y"
    by (simp only: tile_def mod_add_self2)
  moreover have "(y + 32) div 32 = y div 32 + 1"
    by simp
  moreover obtain v where "w = 32 * v"
    using w by (rule dvdE)
  ultimately show ?thesis
    by (simp add: pixel_base_eq distrib_right)
qed

lemma pixel_last:
  assumes "32 dvd w" "32 dvd h" "(x, y) \<in> screen w h" "h \<le> y + 32" shows "w * h \<le> pixel_base w x y + 32 * w"
proof -
  obtain v u where vu: "w = 32 * v" "h = 32 * u"
    using assms by blast
  have "0 \<le> x div 32" "u - 1 \<le> y div 32" "0 \<le> v"
    using assms by (auto simp: screen_def vu)
  then have "(u - 1) * v \<le> y div 32 * v + x div 32"
    using mult_right_mono [of "u - 1" "y div 32" v] by simp
  moreover have "pixel_base w x y = 1024 * (y div 32 * v + x div 32) + tile x y"
    using assms by (simp add: pixel_base_eq vu)
  moreover have "w * h - 32 * w = 1024 * ((u - 1) * v)"
    by (simp add: vu algebra_simps)
  moreover have "s \<le> t \<Longrightarrow> p = 1024 * t + k \<Longrightarrow> a - b = 1024 * s \<Longrightarrow> 0 \<le> k \<Longrightarrow> a \<le> p + b" for s t p k a b :: int
    by linarith
  ultimately show ?thesis
    using tile_bounds(1) [of x y] by blast
qed

lemma scroll_lifts:
  assumes ok: "display_ok st"
  obtains fb where "console_scroll32 1 st = Some (st\<lparr>console_fb := Some fb\<rparr>)" "display_ok (st\<lparr>console_fb := Some fb\<rparr>)"
    "picture (st\<lparr>console_fb := Some fb\<rparr>) = lifted (console_height st) (color_bg st) (console_width st) (picture st)"
proof -
  let ?w = "console_width st" and ?h = "console_height st"
  obtain fb where fb: "console_fb st = Some fb" "int (length fb) = ?w * ?h"
    using ok by (rule display_okE)
  have dvd: "32 dvd ?w" "32 dvd ?h" "console_size st = ?w * ?h" "0 < ?w" "0 < ?h"
    using ok by (auto simp: display_ok_def)
  have h32: "32 \<le> ?h"
    using dvd by (auto elim!: dvdE)
  have fits: "32 * ?w \<le> ?w * ?h"
    using mult_left_mono [OF h32, of ?w] dvd by (simp add: mult.commute)
  let ?fb = "drop (nat (32 * ?w)) fb @ replicate (nat (32 * ?w)) (color_bg st)"
  have 1: "display_ok (st\<lparr>console_fb := Some ?fb\<rparr>)"
    using fits dvd by (intro display_ok_update [OF ok]) (simp add: fb of_nat_diff nat_le_iff)
  have 2: "picture (st\<lparr>console_fb := Some ?fb\<rparr>) p = lifted ?h (color_bg st) ?w (picture st) p" for p
  proof (cases "p \<in> screen ?w ?h")
    case True
    obtain x y where p: "p = (x, y)"
      by fastforce
    have b: "0 \<le> pixel_base ?w x y" "pixel_base ?w x y < ?w * ?h"
      using pixel_base_bounds [OF dvd(1,2) True [unfolded p]] by simp_all
    show ?thesis
    proof (cases "y + 32 < ?h")
      case in_range: True
      then have s: "(x, y + 32) \<in> screen ?w ?h"
        using True by (auto simp: p screen_def)
      have "pixel_base ?w x y + 32 * ?w < ?w * ?h"
        using pixel_base_bounds [OF dvd(1,2) s] by (simp add: pixel_below dvd)
      then have "nat (pixel_base ?w x y) + nat (32 * ?w) < length fb"
        using b dvd(4) fb(2) by linarith
      then show ?thesis
        using True in_range s b dvd(1,4) fb(1)
        by (simp add: picture_def lifted_def p pixel_below nth_append nat_add_distrib add.commute less_diff_conv)
    next
      case False
      have "\<not> pixel_base ?w x y + 32 * ?w < ?w * ?h"
        using pixel_last [OF dvd(1,2) True [unfolded p]] False by simp
      then have "\<not> nat (pixel_base ?w x y) < length fb - nat (32 * ?w)"
        "nat (pixel_base ?w x y) - (length fb - nat (32 * ?w)) < nat (32 * ?w)"
        using b dvd(4) fb(2) by linarith+
      then show ?thesis
        using True False fb(1) by (simp add: picture_def lifted_def p nth_append)
    qed
  qed (simp add: picture_def lifted_def split_beta)
  show thesis
    by (rule that [OF scroll_memory [OF ok fb(1)] 1]) (rule ext, rule 2)
qed

end
