(* ===== verification/Console_Claims.thy ===== *)
theory Console_Claims
  imports Console_Display
begin

text \<open>
  The text console as a terminal.  A terminal has a picture, a column and a row; \<open>type_char\<close> says what one
  character does to it.  The lemmas show that every routine of \<^verbatim>\<open>console.c\<close> implements its step of the terminal
  while keeping the invariant \<open>console_ok\<close>, that the start-up establishes the invariant, and that the colour
  arguments of the warning macros are ignored.
\<close>

section \<open>The terminal the console implements\<close>

record terminal =
  shown :: "int \<times> int \<Rightarrow> u32"
  col :: int
  row :: int

definition view :: "console \<Rightarrow> terminal" where
  "view st = \<lparr>shown = picture st, col = cursor_x st, row = cursor_y st\<rparr>"

definition next_line :: "console \<Rightarrow> terminal \<Rightarrow> terminal" where
  "next_line g t = (if row t + 1 < max_y g then t\<lparr>col := 0, row := row t + 1\<rparr>
     else t\<lparr>shown := lifted (console_height g) (color_bg g) (console_width g) (shown t), col := 0, row := row t - 1\<rparr>)"

definition type_char :: "u8 list \<Rightarrow> console \<Rightarrow> u8 \<Rightarrow> terminal \<Rightarrow> terminal" where
  "type_char font g c t = (if c = 0x0D then t\<lparr>col := 0\<rparr> else if c = 0x0A then next_line g t
     else let t = t\<lparr>shown := paint (shown t) (col t * 8 + offset_x g) (row t * 16 + offset_y g)
         (glyph font (color_bg g) (color_fg g) c) ({0..<16} \<times> {0..<8}), col := col t + 1\<rparr>
       in if col t < max_x g then t else next_line g t)"

definition console_ok :: "console \<Rightarrow> bool" where
  "console_ok st \<longleftrightarrow> display_ok st \<and> 0 \<le> cursor_x st \<and> cursor_x st < max_x st \<and> 0 \<le> cursor_y st \<and> cursor_y st < max_y st \<and>
     2 \<le> max_y st \<and> 0 \<le> offset_x st \<and> 0 \<le> offset_y st \<and>
     max_x st * 8 + offset_x st \<le> console_width st \<and> max_y st * 16 + offset_y st \<le> console_height st"

definition fixed_part :: "console \<Rightarrow> console" where
  "fixed_part st = st\<lparr>console_fb := None, cursor_x := 0, cursor_y := 0\<rparr>"

text \<open>The lemmas below compare a step of the console with the step of the terminal.\<close>

definition implements :: "console option \<Rightarrow> console \<Rightarrow> terminal \<Rightarrow> bool" where
  "implements m st t \<longleftrightarrow> returns m (\<lambda>st'. console_ok st' \<and> fixed_part st' = fixed_part st \<and> view st' = t)"

lemma cursor_frame [simp]:
  "display_ok (st\<lparr>cursor_x := a\<rparr>) = display_ok st" "display_ok (st\<lparr>cursor_y := b\<rparr>) = display_ok st"
  "picture (st\<lparr>cursor_x := a\<rparr>) = picture st" "picture (st\<lparr>cursor_y := b\<rparr>) = picture st"
  "display_ok (st\<lparr>cursor_x := a, console_fb := f\<rparr>) = display_ok (st\<lparr>console_fb := f\<rparr>)"
  "display_ok (st\<lparr>cursor_y := b, console_fb := f\<rparr>) = display_ok (st\<lparr>console_fb := f\<rparr>)"
  "picture (st\<lparr>cursor_x := a, console_fb := f\<rparr>) = picture (st\<lparr>console_fb := f\<rparr>)"
  "picture (st\<lparr>cursor_y := b, console_fb := f\<rparr>) = picture (st\<lparr>console_fb := f\<rparr>)"
  by (simp_all add: display_ok_def picture_def fun_eq_iff split: option.splits)

lemma fixed_partD:
  assumes "fixed_part st' = fixed_part st"
  shows "max_x st' = max_x st" "max_y st' = max_y st" "console_width st' = console_width st"
    "console_height st' = console_height st" "color_bg st' = color_bg st" "color_fg st' = color_fg st"
    "offset_x st' = offset_x st" "offset_y st' = offset_y st" "console_initialized st' = console_initialized st"
    "hooked st' = hooked st" "console_oldbg st' = console_oldbg st" "console_oldfg st' = console_oldfg st"
  using arg_cong [OF assms, of max_x] arg_cong [OF assms, of max_y] arg_cong [OF assms, of console_width]
    arg_cong [OF assms, of console_height] arg_cong [OF assms, of color_bg] arg_cong [OF assms, of color_fg]
    arg_cong [OF assms, of offset_x] arg_cong [OF assms, of offset_y] arg_cong [OF assms, of console_initialized]
    arg_cong [OF assms, of hooked] arg_cong [OF assms, of console_oldbg] arg_cong [OF assms, of console_oldfg]
  by (simp_all add: fixed_part_def)

lemma type_char_cong:
  assumes "fixed_part st' = fixed_part st"
  shows "type_char font st' = type_char font st"
  by (simp add: fun_eq_iff type_char_def next_line_def Let_def fixed_partD [OF assms])

text \<open>The cursor may stand one column past the end of the line when the line is finished.\<close>

lemma newline_implements:
  assumes "console_ok (st\<lparr>cursor_x := 0\<rparr>)"
  shows "implements (console_newline st) st (next_line st (view st))"
proof (cases "cursor_y st + 1 < max_y st")
  case True
  then show ?thesis
    using assms by (simp add: implements_def console_newline_def next_line_def view_def console_ok_def fixed_part_def)
next
  case False
  let ?st = "st\<lparr>cursor_x := 0, cursor_y := cursor_y st + 1\<rparr>"
  have "display_ok ?st"
    using assms by (simp add: console_ok_def)
  then obtain fb where "console_scroll32 1 ?st = Some (?st\<lparr>console_fb := Some fb\<rparr>)" "display_ok (?st\<lparr>console_fb := Some fb\<rparr>)"
    "picture (?st\<lparr>console_fb := Some fb\<rparr>) = lifted (console_height ?st) (color_bg ?st) (console_width ?st) (picture ?st)"
    by (rule scroll_lifts)
  then show ?thesis
    using False assms by (simp add: implements_def console_newline_def next_line_def view_def console_ok_def
        fixed_part_def)
qed

lemma putch_implements:
  assumes ok: "console_ok st"
  shows "implements (console_putch font c st) st (type_char font st c (view st))"
proof -
  have fb: "console_fb st \<noteq> None"
    using ok by (auto simp: console_ok_def elim: display_okE)
  consider "c = 0x0D" | "c = 0x0A" | "c \<noteq> 0x0D" "c \<noteq> 0x0A"
    by blast
  then show ?thesis
  proof cases
    case 1
    then show ?thesis
      using ok fb by (auto simp: implements_def console_putch_def type_char_def view_def console_ok_def fixed_part_def)
  next
    case 2
    have "console_ok (st\<lparr>cursor_x := 0\<rparr>)"
      using ok by (simp add: console_ok_def)
    from newline_implements [OF this] 2 fb show ?thesis
      by (auto simp: console_putch_def type_char_def)
  next
    case 3
    let ?x = "cursor_x st * 8 + offset_x st" and ?y = "cursor_y st * 16 + offset_y st"
    have "display_ok st" "0 \<le> ?x" "0 \<le> ?y" "?x + 8 \<le> console_width st" "?y + 16 \<le> console_height st"
      using ok by (simp_all add: console_ok_def)
    then obtain f where f: "console_draw_char font ?x ?y c st = Some (st\<lparr>console_fb := Some f\<rparr>)"
      "display_ok (st\<lparr>console_fb := Some f\<rparr>)"
      "picture (st\<lparr>console_fb := Some f\<rparr>) = paint (picture st) ?x ?y (glyph font (color_bg st) (color_fg st) c) ({0..<16} \<times> {0..<8})"
      by (rule draw_char_paints)
    let ?st = "st\<lparr>console_fb := Some f, cursor_x := cursor_x st + 1\<rparr>"
    have v: "view ?st = (view st)\<lparr>shown := picture (st\<lparr>console_fb := Some f\<rparr>), col := col (view st) + 1\<rparr>"
      by (simp add: view_def)
    have step: "type_char font st c (view st) = (if cursor_x ?st < max_x ?st then view ?st else next_line ?st (view ?st))"
      using 3 by (simp add: type_char_def v f(3)) (simp add: view_def next_line_def)
    have "console_putch font c st = (if cursor_x ?st < max_x ?st then Some ?st else console_newline ?st)"
      using 3 fb f(1) by (auto simp: console_putch_def)
    moreover have "console_ok (?st\<lparr>cursor_x := 0\<rparr>)"
      using ok f(2) by (simp add: console_ok_def)
    moreover have "cursor_x ?st < max_x ?st \<Longrightarrow> console_ok ?st"
      using ok f(2) by (simp add: console_ok_def)
    moreover have "fixed_part ?st = fixed_part st"
      by (simp add: fixed_part_def)
    ultimately show ?thesis
      using newline_implements [of ?st] by (simp add: step implements_def)
  qed
qed

text \<open>
  A character device: putting one character keeps the invariant and the configuration, and takes what the device
  shows one step further.  A text is then put by running the step over its characters.
\<close>

locale char_device =
  fixes put :: "'c \<Rightarrow> 's \<Rightarrow> 's option" and ok :: "'s \<Rightarrow> bool" and frame :: "'s \<Rightarrow> 'f"
    and shows_now :: "'s \<Rightarrow> 't" and step :: "'f \<Rightarrow> 'c \<Rightarrow> 't \<Rightarrow> 't"
  assumes put_step: "ok s \<Longrightarrow>
    returns (put c s) (\<lambda>s'. ok s' \<and> frame s' = frame s \<and> shows_now s' = step (frame s) c (shows_now s))"
begin

lemma put_all:
  "ok s \<Longrightarrow> returns (each put cs s) (\<lambda>s'. ok s' \<and> frame s' = frame s \<and> shows_now s' = fold (step (frame s)) cs (shows_now s))"
proof (induction cs arbitrary: s)
  case (Cons c cs)
  obtain s' where s': "put c s = Some s'" "ok s'" "frame s' = frame s" "shows_now s' = step (frame s) c (shows_now s)"
    using put_step [OF Cons.prems, of c] by (auto simp: returns_iff)
  show ?case
    using Cons.IH [OF s'(2)] by (simp add: s')
qed simp

end

lemma type_char_fixed: "type_char font (fixed_part st) = type_char font st"
  by (rule type_char_cong) (simp add: fixed_part_def)

interpretation tty: char_device "console_putch font" console_ok fixed_part view "type_char font"
  for font
  using putch_implements by unfold_locales (simp add: implements_def type_char_fixed)

lemma hook_implements:
  assumes "console_ok st" "console_initialized st"
  shows "implements (console_stdout_hook font cs st) st (fold (type_char font st) cs (view st))"
  using tty.put_all [OF assms(1), of font cs] assms(2) by (simp add: implements_def console_stdout_hook_def type_char_fixed)


section \<open>Start-up\<close>

lemma uint_round32: "uint w \<le> 4096 \<Longrightarrow> uint (round32 w) = (uint w + 31) div 32 * 32"
proof -
  assume w: "uint w \<le> 4096"
  have "uint (w + 31) = uint w + 31"
    using w by (simp add: uint_word_ariths)
  then have "uint (drop_bit 5 (w + 31)) = (uint w + 31) div 32"
    by (simp add: drop_bit_eq_div uint_div)
  moreover have "(uint w + 31) div 32 * 32 mod 4294967296 = (uint w + 31) div 32 * 32"
    using w by (intro mod_pos_pos_trivial) (simp_all add: pos_imp_zdiv_nonneg_iff)
  ultimately show ?thesis
    by (simp add: round32_def push_bit_eq_mult uint_word_ariths)
qed

lemma uint_margin:
  "uint w \<le> 4096 \<Longrightarrow> 28 * uint b \<le> uint w \<Longrightarrow> uint ((w - b * 2) div k) = (uint w - uint b * 2) div uint (k :: u32)"
proof -
  assume w: "uint w \<le> 4096" "28 * uint b \<le> uint w"
  have b: "0 \<le> uint b" "uint b \<le> 4096"
    using w by simp_all
  then have "uint (b * 2) = uint b * 2"
    by (simp add: uint_word_ariths)
  moreover have "(uint w - uint b * 2) mod 4294967296 = uint w - uint b * 2"
    using w b by (intro mod_pos_pos_trivial) linarith+
  ultimately have "uint (w - b * 2) = uint w - uint b * 2"
    by (simp add: uint_word_ariths)
  then show ?thesis
    by (simp add: uint_div)
qed

lemma rounded_up: "(w :: int) \<le> (w + 31) div 32 * 32" "32 dvd (w + 31) div 32 * 32"
  by presburger simp

lemma div_floor: "0 < k \<Longrightarrow> k * (w div k) \<le> (w :: int)"
  using pos_mod_sign [of k w] by (simp add: minus_mod_eq_mult_div [symmetric])

lemma text_area:
  fixes w b :: int
  assumes "0 \<le> b" "28 * b \<le> w" "0 < k"
  shows "(w - b * 2) div k * k + b \<le> (w + 31) div 32 * 32"
proof -
  have "(w - b * 2) div k * k \<le> w - b * 2"
    using div_floor [OF assms(3), of "w - b * 2"] by (simp add: mult.commute)
  then show ?thesis
    using rounded_up(1) [of w] assms by linarith
qed

lemma picture_filled:
  assumes "display_ok st" "console_fb st = Some (replicate n c)"
  shows "picture st = (\<lambda>p. if p \<in> screen (console_width st) (console_height st) then c else 0)"
proof
  fix p
  have n: "int n = console_width st * console_height st" and dvd: "32 dvd console_width st" "32 dvd console_height st"
    using assms by (auto simp: display_ok_def)
  show "picture st p = (if p \<in> screen (console_width st) (console_height st) then c else 0)"
  proof (cases "p \<in> screen (console_width st) (console_height st)")
    case True
    then have "(fst p, snd p) \<in> screen (console_width st) (console_height st)"
      by simp
    from pixel_base_bounds [OF dvd this] have "nat (pixel_base (console_width st) (fst p) (snd p)) < n"
      unfolding n [symmetric] by linarith
    then show ?thesis
      using True by (simp add: picture_def assms(2))
  qed (simp add: picture_def)
qed

text \<open>The sizes the display controller may report: at least one character wide and two lines high.\<close>

definition mode_ok :: "ati_info \<Rightarrow> u32 list \<Rightarrow> bool" where
  "mode_ok ai fb \<longleftrightarrow> 8 \<le> uint (ai_width ai) \<and> uint (ai_width ai) \<le> 4096 \<and> 36 \<le> uint (ai_height ai) \<and>
     uint (ai_height ai) \<le> 4096 \<and> int (length fb) = uint (round32 (ai_width ai)) * uint (round32 (ai_height ai))"

lemma init_implements:
  assumes mode: "mode_ok ai fb"
  shows "returns (console_init ai overscan fb st) (\<lambda>st'. console_ok st' \<and> console_initialized st' \<and> hooked st' \<and>
     view st' = \<lparr>shown = (\<lambda>p. if p \<in> screen (console_width st') (console_height st') then color_bg st else 0),
       col = 0, row = 0\<rparr>)"
proof -
  define w h where "w = ai_width ai" and "h = ai_height ai"
  define ox oy where "ox = (if overscan then w div 28 else 0)" and "oy = (if overscan then h div 28 else 0)"
  define W H where "W = uint (round32 w)" and "H = uint (round32 h)"
  have bounds: "8 \<le> uint w" "uint w \<le> 4096" "36 \<le> uint h" "uint h \<le> 4096" and len: "int (length fb) = W * H"
    using mode by (simp_all add: mode_ok_def w_def h_def W_def H_def)
  have off: "28 * uint ox \<le> uint w" "28 * uint oy \<le> uint h" "0 \<le> uint ox" "0 \<le> uint oy"
    using div_floor [of 28] by (simp_all add: ox_def oy_def uint_div)
  define mx my where "mx = uint ((w - ox * 2) div 8)" and "my = uint ((h - oy * 2) div 16)"
  have mxy: "mx = (uint w - uint ox * 2) div 8" "my = (uint h - uint oy * 2) div 16"
    using uint_margin [OF bounds(2) off(1), of 8] uint_margin [OF bounds(4) off(2), of 16] by (simp_all add: mx_def my_def)
  have m: "0 < mx" "2 \<le> my"
    using bounds off by (simp_all add: mxy)
  have WH: "W = (uint w + 31) div 32 * 32" "H = (uint h + 31) div 32 * 32"
    using bounds by (simp_all add: W_def H_def uint_round32)
  have fits: "mx * 8 + uint ox \<le> W" "my * 16 + uint oy \<le> H"
    unfolding mxy WH using off by (simp_all add: text_area)
  have pos: "0 < W" "0 < H" "32 dvd W" "32 dvd H"
    using rounded_up [of "uint w"] rounded_up [of "uint h"] bounds by (simp_all add: WH)
  define st' where "st' = st\<lparr>console_width := W, console_height := H, console_size := W * H, max_x := mx, max_y := my,
     offset_x := uint ox, offset_y := uint oy, cursor_x := 0, cursor_y := 0, hooked := True, console_initialized := True,
     console_fb := Some (replicate (length fb) (color_bg st))\<rparr>"
  have n: "nat (W * H) = length fb" "0 < length fb"
    using len mult_pos_pos [OF pos(1,2)] by linarith+
  have "console_init ai overscan fb st = Some st'"
    unfolding console_init_def Let_def w_def [symmetric] h_def [symmetric] ox_def [symmetric] oy_def [symmetric]
      W_def [symmetric] H_def [symmetric] mx_def [symmetric] my_def [symmetric]
    using n mult_pos_pos [OF pos(1,2)] by (simp add: console_clrscr_def Let_def fb_fill_def st'_def)
  moreover have ok: "display_ok st'"
    using pos len by (simp add: display_ok_def st'_def)
  moreover have "console_ok st'"
    using ok m fits off by (simp add: console_ok_def) (simp add: st'_def)
  moreover have "picture st' = (\<lambda>p. if p \<in> screen (console_width st') (console_height st') then color_bg st else 0)"
    by (rule picture_filled [OF ok]) (simp add: st'_def)
  ultimately show ?thesis
    by (simp add: view_def) (simp add: st'_def)
qed

section \<open>Colours\<close>

lemma set_colors_ignored: "console_set_colors background foreground st = st"
proof -
  have "\<not> (x :: u32) > - 1" for x
    by (simp add: linorder_not_less)
  then show ?thesis
    by (simp add: console_set_colors_def)
qed

lemma warnings_uncoloured:
  assumes "console_ok st" "console_initialized st" "hooked st"
  shows "returns (PRINT_COL font bg fg cs st) (\<lambda>st'. console_ok st' \<and> view st' = fold (type_char font st) cs (view st) \<and>
     color_bg st' = color_bg st \<and> color_fg st' = color_fg st)"
proof -
  let ?st = "st\<lparr>console_oldbg := color_bg st, console_oldfg := color_fg st\<rparr>"
  have same: "display_ok ?st = display_ok st" "picture ?st = picture st"
    by (simp_all add: display_ok_def picture_def fun_eq_iff split: option.splits)
  have ok: "console_ok ?st" "console_initialized ?st"
    using assms by (simp_all add: console_ok_def same)
  have v: "view ?st = view st" "type_char font ?st = type_char font st"
    by (simp_all add: view_def same fun_eq_iff type_char_def next_line_def Let_def)
  have "returns (console_stdout_hook font cs ?st) (\<lambda>st'. console_ok st' \<and> fixed_part st' = fixed_part ?st \<and>
     view st' = fold (type_char font st) cs (view st))"
    using hook_implements [OF ok, of font cs] by (simp add: implements_def v)
  then have "returns (console_stdout_hook font cs ?st) (\<lambda>st'. console_ok st' \<and> view st' = fold (type_char font st) cs (view st) \<and>
     color_bg st' = color_bg st \<and> color_fg st' = color_fg st)"
  proof (rule returns_mono, goal_cases)
    case (1 st')
    then show ?case
      using fixed_partD [of st' ?st] by simp
  qed
  then show ?thesis
    using assms(3) by (simp add: PRINT_COL_def set_colors_ignored Let_def)
qed

section \<open>Claims\<close>

text \<open>
  C40: \<open>console_init\<close> comes back for every display mode of sensible size, with or without overscan: it leaves an
  initialised console whose whole text area lies inside the framebuffer, the screen filled with the background
  colour and the cursor in the first column of the first line.
\<close>

theorem console_init_ready:
  assumes "mode_ok ai fb"
  shows "returns (console_init ai overscan fb st) (\<lambda>st'. console_ok st' \<and> console_initialized st' \<and> hooked st' \<and>
     view st' = \<lparr>shown = (\<lambda>p. if p \<in> screen (console_width st') (console_height st') then color_bg st else 0),
       col = 0, row = 0\<rparr>)"
  using assms by (rule init_implements)

lemma mode_640: "mode_ok \<lparr>ai_width = 640, ai_height = 480\<rparr> (replicate 307200 0)"
  by (simp add: mode_ok_def uint_round32)

theorem console_init_ready_witness:
  "mode_ok \<lparr>ai_width = 640, ai_height = 480\<rparr> (replicate 307200 0) \<and>
   returns (console_init \<lparr>ai_width = 640, ai_height = 480\<rparr> True (replicate 307200 0) console_reset)
     (\<lambda>st'. console_ok st' \<and> console_initialized st' \<and> hooked st' \<and>
       view st' = \<lparr>shown = (\<lambda>p. if p \<in> screen (console_width st') (console_height st') then color_bg console_reset else 0),
         col = 0, row = 0\<rparr>)"
  using console_init_ready [OF mode_640, of True console_reset] mode_640 by blast

text \<open>
  C39: Printing through \<open>console_stdout_hook\<close> always comes back, never writes outside the framebuffer, keeps the
  cursor inside the text area and implements a terminal: character by character, the picture on the screen and the
  cursor are those of \<open>type_char\<close>, that is, a glyph is painted at the cursor in the two colours, the end of a
  line or a line feed starts a new line, and a new line below the last moves the whole picture up by 32 pixels and
  the cursor up by two lines.  Nothing else of the console changes.
\<close>

theorem console_prints:
  assumes "console_ok st" "console_initialized st"
  shows "returns (console_stdout_hook font cs st) (\<lambda>st'. console_ok st' \<and> fixed_part st' = fixed_part st \<and>
     view st' = fold (type_char font st) cs (view st))"
  using hook_implements [OF assms] by (simp add: implements_def)

definition small_console :: console where
  "small_console = console_reset\<lparr>console_initialized := True, console_width := 32, console_height := 32, console_size := 1024,
     max_x := 4, max_y := 2, console_fb := Some (replicate 1024 0)\<rparr>"

lemma small_console_ok: "console_ok small_console" "console_initialized small_console"
  by (simp_all add: small_console_def console_reset_def console_ok_def display_ok_def)

theorem console_prints_witness:
  "console_ok small_console \<and> console_initialized small_console \<and>
   returns (console_stdout_hook (replicate 4096 0) [0x48, 0x69, 0x0A, 0x0A, 0x0A] small_console)
     (\<lambda>st'. console_ok st' \<and> fixed_part st' = fixed_part small_console \<and>
       view st' = fold (type_char (replicate 4096 0) small_console) [0x48, 0x69, 0x0A, 0x0A, 0x0A] (view small_console))"
  using console_prints [OF small_console_ok] small_console_ok by blast

end
