(* ===== verification/Config.thy ===== *)
theory Config
  imports Nand_Io
begin

text \<open>
  The secured settings of the console, \<^verbatim>\<open>xenon_nand/xenon_config.c\<close>: they are read once from the configuration
  area of the flash through the routines of \<^verbatim>\<open>xenon_sfcx.c\<close>, and their fields are read with defaults for flash
  that is erased or zeroed.  The settings are kept as the bytes of \<open>struct XCONFIG_SECURED_SETTINGS\<close>.
\<close>

unbundle bit_operations_syntax

section \<open>Model\<close>

definition BLOCK_OFFSET :: nat where "BLOCK_OFFSET = 3"

definition STATUS_ERROR :: u32 where
  "STATUS_ERROR = 0x800 OR 0x80 OR STATUS_BB_ER OR 0x20 OR STATUS_ECC_ER OR 0x2"

definition SFCX_SUCCESS :: "u32 \<Rightarrow> bool" where
  "SFCX_SUCCESS status \<longleftrightarrow> status AND STATUS_ERROR = 0"

text \<open>The offsets of the fields that are read, and the size of the structure.\<close>

definition MACAddress_at :: nat where "MACAddress_at = 0x20"
definition AVRegion_at :: nat where "AVRegion_at = 0x28"
definition VIDDelta_at :: nat where "VIDDelta_at = 0x40"
definition settings_size :: nat where "settings_size = 0x208"

record xconfig =
  xenon_config_initialized :: bool
  secured_settings :: "u8 list"
  pagebuf :: "u8 list"

definition xconfig_reset :: xconfig where
  "xconfig_reset = \<lparr>xenon_config_initialized = False, secured_settings = replicate settings_size 0,
     pagebuf = replicate MAX_PAGE_SZ 0\<rparr>"

definition xenon_config_init :: "'h bus \<Rightarrow> nat \<Rightarrow> xconfig \<times> sfc \<times> 'h \<Rightarrow> (xconfig \<times> sfc \<times> 'h) option" where
  "xenon_config_init b revision = (\<lambda>(x, g, h).
     if xenon_config_initialized x then Some (x, g, h)
     else do {
       (_, g, h) \<leftarrow> sfcx_init b revision g h;
       if \<not> initialized g then Some (x, g, h)
       else do {
         let addr = addr_config g + BLOCK_OFFSET * block_sz g + page_sz g;
         (status, buf, h) \<leftarrow> sfcx_read_page b g (pagebuf x) addr False h;
         let x = x\<lparr>pagebuf := buf\<rparr>;
         Some (if SFCX_SUCCESS status
           then x\<lparr>secured_settings := take settings_size buf, xenon_config_initialized := True\<rparr> else x, g, h) } })"

definition xenon_config_get_avregion :: "xconfig \<Rightarrow> int" where
  "xenon_config_get_avregion x = (let buf = take 4 (drop AVRegion_at (secured_settings x)) in
     if buf ! 0 = 0xFF \<and> buf ! 1 = 0xFF \<and> buf ! 2 = 0xFF then 0
     else if buf ! 0 = 0 \<and> buf ! 1 = 0 \<and> buf ! 2 = 0 then 0
     else uint (buf ! 2))"

definition xenon_config_get_mac_addr :: "xconfig \<Rightarrow> u8 list" where
  "xenon_config_get_mac_addr x = (let
     dmac = [0x00, 0x22, 0x48, 0xFF, 0xFF, 0xFF];
     hwaddr = take 6 (drop MACAddress_at (secured_settings x));
     hwaddr = (if hwaddr ! 0 = 0xFF \<and> hwaddr ! 1 = 0xFF \<and> hwaddr ! 2 = 0xFF then dmac else hwaddr)
   in if hwaddr ! 0 = 0 \<and> hwaddr ! 1 = 0 \<and> hwaddr ! 2 = 0 then dmac else hwaddr)"

definition xenon_config_get_vid_delta :: "xconfig \<Rightarrow> int" where
  "xenon_config_get_vid_delta x = (let delta = secured_settings x ! VIDDelta_at in
     if delta = 0 \<or> delta = 0xFF then - 1 else uint delta)"

section \<open>What the settings say\<close>

definition xconfig_ok :: "xconfig \<Rightarrow> bool" where
  "xconfig_ok x \<longleftrightarrow> length (secured_settings x) = settings_size \<and> length (pagebuf x) = MAX_PAGE_SZ"

lemma xconfig_reset_ok: "xconfig_ok xconfig_reset"
  by (simp add: xconfig_ok_def xconfig_reset_def)

lemma read_words_length: "read_words b n i data h = (d, h') \<Longrightarrow> length d = length data"
proof (induction n arbitrary: i data h)
  case (Suc n)
  from Suc.prems show ?case
    by (auto simp: Let_def case_prod_beta store_int_def dest!: Suc.IH)
qed simp

lemma read_page_length: "sfcx_read_page b g data address raw h = Some (s, d, h') \<Longrightarrow> length d = length data"
  by (auto simp: sfcx_read_page_def case_prod_beta Let_def split: bind_splits dest!: read_words_length)

lemma config_init_ok:
  assumes "xconfig_ok x" "xenon_config_init b revision (x, g, h) = Some (x', g', h')"
  shows "xconfig_ok x'"
  using assms
  by (auto simp: xenon_config_init_def xconfig_ok_def settings_size_def MAX_PAGE_SZ_def Let_def
      split: if_splits bind_splits dest!: read_page_length)

text \<open>Once read, the settings are never read again.\<close>

lemma config_init_once:
  assumes "xenon_config_init b revision (x, g, h) = Some (x', g', h')" "xenon_config_initialized x'"
  shows "xenon_config_init b revision (x', g', h') = Some (x', g', h')"
  using assms by (simp add: xenon_config_init_def)

text \<open>A failed start-up or a read with an error keeps the settings as they were.\<close>

lemma config_init_failed:
  assumes "xenon_config_init b revision (x, g, h) = Some (x', g', h')" "\<not> xenon_config_initialized x'"
  shows "secured_settings x' = secured_settings x"
  using assms by (auto simp: xenon_config_init_def Let_def case_prod_beta split: if_splits bind_splits)

text \<open>The address of the network card has six bytes and never the prefix of erased or zeroed flash.\<close>

lemma mac_addr_usable:
  assumes "xconfig_ok x"
  shows "length (xenon_config_get_mac_addr x) = 6 \<and> take 3 (xenon_config_get_mac_addr x) \<notin> {[0xFF, 0xFF, 0xFF], [0, 0, 0]}"
proof -
  define a where "a = take 6 (drop MACAddress_at (secured_settings x))"
  have len: "length a = 6"
    using assms by (simp add: a_def xconfig_ok_def settings_size_def MACAddress_at_def)
  obtain p q r zs where a: "a = p # q # r # zs"
    using len by (auto simp: numeral_eq_Suc length_Suc_conv)
  then show ?thesis
    using len unfolding xenon_config_get_mac_addr_def Let_def a_def [symmetric] by auto
qed

lemma mac_addr_stored:
  assumes "take 3 (drop MACAddress_at (secured_settings x)) = [p, q, r]" "[p, q, r] \<notin> {[0xFF, 0xFF, 0xFF], [0, 0, 0]}"
  shows "xenon_config_get_mac_addr x = take 6 (drop MACAddress_at (secured_settings x))"
proof -
  have "drop MACAddress_at (secured_settings x) = [p, q, r] @ drop 3 (drop MACAddress_at (secured_settings x))"
    using append_take_drop_id [of 3 "drop MACAddress_at (secured_settings x)"] unfolding assms(1) by (rule sym)
  then obtain zs where "drop MACAddress_at (secured_settings x) = p # q # r # zs"
    by simp
  then show ?thesis
    using assms(2) by (auto simp: xenon_config_get_mac_addr_def Let_def)
qed

lemma vid_delta_range:
  "xenon_config_get_vid_delta x = - 1 \<or> 0 < xenon_config_get_vid_delta x \<and> xenon_config_get_vid_delta x < 255"
proof -
  have "0 < uint d \<and> uint d < 255" if "d \<noteq> 0" "d \<noteq> 0xFF" for d :: u8
  proof -
    have "uint d < 256" "0 \<le> uint d" "uint d \<noteq> 0" "uint d \<noteq> 255"
      using uint_lt2p [of d] that by (simp_all add: word_uint_eq_iff)
    then show ?thesis
      by linarith
  qed
  then show ?thesis
    by (simp add: xenon_config_get_vid_delta_def Let_def)
qed

end
