(* ===== verification/Spec2Isabelle.thy ===== *)
theory Spec2Isabelle
  imports Threads_Ops_Claims Lib_Queue Des_Cipher Rc4 Hmac_Sha1 Nand_Flash Malloc_Claims Mutex_Claims
    Console_Claims Config
begin

text \<open>
  \<^bold>\<open>libxenon\<close> is a bare-metal library for the Xbox 360: programs that link it run without an operating system on six
  hardware threads of a big-endian PowerPC.  This development models the parts of it that are algorithms or state
  machines, and proves that they do what their callers rely on.  All paths below are under
  \<^verbatim>\<open>src/libxenon/drivers/\<close>.

  \<^bold>\<open>How the parts interact.\<close>  The threading library (\<^verbatim>\<open>threads/\<close>) runs on every hardware thread: the decrementer
  interrupt and the system call enter its scheduler, and everything that waits does so by sleeping in it.  Mutexes
  and condition variables are built on its operations.  The queues and the memory pool (\<^verbatim>\<open>nocfe/\<close>) serve the USB
  stack.  The flash driver (\<^verbatim>\<open>xenon_nand/\<close>) reads and writes the internal NAND; the settings are read through it.
  The cryptography (\<^verbatim>\<open>crypt/\<close>) decrypts what is read from flash.  The console (\<^verbatim>\<open>console/\<close>) shows what the C library
  prints.

  \<^bold>\<open>Conventions\<close> (theory \<open>Xenon_Prelude\<close>).  A record is a C structure with the names of its fields; machine integers
  are words wherever the code can wrap around, and \<open>nat\<close> or \<open>int\<close> where they are sizes, indices and coordinates
  that stay in range.  A pointer is an option.  An operation that may not come back is a partial function: \<open>None\<close>
  is a null dereference, an access out of range, an endless loop or a spin on a held lock.  No fuel is used: loops
  that may run for ever are \<open>partial_function\<close>s into \<open>option\<close>, the others are structural or have a termination
  proof.  \<open>returns m P\<close> says that \<open>m\<close> comes back with a result in \<open>P\<close>, so the properties stated with it are total
  correctness.  \<open>ring\<close> relates the circular lists of the code to HOL lists.

  \<^bold>\<open>Threads\<close> (\<^verbatim>\<open>threads/c_threads.c\<close>, \<^verbatim>\<open>threads/threads.h\<close>).
  \<^item> \<open>Threads_Data\<close> has the structures, the locks and the pool, \<open>Threads_Sched\<close> the scheduler
    (\<open>thread_schedule_core\<close>, \<open>thread_schedule\<close>, the handlers of the system call and of the decrementer) and the
    deferred procedure calls, \<open>Threads_Ops\<close> creation, suspension, sleep, priorities, migration, interrupts between
    processors and \<open>threading_init\<close>.
  \<^item> \<open>Threads_Sched_Lemmas\<close>, \<open>Threads_Sched_Ready\<close> and \<open>Threads_Sched_Core\<close> follow the phases of the scheduler and
    show that it implements its specification; \<open>Threads_Switch\<close> adds the exchange of contexts,
    \<open>Threads_Fairness\<close> the policy over time, \<open>Threads_Dpc\<close> the deferred procedures.
  \<^item> \<open>Threads_Ops_Lemmas\<close>, \<open>Threads_Migrate\<close>, \<open>Threads_Ipi\<close>, \<open>Threads_Sleep\<close> and \<open>Threads_Boot\<close> treat the operations.
  \<^item> \<open>Threads_Claims\<close> and \<open>Threads_Ops_Claims\<close> state the results: the scheduler picks the best ready thread and keeps
    the lists well formed, no thread that can out-age the others starves, a switch resumes exactly the saved
    registers, a decrementer interrupt at level 2 or above never switches, start-up establishes the invariant on all six processors, and each operation does to the lists what
    it promises.  Processors start up one after the other, and are numbered by \<open>nat\<close>, of which the machine has 0 to
    5.  The allocator of stacks (\<open>memalign\<close>) and the order in which the other processors answer are
    arguments.

  \<^bold>\<open>Mutexes and condition variables\<close> (\<^verbatim>\<open>threads/mutex.c\<close>, \<^verbatim>\<open>threads/cond.c\<close>): \<open>Mutex\<close> and \<open>Mutex_Claims\<close>.  What the
  rest of the system does while a thread sleeps is the argument \<open>run\<close>.  A release always ends and hands the mutex to
  a single waiter; with two waiters the list of waiters is corrupted and the mutex is lost, and a new condition
  variable does not make anybody wait.

  \<^bold>\<open>Queues\<close> (\<^verbatim>\<open>nocfe/lib_queue.c\<close>): \<open>Lib_Queue\<close>, on a heap of nodes.  The locale \<open>fifo\<close> is the contract of a queue and is
  interpreted on the code.

  \<^bold>\<open>Memory pool\<close> (\<^verbatim>\<open>nocfe/lib_malloc.c\<close>): \<open>Malloc\<close> is the code on a word-addressed memory, \<open>Malloc_Lemmas\<close> the invariant
  (the blocks tile the pool), \<open>Malloc_Claims\<close> the results: allocations are aligned, disjoint and inside the pool,
  freeing gives back exactly one of them and coalesces, and the consistency check accepts every such pool and counts
  its blocks and bytes.

  \<^bold>\<open>Cryptography\<close> (\<^verbatim>\<open>crypt/\<close>).  \<open>Des\<close> and \<open>Des_Cipher\<close>: DES, triple DES and chaining, decryption undoes encryption; the
  locale \<open>block_cipher\<close> carries chaining for the three key lengths.  \<open>Rc4\<close>: the code computes
  ARCFOUR, and its state stays a permutation.  \<open>Sha1\<close>, \<open>Sha1_Correct\<close> and \<open>Hmac_Sha1\<close>: the code computes the digest and the keyed hash of the standards, which are
  written down on their own; the locale \<open>stream_hash\<close> is the contract the keyed hash relies on.

  \<^bold>\<open>Flash\<close> (\<^verbatim>\<open>xenon_nand/xenon_sfcx.c\<close>).  \<open>Nand\<close>: geometry, spare area, error correction code; \<open>Nand_Io\<close>: registers,
  pages, blocks, image flashing, start-up; \<open>Nand_Meta\<close>: results that need no hardware; \<open>Nand_Device\<close> and
  \<open>Nand_Flash\<close>: results about the device.  The hardware is the argument \<open>bus\<close>; the hypothesis \<open>controller\<close> relates
  every register access to an abstract chip, and \<open>sim_bus\<close> is a controller that satisfies it.  The chip of \<open>controller\<close> is healthy: erasing and
  programming do not fail.  Reads may, and \<open>reads_report\<close> says on which pages; flashing passes over their blocks.

  \<^bold>\<open>Settings\<close> (\<^verbatim>\<open>xenon_nand/xenon_config.c\<close>): \<open>Config\<close>, on the routines of \<open>Nand_Io\<close>.  The settings are read once, a failed
  read changes nothing, and the fields have usable defaults for erased and zeroed flash.  What the read finds in the
  flash is not stated: \<open>controller\<close> has no law for logical page reads.

  \<^bold>\<open>Console\<close> (\<^verbatim>\<open>console/console.c\<close>).  \<open>Console\<close> is the code on a framebuffer of pixels.  \<open>Console_Display\<close> shows that the
  tiled addressing is a bijection between screen and framebuffer, and what drawing and scrolling do to the picture.
  \<open>Console_Claims\<close> shows that start-up establishes the invariant and that printing implements a terminal; the locale
  \<open>char_device\<close> lifts the step of a character to texts.  The font and the display registers are arguments.  Display
  modes up to 4096 by 4096 pixels are covered, so that no size overflows a C \<open>int\<close>.

  \<^bold>\<open>Not modelled.\<close>  Of the threading library, the endless idle loops, the handlers of system management and video
  interrupts, shutdown, the assembly and the debugger stub.  The drivers that are register and DMA protocols with
  hardware (disk, USB, sound, serial line, system management, power, PCI, graphics) have no behaviour apart from that
  hardware, and no description of the hardware is in the sources.  lwIP and libfdt are third-party libraries.  The
  ELF loader jumps into what it loads.  ISO 9660, the C library glue, network start-up, console information, input,
  time and profiling are left out, as are the examples.
\<close>

end
